(* ===== verification/Prelude.thy ===== *)
theory Prelude
  imports Main "HOL-Library.Word"
begin

text \<open>
  Shared vocabulary of the development: fixed-width integers, the outcome of a piece of C
  code, byte-order helpers, and the lemmas on lists and words that several components use.
\<close>

section \<open>Integers of fixed width\<close>

unbundle bit_operations_syntax

type_synonym u8 = "8 word"
type_synonym u16 = "16 word"
type_synonym u32 = "32 word"
type_synonym u64 = "64 word"
type_synonym bytes = "u8 list"

section \<open>Outcomes\<close>

text \<open>
  A piece of C code either returns a value (\<open>Ret\<close>), calls \<open>exit\<close> with a status
  (\<open>Exit\<close>), has undefined behaviour because it leaves an object, follows a bad pointer or reads
  memory that was never written (\<open>Fault\<close>), or waits for ever in a system call that is never answered
  (\<open>Blocked\<close>).
\<close>

datatype 'a res = Ret 'a | Exit int | Fault | Blocked

fun rbind :: "'a res \<Rightarrow> ('a \<Rightarrow> 'b res) \<Rightarrow> 'b res" where
  "rbind (Ret x) f = f x"
| "rbind (Exit c) f = Exit c"
| "rbind Fault f = Fault"
| "rbind Blocked f = Blocked"

lemma rbind_cong [fundef_cong]:
  assumes "m = m'" and "\<And>x. m' = Ret x \<Longrightarrow> f x = g x"
  shows "rbind m f = rbind m' g"
  using assms by (cases m') auto

lemma rbind_assoc: "rbind (rbind m f) g = rbind m (\<lambda>x. rbind (f x) g)"
  by (cases m) auto

lemma rbind_Ret_right [simp]: "rbind m Ret = m"
  by (cases m) auto

lemma rbind_eq_Ret [simp]: "rbind m f = Ret y \<longleftrightarrow> (\<exists>x. m = Ret x \<and> f x = Ret y)"
  by (cases m) auto

lemma rbind_eq_Fault: "rbind m f = Fault \<longleftrightarrow> m = Fault \<or> (\<exists>x. m = Ret x \<and> f x = Fault)"
  by (cases m) auto

text \<open>
  The guard of an out-of-bounds or dangling access: undefined behaviour unless the condition
  holds.
\<close>

definition check :: "bool \<Rightarrow> 'a res \<Rightarrow> 'a res" where
  "check b m = (if b then m else Fault)"

lemma check_True [simp]: "check True m = m"
  and check_False [simp]: "check False m = Fault"
  by (simp_all add: check_def)

text \<open>
  The safety triple: the code does not fault, and when it returns its value satisfies
  \<open>P\<close>. Leaving through \<open>exit\<close> or waiting for ever is allowed.
\<close>

definition safe :: "'a res \<Rightarrow> ('a \<Rightarrow> bool) \<Rightarrow> bool" where
  "safe m P \<longleftrightarrow> (case m of Ret x \<Rightarrow> P x | Exit c \<Rightarrow> True | Fault \<Rightarrow> False | Blocked \<Rightarrow> True)"

named_theorems safe_intros \<open>introduction rules for the safety triple\<close>

lemma safe_simps [simp]:
  "safe (Ret x) P \<longleftrightarrow> P x"
  "safe (Exit c) P"
  "\<not> safe Fault P"
  "safe Blocked P"
  by (simp_all add: safe_def)

lemma safe_bind [safe_intros]:
  assumes "safe m P" and "\<And>x. P x \<Longrightarrow> safe (f x) Q"
  shows "safe (rbind m f) Q"
  using assms by (cases m) auto

lemma safe_bind2:
  assumes "safe m P" and "\<And>x. m = Ret x \<Longrightarrow> P x \<Longrightarrow> safe (f x) Q"
  shows "safe (rbind m f) Q"
  using assms by (cases m) auto

lemma safe_weaken: "safe m P \<Longrightarrow> (\<And>x. P x \<Longrightarrow> Q x) \<Longrightarrow> safe m Q"
  by (cases m) auto

lemma safe_not_Fault: "safe m P \<Longrightarrow> m \<noteq> Fault"
  by (cases m) auto

lemma safe_Ret: "safe m P \<Longrightarrow> m = Ret x \<Longrightarrow> P x"
  by simp

text \<open>
  The weaker triple of partial correctness: whatever value is returned satisfies \<open>P\<close>.
\<close>

definition post :: "'a res \<Rightarrow> ('a \<Rightarrow> bool) \<Rightarrow> bool" where
  "post m P \<longleftrightarrow> (\<forall>x. m = Ret x \<longrightarrow> P x)"

lemma post_simps [simp]:
  "post (Ret x) P \<longleftrightarrow> P x"
  "post (Exit c) P"
  "post Fault P"
  "post Blocked P"
  by (simp_all add: post_def)

lemma post_bind: "(\<And>x. m = Ret x \<Longrightarrow> post (f x) P) \<Longrightarrow> post (rbind m f) P"
  by (auto simp: post_def)

lemma post_bind2: "post m Q \<Longrightarrow> (\<And>x. Q x \<Longrightarrow> post (f x) P) \<Longrightarrow> post (rbind m f) P"
  by (auto simp: post_def)

lemma post_check: "(b \<Longrightarrow> post m P) \<Longrightarrow> post (check b m) P"
  by (simp add: check_def)

lemma post_if: "(b \<Longrightarrow> post m P) \<Longrightarrow> (\<not> b \<Longrightarrow> post m' P) \<Longrightarrow> post (if b then m else m') P"
  by simp

lemma postD: "post m P \<Longrightarrow> m = Ret x \<Longrightarrow> P x"
  by (simp add: post_def)

lemma post_weaken: "post m P \<Longrightarrow> (\<And>x. P x \<Longrightarrow> Q x) \<Longrightarrow> post m Q"
  by (simp add: post_def)

lemmas post_intros = post_bind post_check post_if

section \<open>Byte order\<close>

text \<open>Little-endian composition, as the code's shift-and-add expressions compute it.\<close>

definition le16 :: "u8 \<Rightarrow> u8 \<Rightarrow> u16" where
  "le16 b0 b1 = ucast b0 + push_bit 8 (ucast b1)"

definition le32 :: "u8 \<Rightarrow> u8 \<Rightarrow> u8 \<Rightarrow> u8 \<Rightarrow> u32" where
  "le32 b0 b1 b2 b3 =
     ucast b0 + push_bit 8 (ucast b1) + push_bit 16 (ucast b2) + push_bit 24 (ucast b3)"

definition byte :: "nat \<Rightarrow> 'a::len word \<Rightarrow> u8" where
  "byte k w = ucast (drop_bit (8 * k) w)"

section \<open>Reading and writing inside a byte array\<close>

definition arr_get :: "bytes \<Rightarrow> nat \<Rightarrow> u8 res" where
  "arr_get xs i = (if i < length xs then Ret (xs ! i) else Fault)"

definition arr_slice :: "bytes \<Rightarrow> nat \<Rightarrow> nat \<Rightarrow> bytes res" where
  "arr_slice xs i n = (if i + n \<le> length xs then Ret (take n (drop i xs)) else Fault)"

definition arr_put :: "bytes \<Rightarrow> nat \<Rightarrow> bytes \<Rightarrow> bytes res" where
  "arr_put xs i ys =
     (if i + length ys \<le> length xs then Ret (take i xs @ ys @ drop (i + length ys) xs) else Fault)"

lemma arr_get_Ret [simp]: "i < length xs \<Longrightarrow> arr_get xs i = Ret (xs ! i)"
  by (simp add: arr_get_def)

lemma arr_slice_Ret [simp]: "i + n \<le> length xs \<Longrightarrow> arr_slice xs i n = Ret (take n (drop i xs))"
  by (simp add: arr_slice_def)

lemma arr_put_Ret [simp]:
  "i + length ys \<le> length xs \<Longrightarrow> arr_put xs i ys = Ret (take i xs @ ys @ drop (i + length ys) xs)"
  by (simp add: arr_put_def)

lemma arr_put_mid:
  "length xs = i \<Longrightarrow> length zs = length ys \<Longrightarrow> arr_put (xs @ ys @ r) i zs = Ret (xs @ zs @ r)"
  by (simp add: arr_put_def)

lemma length_arr_put: "arr_put xs i ys = Ret zs \<Longrightarrow> length zs = length xs"
  by (auto simp: arr_put_def split: if_splits)

section \<open>Words\<close>

lemma word8_all_list:
  assumes "list_all (\<lambda>n. P (of_nat n :: u8)) [0..<256]"
  shows "P (b :: u8)"
proof -
  have "unat b \<in> set [0..<256]"
    using unsigned_less [of b, where ?'a = nat] by simp
  with assms have "P (of_nat (unat b))"
    unfolding list_all_iff by blast
  then show ?thesis by simp
qed

lemma unat_of_nat_small:
  "n < 2 ^ LENGTH('a::len) \<Longrightarrow> unat (of_nat n :: 'a word) = n"
  by (simp add: unat_of_nat take_bit_nat_eq_self)

lemma of_nat_eq_0_small:
  "n < 2 ^ LENGTH('a::len) \<Longrightarrow> (of_nat n :: 'a word) = 0 \<longleftrightarrow> n = 0"
  using unat_of_nat_small [of n, where ?'a = 'a] by (auto simp: unat_eq_zero)

lemma unat_word_dec: "(w :: 'a::len word) \<noteq> 0 \<Longrightarrow> unat (w - 1) = unat w - 1"
  by (rule unat_minus_one)

lemma unat_inj: "unat (a :: 'a::len word) = unat b \<Longrightarrow> a = b"
  by (metis of_nat_unat ucast_id)

lemma unat_ucast_up:
  "LENGTH('a) \<le> LENGTH('b) \<Longrightarrow> unat (ucast (x :: 'a::len word) :: 'b::len word) = unat x"
proof -
  assume "LENGTH('a) \<le> LENGTH('b)"
  moreover have "unat x < 2 ^ LENGTH('a)" using unsigned_less [of x, where ?'a = nat] .
  ultimately have "unat x < 2 ^ LENGTH('b)"
    using power_increasing [of "LENGTH('a)" "LENGTH('b)" "2 :: nat"] by linarith
  then show ?thesis by (simp only: unsigned_ucast_eq take_bit_nat_eq_self)
qed

lemma unat_u8_lt: "unat (b :: u8) < 256"
  using unsigned_less [of b, where ?'a = nat] by simp

lemma u16_bit_range: "bit (x :: u16) n \<Longrightarrow> n < 16"
  using bit_imp_le_length by fastforce

lemma u8_bit_range: "bit (x :: u8) n \<Longrightarrow> n < 8"
  using bit_imp_le_length by fastforce

lemma le16_or: "le16 a b = ucast a OR push_bit 8 (ucast b)"
  unfolding le16_def
  by (rule disjunctive_add_eq_or) (rule bit_eqI, auto simp: bit_and_iff bit_push_bit_iff bit_ucast_iff dest: u8_bit_range)

lemma bit_le16: "bit (le16 a b) k \<longleftrightarrow> (if k < 8 then bit a k else k < 16 \<and> bit b (k - 8))"
  using u8_bit_range [of a k]
  by (auto simp: le16_or bit_or_iff bit_push_bit_iff bit_ucast_iff)

lemma bit_byte16: "bit (byte n (x :: u16)) k \<longleftrightarrow> k < 8 \<and> bit x (8 * n + k)"
  by (auto simp: byte_def bit_ucast_iff bit_drop_bit_eq)

lemma le16_bytes: "le16 (byte 0 x) (byte 1 x) = x"
proof (rule bit_eqI)
  fix k
  show "bit (le16 (byte 0 x) (byte 1 x)) k = bit x k"
    using u16_bit_range [of x k] by (auto simp: bit_le16 bit_byte16)
qed

lemma byte_le16: "byte 0 (le16 a b) = a" "byte 1 (le16 a b) = b"
  by (rule bit_eqI, use u8_bit_range [of a] u8_bit_range [of b] in \<open>auto simp: bit_le16 bit_byte16\<close>)+

lemma le16_eq_iff: "le16 a b = x \<longleftrightarrow> a = byte 0 x \<and> b = byte 1 x"
  using le16_bytes [of x] byte_le16 [of a b] by metis

lemma bit_ff: "bit (0xff :: 'a::len word) k \<longleftrightarrow> k < 8 \<and> k < LENGTH('a)"
proof -
  have "(0xff :: 'a word) = mask 8" by (simp add: mask_eq_exp_minus_1)
  then show ?thesis by (simp only: bit_mask_iff) auto
qed

lemma ucast_and_ff: "(ucast ((x :: 'a::len word) AND 0xff) :: u8) = ucast x"
proof (rule bit_eqI)
  fix k
  show "bit (ucast (x AND 0xff) :: u8) k = bit (ucast x :: u8) k"
    using bit_imp_le_length [of x k]
    by (simp only: bit_ucast_iff bit_and_iff bit_ff) auto
qed

lemma byte_mask: "(ucast (x AND 0xff) :: u8) = byte 0 x" "(ucast (drop_bit 8 x AND 0xff) :: u8) = byte 1 x"
  for x :: "'a::len word"
  by (simp_all only: ucast_and_ff byte_def mult_0_right mult_1_right drop_bit_0 id_apply)

lemma byte_shift: "byte 0 (drop_bit 8 x) = byte 1 x"
  by (simp add: byte_def)

lemma ucast_byte: "ucast (byte k x) = take_bit 8 (drop_bit (8 * k) x)" for x :: u32
  by (rule bit_eqI) (auto simp: byte_def bit_ucast_iff bit_take_bit_iff bit_drop_bit_eq)

lemma le32_bytes: "le32 (byte 0 x) (byte 1 x) (byte 2 x) (byte 3 x) = x"
proof -
  have split: "drop_bit n x = take_bit 8 (drop_bit n x) + push_bit 8 (drop_bit (n + 8) x)" for n
    using bits_ident [of 8 "drop_bit n x"] by (simp add: add.commute)
  have "drop_bit 24 x = take_bit 8 (drop_bit 24 x)"
    by (rule bit_eqI) (auto simp: bit_take_bit_iff bit_drop_bit_eq dest: bit_imp_le_length)
  with split [of 0] split [of 8] split [of 16]
  have "x = take_bit 8 x + push_bit 8 (take_bit 8 (drop_bit 8 x) +
      push_bit 8 (take_bit 8 (drop_bit 16 x) + push_bit 8 (take_bit 8 (drop_bit 24 x))))"
    by simp
  then show ?thesis by (simp add: le32_def ucast_byte push_bit_add add.assoc)
qed

lemma take_drop_chunk:
  assumes "\<And>x. x \<in> set xs \<Longrightarrow> length (f x) = k" and "i < length xs"
  shows "take k (drop (k * i) (concat (map f xs) @ r)) = f (xs ! i)"
  using assms
proof (induction xs arbitrary: i)
  case (Cons x xs)
  show ?case
  proof (cases i)
    case (Suc j)
    then have "drop (k * i) (concat (map f (x # xs)) @ r) = drop (k * j) (concat (map f xs) @ r)"
      using Cons.prems(1) [of x] by simp
    with Suc Cons show ?thesis by simp
  qed (use Cons.prems in simp)
qed simp

lemma length_concat_chunks:
  "(\<And>x. x \<in> set xs \<Longrightarrow> length (f x) = k) \<Longrightarrow> length (concat (map f xs)) = k * length xs"
  by (induction xs) auto

end
