(* ===== verification/Machine.thy ===== *)
theory Machine
  imports Prelude
begin

text \<open>
  What the operating system answers, and the data structures of rtk_hciattach.

  The answers of the system calls are scripts: one queue per kind of call, from which each
  call takes the next answer. Nothing links the answers to what was written, so a theorem
  over all scripts covers every behaviour of the kernel and of the Bluetooth controller.
  An empty queue means the call succeeds (\<open>malloc\<close>, \<open>write\<close>, \<open>tcsetattr\<close>, the read of an
  expired timer) or never returns (\<open>read\<close> of the serial line, \<open>poll\<close>, \<open>epoll_wait\<close>).
\<close>

section \<open>The world\<close>

datatype poll_ans = PollErr | PollTimeout | PollEv (poll_hup: bool)

text \<open>An answer of \<open>epoll_wait\<close>: an error, or the events as descriptor and error flag.\<close>

datatype epoll_ans = EpollErr | EpollEv "(int \<times> bool) list"

record world =
  malloc_q :: "bool list"
  write_q :: "(int \<times> int) list"
  read_q :: "bytes option list"
  timer_q :: "bool list"
  poll_q :: "poll_ans list"
  epoll_q :: "epoll_ans list"
  tcset_q :: "int list"
  tx_log :: "bytes list"
  sys_q :: "int list"
  ti_cflag :: u32
  ti_speed :: int
  armed_msec :: nat

definition do_malloc :: "'a world_scheme \<Rightarrow> bool \<times> 'a world_scheme" where
  "do_malloc s = (case malloc_q s of [] \<Rightarrow> (True, s) | ok # q \<Rightarrow> (ok, s\<lparr>malloc_q := q\<rparr>))"

text \<open>
  \<open>write\<close>: the return value, \<open>errno\<close>, and the state with the accepted bytes logged. A failed
  call returns -1 and a positive \<open>errno\<close>.
\<close>

definition do_write :: "bytes \<Rightarrow> 'a world_scheme \<Rightarrow> int \<times> int \<times> 'a world_scheme" where
  "do_write bs s =
     (case write_q s of
        [] \<Rightarrow> (int (length bs), 0, s\<lparr>tx_log := tx_log s @ [bs]\<rparr>)
      | (r, e) # q \<Rightarrow>
          (if r < 0 then (-1, max 1 e, s\<lparr>write_q := q\<rparr>)
           else (r, e, s\<lparr>write_q := q, tx_log := tx_log s @ [take (nat r) bs]\<rparr>)))"

text \<open>
  \<open>read (fd, buf, n)\<close>: at most \<open>n\<close> bytes; what was not asked for stays in the device, and a
  read of no bytes returns at once.
\<close>

definition do_read :: "nat \<Rightarrow> 'a world_scheme \<Rightarrow> (int \<times> bytes \<times> 'a world_scheme) res" where
  "do_read n s =
     (if n = 0 then Ret (0, [], s) else
      case read_q s of
        [] \<Rightarrow> Blocked
      | None # q \<Rightarrow> Ret (-1, [], s\<lparr>read_q := q\<rparr>)
      | Some bs # q \<Rightarrow>
          (if length bs \<le> n then Ret (int (length bs), bs, s\<lparr>read_q := q\<rparr>)
           else Ret (int n, take n bs, s\<lparr>read_q := Some (drop n bs) # q\<rparr>)))"

text \<open>The read of the timer descriptor: whether all eight bytes arrived.\<close>

definition do_timer_read :: "'a world_scheme \<Rightarrow> bool \<times> 'a world_scheme" where
  "do_timer_read s = (case timer_q s of [] \<Rightarrow> (True, s) | ok # q \<Rightarrow> (ok, s\<lparr>timer_q := q\<rparr>))"

definition do_tcsetattr :: "'a world_scheme \<Rightarrow> int \<times> 'a world_scheme" where
  "do_tcsetattr s = (case tcset_q s of [] \<Rightarrow> (0, s) | r # q \<Rightarrow> (r, s\<lparr>tcset_q := q\<rparr>))"

text \<open>
  The remaining system calls share a script of return values; without an entry a call returns
  the value it returns when it succeeds.
\<close>

definition do_sys :: "int \<Rightarrow> 'a world_scheme \<Rightarrow> int \<times> 'a world_scheme" where
  "do_sys dflt s = (case sys_q s of [] \<Rightarrow> (dflt, s) | r # q \<Rightarrow> (r, s\<lparr>sys_q := q\<rparr>))"

text \<open>\<open>timeout_set\<close>: the value the timer is armed with; 0 disarms it.\<close>

definition timeout_set :: "nat \<Rightarrow> 'a world_scheme \<Rightarrow> 'a world_scheme" where
  "timeout_set msec s = s\<lparr>armed_msec := msec\<rparr>"

text \<open>
  The loop \<open>do ret = writev (...); while (ret < 0 && errno == EINTR)\<close> every sender uses.
\<close>

definition EINTR :: int where "EINTR = 4"

function do_writev :: "bytes \<Rightarrow> 'a world_scheme \<Rightarrow> int \<times> int \<times> 'a world_scheme" where
  "do_writev bs s =
     (case do_write bs s of
        (r, e, s') \<Rightarrow> if r < 0 \<and> e = EINTR then do_writev bs s' else (r, e, s'))"
  by pat_completeness auto
termination
  by (relation "measure (\<lambda>(bs, s). length (write_q s))")
    (auto simp: do_write_def split: list.splits if_splits prod.splits)

declare do_writev.simps [simp del]

text \<open>The flags of \<open>c_cflag\<close> the code changes (Linux, asm-generic).\<close>

definition CRTSCTS :: u32 where "CRTSCTS = 0x80000000"
definition PARENB :: u32 where "PARENB = 0x00000100"
definition PARODD :: u32 where "PARODD = 0x00000200"

section \<open>Socket buffers\<close>

text \<open>
  A \<open>struct sk_buff\<close> with the payload area allocated behind it: \<open>sk_mem\<close> is that area and
  \<open>sk_off\<close> the distance of the \<open>data\<close> pointer from its start.
\<close>

record sk_buff =
  max_len :: u32
  data_len :: u32
  sk_off :: nat
  sk_mem :: bytes

datatype skb_ptr = Null | Skb (the_skb: sk_buff) | Dangling

section \<open>The global state of rtk_hciattach\<close>

datatype H5_RX_STATE =
  H5_W4_PKT_DELIMITER | H5_W4_PKT_START | H5_W4_HDR | H5_W4_DATA | H5_W4_CRC

datatype H5_RX_ESC_STATE = H5_ESCSTATE_NOESC | H5_ESCSTATE_ESC

datatype H5_LINK_STATE = H5_SYNC | H5_CONFIG | H5_INIT | H5_PATCH | H5_HCI_RESET | H5_ACTIVE

definition HCI_UART_H4 :: int where "HCI_UART_H4 = 0"
definition HCI_UART_3WIRE :: int where "HCI_UART_3WIRE = 2"

definition CMD_STATE_UNKNOWN :: u16 where "CMD_STATE_UNKNOWN = 0"
definition CMD_STATE_SUCCESS :: u16 where "CMD_STATE_SUCCESS = 1"

record patch_info =
  match_flags :: u32
  pi_chip_type :: u8
  pi_lmp_subver :: u16
  proj_id :: u16
  pi_hci_ver :: u8
  pi_hci_rev :: u16
  patch_file :: string
  config_file :: string
  ic_name :: string

record rtb_struct = world +
  rxseq_txack :: u8
  rxack :: u8
  use_crc :: u8
  is_txack_req :: u8
  msgq_txseq :: u8
  message_crc :: u16
  rx_count :: u32
  rx_state :: H5_RX_STATE
  rx_esc_state :: H5_RX_ESC_STATE
  link_estab_state :: H5_LINK_STATE
  rx_skb :: skb_ptr
  num_of_cmd_sent :: u16
  lmp_subver :: u16
  hci_rev :: u16
  hci_ver :: u8
  eversion :: u8
  chip_type :: u8
  chip_ver :: u8
  vendor_baud :: u32
  dl_fw_flag :: u8
  serial_fd :: int
  uart_flow_ctrl :: u32
  parenb :: u16
  pareven :: u16
  final_speed :: u32
  total_num :: int
  tx_index :: int
  rx_index :: int
  fw_len :: int
  config_len :: int
  total_len :: int
  fw_buf :: "bytes option"
  config_buf :: "bytes option"
  total_buf :: "bytes option"
  cmd_opcode :: u16
  cmd_stat :: u16
  patch_ent :: "patch_info option"
  proto :: int
  timerfd :: int
  epollfd :: int

text \<open>
  The global \<open>rtb_cfg\<close> when the program starts: static storage, hence zero, with a kernel whose
  answers are all the default ones.
\<close>

definition rtb_cfg :: rtb_struct where
  "rtb_cfg = \<lparr>malloc_q = [], write_q = [], read_q = [], timer_q = [], poll_q = [], epoll_q = [],
     tcset_q = [], tx_log = [], sys_q = [], ti_cflag = 0, ti_speed = 0, armed_msec = 0,
     rxseq_txack = 0, rxack = 0, use_crc = 0, is_txack_req = 0, msgq_txseq = 0, message_crc = 0,
     rx_count = 0, rx_state = H5_W4_PKT_DELIMITER, rx_esc_state = H5_ESCSTATE_NOESC,
     link_estab_state = H5_SYNC, rx_skb = Null, num_of_cmd_sent = 0, lmp_subver = 0,
     hci_rev = 0, hci_ver = 0, eversion = 0, chip_type = 0, chip_ver = 0, vendor_baud = 0,
     dl_fw_flag = 0, serial_fd = 0, uart_flow_ctrl = 0, parenb = 0, pareven = 0,
     final_speed = 0, total_num = 0, tx_index = 0, rx_index = 0, fw_len = 0, config_len = 0,
     total_len = 0, fw_buf = None, config_buf = None, total_buf = None, cmd_opcode = 0,
     cmd_stat = CMD_STATE_UNKNOWN, patch_ent = None, proto = 0, timerfd = 0, epollfd = 0\<rparr>"

lemma rtb_cfg_simps [simp]:
  "malloc_q rtb_cfg = []" "write_q rtb_cfg = []" "tx_log rtb_cfg = []"
  "rxseq_txack rtb_cfg = 0" "use_crc rtb_cfg = 0" "msgq_txseq rtb_cfg = 0" "rx_count rtb_cfg = 0"
  "is_txack_req rtb_cfg = 0"
  "rx_state rtb_cfg = H5_W4_PKT_DELIMITER" "rx_skb rtb_cfg = Null"
  "link_estab_state rtb_cfg = H5_SYNC"
  by (simp_all add: rtb_cfg_def)

section \<open>Facts about the system calls\<close>

text \<open>
  Most theorems about memory safety are about runs in which no allocation fails; this is
  the condition, which every operation keeps.
\<close>

definition mem_ok :: "'a world_scheme \<Rightarrow> bool" where
  "mem_ok s \<longleftrightarrow> list_all (\<lambda>ok. ok) (malloc_q s)"

lemma do_malloc_ok:
  assumes "mem_ok s"
  obtains q where "do_malloc s = (True, s\<lparr>malloc_q := q\<rparr>)" and "list_all (\<lambda>ok. ok) q"
proof (cases "malloc_q s")
  case Nil
  then have "do_malloc s = (True, s\<lparr>malloc_q := malloc_q s\<rparr>)" by (simp add: do_malloc_def)
  then show ?thesis by (rule that) (simp add: Nil)
next
  case (Cons a q)
  with assms have "do_malloc s = (True, s\<lparr>malloc_q := q\<rparr>)" and "list_all (\<lambda>ok. ok) q"
    by (auto simp: do_malloc_def mem_ok_def)
  then show ?thesis by (rule that)
qed

lemma do_malloc_nil [simp]: "malloc_q s = [] \<Longrightarrow> do_malloc s = (True, s)"
  by (simp add: do_malloc_def)

lemma do_write_shape:
  obtains r e q l where "do_write bs s = (r, e, s\<lparr>write_q := q, tx_log := tx_log s @ l\<rparr>)"
    and "length l \<le> 1" and "r < 0 \<Longrightarrow> l = [] \<and> 0 < e"
proof (cases "write_q s")
  case Nil
  then have "do_write bs s = (int (length bs), 0, s\<lparr>write_q := [], tx_log := tx_log s @ [bs]\<rparr>)"
    by (simp add: do_write_def)
  then show ?thesis by (rule that) simp_all
next
  case (Cons a q)
  obtain r e where a: "a = (r, e)" by (cases a)
  show ?thesis
  proof (cases "r < 0")
    case True
    with Cons a have "do_write bs s = (-1, max 1 e, s\<lparr>write_q := q, tx_log := tx_log s @ []\<rparr>)"
      by (simp add: do_write_def)
    then show ?thesis by (rule that) simp_all
  next
    case False
    with Cons a
    have "do_write bs s = (r, e, s\<lparr>write_q := q, tx_log := tx_log s @ [take (nat r) bs]\<rparr>)"
      by (simp add: do_write_def)
    then show ?thesis by (rule that) (use False in simp_all)
  qed
qed

lemma do_write_nil [simp]:
  "write_q s = [] \<Longrightarrow> do_write bs s = (int (length bs), 0, s\<lparr>tx_log := tx_log s @ [bs]\<rparr>)"
  by (simp add: do_write_def)

lemma do_writev_shape:
  obtains r e q l where "do_writev bs s = (r, e, s\<lparr>write_q := q, tx_log := tx_log s @ l\<rparr>)"
    and "length l \<le> 1" and "r < 0 \<Longrightarrow> 0 < e \<and> e \<noteq> EINTR"
proof -
  have "\<exists>r e q l. do_writev bs s = (r, e, s\<lparr>write_q := q, tx_log := tx_log s @ l\<rparr>) \<and>
      length l \<le> 1 \<and> (r < 0 \<longrightarrow> 0 < e \<and> e \<noteq> EINTR)"
  proof (induction bs s rule: do_writev.induct)
    case (1 bs s)
    obtain r e q l where w: "do_write bs s = (r, e, s\<lparr>write_q := q, tx_log := tx_log s @ l\<rparr>)"
      "length l \<le> 1" "r < 0 \<Longrightarrow> l = [] \<and> 0 < e" using do_write_shape [of bs s] by metis
    show ?case
    proof (cases "r < 0 \<and> e = EINTR")
      case True
      with w(3) have "l = []" by blast
      with 1 [OF w(1) [symmetric] refl True] w True show ?thesis
        by (subst do_writev.simps) simp
    next
      case False
      with w show ?thesis by (subst do_writev.simps) auto
    qed
  qed
  with that show ?thesis by blast
qed

lemma do_writev_nil [simp]:
  "write_q s = [] \<Longrightarrow> do_writev bs s = (int (length bs), 0, s\<lparr>tx_log := tx_log s @ [bs]\<rparr>)"
  by (subst do_writev.simps) simp

end
