(* ===== verification/Skb.thy ===== *)
theory Skb
  imports Machine
begin

text \<open>
  Socket buffers of hciattach_rtk.c: \<open>skb_alloc\<close>, \<open>skb_put\<close>, \<open>skb_trim\<close>, \<open>skb_pull\<close>, the
  reads through \<open>skb->data\<close>, and the interface (a growing byte sink of bounded room) the
  SLIP encoder and the receiver rely on.
\<close>

section \<open>Operations\<close>

text \<open>
  \<open>malloc (len + sizeof *skb)\<close> followed by \<open>memset\<close>; \<open>None\<close> is the null pointer. The size
  is computed in \<open>size_t\<close>, so it does not wrap.
\<close>

definition skb_alloc :: "u32 \<Rightarrow> 'a world_scheme \<Rightarrow> sk_buff option \<times> 'a world_scheme" where
  "skb_alloc len s =
     (let (ok, s1) = do_malloc s in
      if ok then
        (Some \<lparr>max_len = len, data_len = 0, sk_off = 0, sk_mem = replicate (unat len) 0\<rparr>, s1)
      else (None, s1))"

text \<open>
  The returned pointer is given as an index of \<open>sk_mem\<close>. The test is on 32-bit sums, as in
  the code.
\<close>

definition skb_put :: "sk_buff \<Rightarrow> u32 \<Rightarrow> (nat \<times> sk_buff) res" where
  "skb_put skb len =
     (let old_len = data_len skb in
      if data_len skb + len > max_len skb then Exit 1
      else Ret (sk_off skb + unat old_len, skb\<lparr>data_len := data_len skb + len\<rparr>))"

definition skb_trim :: "sk_buff \<Rightarrow> u32 \<Rightarrow> sk_buff" where
  "skb_trim skb len = (if data_len skb > len then skb\<lparr>data_len := len\<rparr> else skb)"

definition skb_pull :: "sk_buff \<Rightarrow> u32 \<Rightarrow> sk_buff res" where
  "skb_pull skb len =
     (if len > data_len skb then Exit 1
      else Ret (skb\<lparr>data_len := data_len skb - len, sk_off := sk_off skb + unat len\<rparr>))"

text \<open>\<open>skb->data[i]\<close>, which the code does not bound by \<open>data_len\<close>.\<close>

definition sk_get :: "sk_buff \<Rightarrow> nat \<Rightarrow> u8 res" where
  "sk_get skb i = arr_get (sk_mem skb) (sk_off skb + i)"

text \<open>\<open>memcpy (skb_put (skb, n), bs, n)\<close>, the only way the code fills a buffer.\<close>

definition skb_append :: "sk_buff \<Rightarrow> bytes \<Rightarrow> sk_buff res" where
  "skb_append skb bs =
     rbind (skb_put skb (of_nat (length bs))) (\<lambda>(p, skb1).
     rbind (arr_put (sk_mem skb1) p bs) (\<lambda>m. Ret (skb1\<lparr>sk_mem := m\<rparr>)))"

section \<open>Contents and well-formedness\<close>

definition skb_bytes :: "sk_buff \<Rightarrow> bytes" where
  "skb_bytes skb = take (unat (data_len skb)) (drop (sk_off skb) (sk_mem skb))"

definition skb_wf :: "sk_buff \<Rightarrow> bool" where
  "skb_wf skb \<longleftrightarrow>
     length (sk_mem skb) = unat (max_len skb) \<and>
     sk_off skb + unat (data_len skb) \<le> length (sk_mem skb)"

definition skb_room :: "sk_buff \<Rightarrow> nat" where
  "skb_room skb = unat (max_len skb) - unat (data_len skb)"

definition skb_fresh :: "sk_buff \<Rightarrow> bool" where
  "skb_fresh skb \<longleftrightarrow> skb_wf skb \<and> sk_off skb = 0"

lemma length_skb_bytes: "skb_wf skb \<Longrightarrow> length (skb_bytes skb) = unat (data_len skb)"
  by (auto simp: skb_bytes_def skb_wf_def)

lemma sk_get_bytes:
  assumes "skb_wf skb" and "i < unat (data_len skb)"
  shows "sk_get skb i = Ret (skb_bytes skb ! i)"
  using assms by (simp add: sk_get_def skb_bytes_def skb_wf_def)

lemma sk_get_in_mem:
  "sk_off skb + i < length (sk_mem skb) \<Longrightarrow> sk_get skb i = Ret (sk_mem skb ! (sk_off skb + i))"
  by (simp add: sk_get_def)

lemma skb_alloc_cases:
  obtains (ok) q where "skb_alloc len s =
      (Some \<lparr>max_len = len, data_len = 0, sk_off = 0, sk_mem = replicate (unat len) 0\<rparr>,
       s\<lparr>malloc_q := q\<rparr>)"
  | (fail) q where "skb_alloc len s = (None, s\<lparr>malloc_q := q\<rparr>)" and "\<not> mem_ok s"
proof (cases "malloc_q s")
  case Nil
  then have "s\<lparr>malloc_q := []\<rparr> = s" by (metis world.surjective world.update_convs(1))
  with Nil show ?thesis by (intro ok [of "[]"]) (simp add: skb_alloc_def)
next
  case (Cons b q)
  show ?thesis
  proof (cases b)
    case True
    with Cons show ?thesis by (intro ok [of q]) (simp add: skb_alloc_def do_malloc_def)
  next
    case False
    with Cons show ?thesis
      by (intro fail [of q]) (simp_all add: skb_alloc_def do_malloc_def mem_ok_def)
  qed
qed

lemma skb_alloc_ok:
  assumes "mem_ok s"
  obtains q where "skb_alloc len s =
      (Some \<lparr>max_len = len, data_len = 0, sk_off = 0, sk_mem = replicate (unat len) 0\<rparr>,
       s\<lparr>malloc_q := q\<rparr>)" and "list_all (\<lambda>ok. ok) q"
  using do_malloc_ok [OF assms] that by (force simp: skb_alloc_def)

lemma skb_fresh_alloc:
  "skb_fresh \<lparr>max_len = len, data_len = 0, sk_off = 0, sk_mem = replicate (unat len) 0\<rparr>"
  by (simp add: skb_fresh_def skb_wf_def)

lemma skb_append_fresh:
  assumes "skb_fresh skb" and room: "length bs \<le> skb_room skb"
  shows "\<exists>skb'. skb_append skb bs = Ret skb' \<and> skb_fresh skb' \<and>
           skb_bytes skb' = skb_bytes skb @ bs \<and>
           skb_room skb' = skb_room skb - length bs \<and> max_len skb' = max_len skb \<and>
           unat (data_len skb') = unat (data_len skb) + length bs"
proof -
  let ?n = "of_nat (length bs) :: u32"
  from assms have wf: "length (sk_mem skb) = unat (max_len skb)" "sk_off skb = 0"
    "unat (data_len skb) \<le> unat (max_len skb)"
    by (auto simp: skb_fresh_def skb_wf_def)
  have lt: "unat (max_len skb) < 2 ^ 32"
    using unsigned_less [of "max_len skb", where ?'a = nat] by simp
  have fits: "unat (data_len skb) + length bs \<le> unat (max_len skb)"
    using room wf(3) by (simp add: skb_room_def)
  then have n: "unat ?n = length bs"
    using lt by (intro unat_of_nat_small) simp
  have sum: "unat (data_len skb + ?n) = unat (data_len skb) + length bs"
    using fits lt n by (subst unat_word_ariths) simp
  then have "\<not> data_len skb + ?n > max_len skb"
    using fits by (simp add: word_less_nat_alt)
  then have "skb_append skb bs = Ret (skb\<lparr>data_len := data_len skb + ?n,
      sk_mem := take (unat (data_len skb)) (sk_mem skb) @ bs @
        drop (unat (data_len skb) + length bs) (sk_mem skb)\<rparr>)"
    using fits wf by (simp add: skb_append_def skb_put_def Let_def)
  then show ?thesis
    using wf fits sum by (simp add: skb_fresh_def skb_wf_def skb_bytes_def skb_room_def)
qed

section \<open>The interface: a byte sink of bounded room\<close>

fun put_all :: "('s \<Rightarrow> bytes \<Rightarrow> 's res) \<Rightarrow> 's \<Rightarrow> bytes list \<Rightarrow> 's res" where
  "put_all put s [] = Ret s"
| "put_all put s (bs # bss) = rbind (put s bs) (\<lambda>s1. put_all put s1 bss)"

lemma put_all_append: "put_all put s (xss @ yss) = rbind (put_all put s xss) (\<lambda>s1. put_all put s1 yss)"
  by (induction xss arbitrary: s) (simp_all add: rbind_assoc)

locale byte_sink =
  fixes put :: "'s \<Rightarrow> bytes \<Rightarrow> 's res"
    and content :: "'s \<Rightarrow> bytes"
    and room :: "'s \<Rightarrow> nat"
    and ok :: "'s \<Rightarrow> bool"
  assumes put_ok: "ok s \<Longrightarrow> length bs \<le> room s \<Longrightarrow>
    \<exists>s'. put s bs = Ret s' \<and> ok s' \<and> content s' = content s @ bs \<and> room s' = room s - length bs"
begin

lemma put_all_ok:
  assumes "ok s" and "length (concat bss) \<le> room s"
  shows "\<exists>s'. put_all put s bss = Ret s' \<and> ok s' \<and> content s' = content s @ concat bss \<and>
           room s' = room s - length (concat bss)"
  using assms
proof (induction bss arbitrary: s)
  case Nil
  then show ?case by simp
next
  case (Cons bs bss)
  from Cons.prems obtain s1 where "put s bs = Ret s1" "ok s1" "content s1 = content s @ bs"
    "room s1 = room s - length bs"
    using put_ok [of s bs] by auto
  with Cons.prems Cons.IH [of s1] show ?case by auto
qed

end

interpretation skb: byte_sink skb_append skb_bytes skb_room skb_fresh
  by unfold_locales (use skb_append_fresh in blast)

section \<open>Pulling and trimming\<close>

lemma skb_pull_wf:
  assumes "skb_wf skb" and "len \<le> data_len skb"
  shows "\<exists>skb'. skb_pull skb len = Ret skb' \<and> skb_wf skb' \<and>
           skb_bytes skb' = drop (unat len) (skb_bytes skb) \<and>
           unat (data_len skb') = unat (data_len skb) - unat len \<and>
           sk_off skb' = sk_off skb + unat len \<and> sk_mem skb' = sk_mem skb \<and>
           max_len skb' = max_len skb"
proof -
  have "unat (data_len skb - len) = unat (data_len skb) - unat len"
    using assms(2) by (rule unat_sub)
  with assms show ?thesis
    by (simp add: skb_pull_def skb_wf_def skb_bytes_def word_le_nat_alt drop_take add.commute not_less)
qed

lemma skb_trim_fresh:
  assumes "skb_fresh skb" and "0 < len" and "len \<le> data_len skb"
  shows "skb_fresh (skb_trim skb (data_len skb - len)) \<and>
         skb_bytes (skb_trim skb (data_len skb - len)) =
           take (unat (data_len skb) - unat len) (skb_bytes skb) \<and>
         sk_mem (skb_trim skb (data_len skb - len)) = sk_mem skb \<and>
         max_len (skb_trim skb (data_len skb - len)) = max_len skb"
proof -
  have "unat (data_len skb - len) = unat (data_len skb) - unat len"
    using assms(3) by (rule unat_sub)
  moreover have "0 < unat len" "unat len \<le> unat (data_len skb)"
    using assms(2,3) by (simp_all add: word_le_nat_alt word_less_nat_alt)
  moreover from calculation have "data_len skb - len < data_len skb"
    by (simp add: word_less_nat_alt)
  ultimately show ?thesis
    using assms(1) by (auto simp: skb_trim_def skb_fresh_def skb_wf_def skb_bytes_def)
qed

end
