(* ===== verification/H5_Crc.thy ===== *)
theory H5_Crc
  imports Prelude
begin

text \<open>
  The bit-reversal table and the CRC of the three-wire protocol (hciattach_rtk.c). The
  nibble-table update is proved equal to the bit-serial CRC-CCITT register with the
  reflected polynomial 0x8408, and every error burst of at most two adjacent bytes changes
  the final register.
\<close>

section \<open>Bit reversal\<close>

definition byte_rev_table :: "u8 list" where
  "byte_rev_table = [
   0x00, 0x80, 0x40, 0xc0, 0x20, 0xa0, 0x60, 0xe0,
   0x10, 0x90, 0x50, 0xd0, 0x30, 0xb0, 0x70, 0xf0,
   0x08, 0x88, 0x48, 0xc8, 0x28, 0xa8, 0x68, 0xe8,
   0x18, 0x98, 0x58, 0xd8, 0x38, 0xb8, 0x78, 0xf8,
   0x04, 0x84, 0x44, 0xc4, 0x24, 0xa4, 0x64, 0xe4,
   0x14, 0x94, 0x54, 0xd4, 0x34, 0xb4, 0x74, 0xf4,
   0x0c, 0x8c, 0x4c, 0xcc, 0x2c, 0xac, 0x6c, 0xec,
   0x1c, 0x9c, 0x5c, 0xdc, 0x3c, 0xbc, 0x7c, 0xfc,
   0x02, 0x82, 0x42, 0xc2, 0x22, 0xa2, 0x62, 0xe2,
   0x12, 0x92, 0x52, 0xd2, 0x32, 0xb2, 0x72, 0xf2,
   0x0a, 0x8a, 0x4a, 0xca, 0x2a, 0xaa, 0x6a, 0xea,
   0x1a, 0x9a, 0x5a, 0xda, 0x3a, 0xba, 0x7a, 0xfa,
   0x06, 0x86, 0x46, 0xc6, 0x26, 0xa6, 0x66, 0xe6,
   0x16, 0x96, 0x56, 0xd6, 0x36, 0xb6, 0x76, 0xf6,
   0x0e, 0x8e, 0x4e, 0xce, 0x2e, 0xae, 0x6e, 0xee,
   0x1e, 0x9e, 0x5e, 0xde, 0x3e, 0xbe, 0x7e, 0xfe,
   0x01, 0x81, 0x41, 0xc1, 0x21, 0xa1, 0x61, 0xe1,
   0x11, 0x91, 0x51, 0xd1, 0x31, 0xb1, 0x71, 0xf1,
   0x09, 0x89, 0x49, 0xc9, 0x29, 0xa9, 0x69, 0xe9,
   0x19, 0x99, 0x59, 0xd9, 0x39, 0xb9, 0x79, 0xf9,
   0x05, 0x85, 0x45, 0xc5, 0x25, 0xa5, 0x65, 0xe5,
   0x15, 0x95, 0x55, 0xd5, 0x35, 0xb5, 0x75, 0xf5,
   0x0d, 0x8d, 0x4d, 0xcd, 0x2d, 0xad, 0x6d, 0xed,
   0x1d, 0x9d, 0x5d, 0xdd, 0x3d, 0xbd, 0x7d, 0xfd,
   0x03, 0x83, 0x43, 0xc3, 0x23, 0xa3, 0x63, 0xe3,
   0x13, 0x93, 0x53, 0xd3, 0x33, 0xb3, 0x73, 0xf3,
   0x0b, 0x8b, 0x4b, 0xcb, 0x2b, 0xab, 0x6b, 0xeb,
   0x1b, 0x9b, 0x5b, 0xdb, 0x3b, 0xbb, 0x7b, 0xfb,
   0x07, 0x87, 0x47, 0xc7, 0x27, 0xa7, 0x67, 0xe7,
   0x17, 0x97, 0x57, 0xd7, 0x37, 0xb7, 0x77, 0xf7,
   0x0f, 0x8f, 0x4f, 0xcf, 0x2f, 0xaf, 0x6f, 0xef,
   0x1f, 0x9f, 0x5f, 0xdf, 0x3f, 0xbf, 0x7f, 0xff]"

definition bit_rev8 :: "u8 \<Rightarrow> u8" where
  "bit_rev8 b = byte_rev_table ! unat b"

definition bit_rev16 :: "u16 \<Rightarrow> u16" where
  "bit_rev16 x =
     push_bit 8 (ucast (bit_rev8 (ucast (x AND 0xff)))) OR
     ucast (bit_rev8 (ucast (drop_bit 8 x)))"

section \<open>The CRC register\<close>

definition crc_table :: "u16 list" where
  "crc_table = [
   0x0000, 0x1081, 0x2102, 0x3183,
   0x4204, 0x5285, 0x6306, 0x7387,
   0x8408, 0x9489, 0xa50a, 0xb58b,
   0xc60c, 0xd68d, 0xe70e, 0xf78f]"

definition H5_CRC_INIT :: u16 where "H5_CRC_INIT = 0xffff"

definition h5_crc_update :: "u16 \<Rightarrow> u8 \<Rightarrow> u16" where
  "h5_crc_update crc d =
     (let reg = crc;
          reg = drop_bit 4 reg XOR crc_table ! unat ((reg XOR ucast d) AND 0x000f);
          reg = drop_bit 4 reg XOR crc_table ! unat ((reg XOR ucast (drop_bit 4 d)) AND 0x000f)
      in reg)"

section \<open>The table reverses the bits of a byte\<close>

definition rev_ok :: "u8 \<Rightarrow> u8 \<Rightarrow> bool" where
  "rev_ok r b \<longleftrightarrow>
     bit r 0 = bit b 7 \<and> bit r 1 = bit b 6 \<and> bit r 2 = bit b 5 \<and> bit r 3 = bit b 4 \<and>
     bit r 4 = bit b 3 \<and> bit r 5 = bit b 2 \<and> bit r 6 = bit b 1 \<and> bit r 7 = bit b 0"

fun rev_ok_from :: "nat \<Rightarrow> u8 list \<Rightarrow> bool" where
  "rev_ok_from n [] = True"
| "rev_ok_from n (r # rs) = (rev_ok r (of_nat n) \<and> rev_ok_from (Suc n) rs)"

lemma rev_ok_from_nth: "rev_ok_from n rs \<Longrightarrow> i < length rs \<Longrightarrow> rev_ok (rs ! i) (of_nat (n + i))"
proof (induction rs arbitrary: n i)
  case Nil
  then show ?case by simp
next
  case (Cons r rs)
  show ?case
  proof (cases i)
    case 0
    with Cons.prems show ?thesis by simp
  next
    case (Suc j)
    with Cons.prems have "rev_ok (rs ! j) (of_nat (Suc n + j))" by (intro Cons.IH) auto
    with Suc show ?thesis by (simp add: algebra_simps)
  qed
qed

lemma rev_ok_table: "rev_ok_from 0 byte_rev_table"
  unfolding byte_rev_table_def by (simp add: rev_ok_def)

lemma length_byte_rev_table: "length byte_rev_table = 256"
  by (simp add: byte_rev_table_def)

lemma rev_ok_bit_rev8: "rev_ok (bit_rev8 b) b"
  using rev_ok_from_nth [OF rev_ok_table, of "unat b"]
  by (simp add: length_byte_rev_table unat_u8_lt bit_rev8_def)

lemma less_8_cases:
  assumes "(i::nat) < 8"
  obtains "i = 0" | "i = 1" | "i = 2" | "i = 3" | "i = 4" | "i = 5" | "i = 6" | "i = 7"
  using assms by linarith

lemma bit_bit_rev8: "bit (bit_rev8 b) i \<longleftrightarrow> i < 8 \<and> bit b (7 - i)"
proof (cases "i < 8")
  case True
  then show ?thesis
    using rev_ok_bit_rev8 [of b] by (cases rule: less_8_cases) (simp_all add: rev_ok_def)
next
  case False
  then show ?thesis using u8_bit_range by blast
qed

lemma bit_rev8_involution: "bit_rev8 (bit_rev8 b) = b"
proof (rule bit_eqI)
  fix n
  show "bit (bit_rev8 (bit_rev8 b)) n = bit b n"
    using u8_bit_range [of b n] by (auto simp: bit_bit_rev8)
qed

lemma bit_bit_rev16: "bit (bit_rev16 x) i \<longleftrightarrow> i < 16 \<and> bit x (15 - i)"
proof -
  have ff: "bit (0xff :: u16) k \<longleftrightarrow> k < 8" for k
  proof -
    have "(0xff :: u16) = mask 8" by (simp add: mask_eq_exp_minus_1)
    then show ?thesis by (simp only: bit_mask_iff) auto
  qed
  have lo: "bit (x AND 0xff) k \<longleftrightarrow> k < 8 \<and> bit x k" for k
    by (simp only: bit_and_iff ff) (auto dest: u16_bit_range)
  have "bit (push_bit 8 (ucast (bit_rev8 (ucast (x AND 0xff)))) :: u16) i \<longleftrightarrow>
      i < 16 \<and> 8 \<le> i \<and> bit x (15 - i)"
    by (auto simp: bit_push_bit_iff bit_ucast_iff bit_bit_rev8 lo)
  moreover have "bit (ucast (bit_rev8 (ucast (drop_bit 8 x))) :: u16) i \<longleftrightarrow> i < 8 \<and> bit x (15 - i)"
    by (auto simp: bit_ucast_iff bit_bit_rev8 bit_drop_bit_eq)
  ultimately show ?thesis
    by (auto simp: bit_rev16_def bit_or_iff)
qed

lemma bit_rev16_involution: "bit_rev16 (bit_rev16 x) = x"
proof (rule bit_eqI)
  fix n
  show "bit (bit_rev16 (bit_rev16 x)) n = bit x n"
    using u16_bit_range [of x n] by (auto simp: bit_bit_rev16)
qed

lemma bit_rev16_inject: "bit_rev16 x = bit_rev16 y \<longleftrightarrow> x = y"
  by (metis bit_rev16_involution)

section \<open>The register is the bit-serial CRC-CCITT register\<close>

text \<open>
  One shift of the reference register: the bit shifted out selects the reflected generator
  polynomial of CRC-CCITT (terms 16, 12, 5 and 0).
\<close>

definition crc_bit :: "u16 \<Rightarrow> u16" where
  "crc_bit r = (if bit r 0 then drop_bit 1 r XOR 0x8408 else drop_bit 1 r)"

definition crc_byte_ref :: "u16 \<Rightarrow> u8 \<Rightarrow> u16" where
  "crc_byte_ref crc d = (crc_bit ^^ 8) (crc XOR ucast d)"

definition crc_nibble :: "u16 \<Rightarrow> u16" where
  "crc_nibble r = drop_bit 4 r XOR crc_table ! unat (r AND 15)"

lemma crc_bit_xor: "crc_bit (x XOR y) = crc_bit x XOR crc_bit y"
  by (simp add: crc_bit_def bit_xor_iff drop_bit_xor ac_simps)

lemma crc_bit_funpow_xor: "(crc_bit ^^ n) (x XOR y) = (crc_bit ^^ n) x XOR (crc_bit ^^ n) y"
  by (induction n) (simp_all add: crc_bit_xor)

lemma crc_bit_funpow_drop: "(\<And>k. k < n \<Longrightarrow> \<not> bit x k) \<Longrightarrow> (crc_bit ^^ n) x = drop_bit n x"
proof (induction n)
  case 0
  then show ?case by simp
next
  case (Suc n)
  then have "(crc_bit ^^ Suc n) x = crc_bit (drop_bit n x)" and "\<not> bit x n" by simp_all
  moreover from this(2) have "crc_bit (drop_bit n x) = drop_bit (Suc n) x"
    by (simp add: crc_bit_def bit_drop_bit_eq)
  ultimately show ?case by simp
qed

lemma u16_low_nibble:
  "(x :: u16) AND 15 \<in> {0, 1, 2, 3, 4, 5, 6, 7, 8, 9, 10, 11, 12, 13, 14, 15}"
proof -
  have "x AND 15 \<le> 15" by (rule word_and_le1)
  then have "unat (x AND 15) \<le> 15" by (simp add: word_le_nat_alt)
  then have "unat (x AND 15) \<in> set [0..<16]" by simp
  then have "of_nat (unat (x AND 15)) \<in> (of_nat ` set [0..<16] :: u16 set)" by blast
  then show ?thesis by (simp add: upt_conv_Cons)
qed

lemma crc_bit_4: "(crc_bit ^^ 4) x = crc_bit (crc_bit (crc_bit (crc_bit x)))"
  by (simp add: eval_nat_numeral)

lemma crc_table_nibble:
  "(crc_bit ^^ 4) (x AND 15) = crc_table ! unat (x AND 15)"
  using u16_low_nibble [of x] unfolding crc_bit_4
  by (elim insertE emptyE) (simp_all add: crc_table_def crc_bit_def)

lemma word_split_mask: "(x :: u16) = (x AND NOT m) XOR (x AND m)"
  by (rule bit_eqI) (auto simp: bit_xor_iff bit_and_iff bit_not_iff dest: u16_bit_range)

lemma crc_nibble_mask: "crc_nibble x = (crc_bit ^^ 4) x" if m: "m = mask 4" and "(m :: u16) = 15"
proof -
  have b: "bit m k \<longleftrightarrow> k < 4" for k
    unfolding m by (auto simp: bit_mask_iff)
  have "(crc_bit ^^ 4) x = (crc_bit ^^ 4) (x AND NOT m) XOR (crc_bit ^^ 4) (x AND m)"
    by (metis crc_bit_funpow_xor word_split_mask)
  moreover have "(crc_bit ^^ 4) (x AND NOT m) = drop_bit 4 (x AND NOT m)"
    by (intro crc_bit_funpow_drop) (simp add: bit_and_iff bit_not_iff b)
  moreover have "drop_bit 4 (x AND NOT m) = drop_bit 4 x"
    by (rule bit_eqI) (auto simp: bit_drop_bit_eq bit_and_iff bit_not_iff b dest: u16_bit_range)
  ultimately show ?thesis using that(2) by (simp add: crc_nibble_def crc_table_nibble)
qed

lemma crc_nibble_eq: "crc_nibble x = (crc_bit ^^ 4) x"
  by (rule crc_nibble_mask) (simp_all add: mask_eq_exp_minus_1)

text \<open>The two halves of a byte enter the register one after the other.\<close>

lemma xor_nibble_drop:
  fixes r y :: u16
  assumes "\<And>k. bit y k \<Longrightarrow> k < 4"
  shows "drop_bit 4 r XOR crc_table ! unat ((r XOR y) AND 15) = crc_nibble (r XOR y)"
proof -
  have "drop_bit 4 (r XOR y) = drop_bit 4 r"
    by (rule bit_eqI) (auto simp: bit_drop_bit_eq bit_xor_iff dest: assms)
  then show ?thesis by (simp add: crc_nibble_def)
qed

lemma crc_low_nibble:
  "(r XOR ucast d) AND 15 = (r XOR (ucast d AND 15)) AND (15 :: u16)"
  by (rule bit_eqI) (auto simp: bit_xor_iff bit_and_iff)

lemma h5_crc_update_serial: "h5_crc_update crc d = crc_byte_ref crc d"
proof -
  let ?lo = "ucast d AND 15 :: u16" and ?hi = "ucast (drop_bit 4 d) :: u16"
  have m: "(15 :: u16) = mask 4" by (simp add: mask_eq_exp_minus_1)
  have lo: "bit ?lo k \<longleftrightarrow> k < 4 \<and> bit d k" for k
    unfolding m by (auto simp: bit_and_iff bit_mask_iff bit_ucast_iff)
  have hi: "bit ?hi k \<longleftrightarrow> k < 4 \<and> bit d (4 + k)" for k
    using u8_bit_range [of d "4 + k"] by (auto simp: bit_ucast_iff bit_drop_bit_eq)
  have split: "(ucast d :: u16) = ?lo XOR push_bit 4 ?hi"
    by (rule bit_eqI)
      (auto simp: bit_xor_iff lo bit_push_bit_iff bit_ucast_iff bit_drop_bit_eq dest: u8_bit_range)
  have push: "(crc_bit ^^ 4) (push_bit 4 ?hi) = ?hi"
  proof -
    have "(crc_bit ^^ 4) (push_bit 4 ?hi) = drop_bit 4 (push_bit 4 ?hi)"
      by (intro crc_bit_funpow_drop) (simp add: bit_push_bit_iff)
    also have "\<dots> = ?hi"
      by (rule bit_eqI) (auto simp: bit_drop_bit_eq bit_push_bit_iff hi)
    finally show ?thesis .
  qed
  have "drop_bit 4 crc XOR crc_table ! unat ((crc XOR ucast d) AND 15) = crc_nibble (crc XOR ?lo)"
    using xor_nibble_drop [of ?lo crc] by (simp only: crc_low_nibble lo)
  then have "h5_crc_update crc d = crc_nibble (crc_nibble (crc XOR ?lo) XOR ?hi)"
    using xor_nibble_drop [of ?hi "crc_nibble (crc XOR ?lo)"]
    unfolding h5_crc_update_def Let_def by (simp only: hi)
  also have "\<dots> = (crc_bit ^^ 4) ((crc_bit ^^ 4) (crc XOR ?lo) XOR (crc_bit ^^ 4) (push_bit 4 ?hi))"
    by (simp only: crc_nibble_eq push)
  also have "\<dots> = (crc_bit ^^ 4) ((crc_bit ^^ 4) ((crc XOR ?lo) XOR push_bit 4 ?hi))"
    by (simp only: crc_bit_funpow_xor)
  also have "\<dots> = (crc_bit ^^ (4 + 4)) (crc XOR ucast d)"
    by (simp only: funpow_add o_apply xor.assoc split [symmetric])
  also have "\<dots> = crc_byte_ref crc d"
    by (simp add: crc_byte_ref_def)
  finally show ?thesis .
qed

section \<open>Error detection\<close>

text \<open>
  The interface of a check register: what a client that compares two final registers needs.
  The two laws say that one step loses nothing of the register and that two consecutive
  bytes can be read off the change of the register.
\<close>

locale check_register =
  fixes upd :: "'r \<Rightarrow> u8 \<Rightarrow> 'r"
  assumes upd_inj: "upd r d = upd r' d \<Longrightarrow> r = r'"
    and upd_pair: "upd (upd r a) b = upd (upd r a') b' \<Longrightarrow> a = a' \<and> b = b'"
begin

lemma foldl_inj: "foldl upd r xs = foldl upd r' xs \<Longrightarrow> r = r'"
  by (induction xs arbitrary: r r') (auto dest: upd_inj)

lemma detects_pair:
  assumes "(a, b) \<noteq> (a', b')"
  shows "foldl upd r (xs @ a # b # ys) \<noteq> foldl upd r (xs @ a' # b' # ys)"
  using assms by (auto dest!: foldl_inj upd_pair)

lemma detects_single:
  assumes "a \<noteq> a'"
  shows "foldl upd r (xs @ a # ys) \<noteq> foldl upd r (xs @ a' # ys)"
proof
  assume "foldl upd r (xs @ a # ys) = foldl upd r (xs @ a' # ys)"
  then have "upd (foldl upd r xs) a = upd (foldl upd r xs) a'"
    by (auto dest: foldl_inj)
  then have "upd (upd (foldl upd r xs) a) 0 = upd (upd (foldl upd r xs) a') 0"
    by simp
  with assms show False by (blast dest: upd_pair)
qed

end

definition crc_unbit :: "u16 \<Rightarrow> u16" where
  "crc_unbit y = (if bit y 15 then push_bit 1 (y XOR 0x8408) OR 1 else push_bit 1 y)"

lemma crc_unbit_bit: "crc_unbit (crc_bit x) = x"
proof (rule bit_eqI)
  fix n
  assume "possible_bit TYPE(u16) n"
  then have n: "n < 16" by simp
  have top: "\<not> bit (drop_bit 1 x) 15"
    using u16_bit_range [of x 16] by (auto simp: bit_drop_bit_eq)
  have poly: "bit (0x8408 :: u16) 15" by simp
  have sh: "bit (push_bit 1 (drop_bit 1 x)) k \<longleftrightarrow> k < 16 \<and> 0 < k \<and> bit x k" for k
    by (simp only: bit_push_bit_iff bit_drop_bit_eq) (cases k; auto)
  show "bit (crc_unbit (crc_bit x)) n = bit x n"
  proof (cases "bit x 0")
    case True
    then have eq: "crc_bit x = drop_bit 1 x XOR 0x8408" by (simp add: crc_bit_def)
    then have "bit (crc_bit x) 15" using top poly by (simp add: bit_xor_iff)
    then have "crc_unbit (crc_bit x) = push_bit 1 (crc_bit x XOR 0x8408) OR 1"
      by (simp only: crc_unbit_def if_True)
    also have "crc_bit x XOR 0x8408 = drop_bit 1 x"
      by (simp only: eq xor.assoc) simp
    finally have "crc_unbit (crc_bit x) = push_bit 1 (drop_bit 1 x) OR 1" .
    then show ?thesis using True n
      by (cases n) (simp_all only: bit_or_iff sh, simp_all add: bit_1_iff)
  next
    case False
    then have "crc_unbit (crc_bit x) = push_bit 1 (drop_bit 1 x)"
      using top by (simp add: crc_unbit_def crc_bit_def)
    then show ?thesis using False n
      by (cases n) (simp_all only: sh, simp_all)
  qed
qed

lemma crc_bit_funpow_inj: "(crc_bit ^^ n) x = (crc_bit ^^ n) y \<Longrightarrow> x = y"
  by (induction n) (auto, metis crc_unbit_bit)

lemma h5_crc_update_pair:
  "h5_crc_update (h5_crc_update r a) b =
     (crc_bit ^^ 16) (r XOR (ucast a XOR push_bit 8 (ucast b)))"
proof -
  have "(crc_bit ^^ 8) (push_bit 8 (ucast b)) = drop_bit 8 (push_bit 8 (ucast b :: u16))"
    by (intro crc_bit_funpow_drop) (simp add: bit_push_bit_iff)
  also have "\<dots> = ucast b"
    by (rule bit_eqI) (auto simp: bit_drop_bit_eq bit_push_bit_iff bit_ucast_iff dest: u8_bit_range)
  finally have "h5_crc_update (h5_crc_update r a) b =
      (crc_bit ^^ 8) ((crc_bit ^^ 8) (r XOR ucast a) XOR (crc_bit ^^ 8) (push_bit 8 (ucast b)))"
    by (simp only: h5_crc_update_serial crc_byte_ref_def)
  also have "\<dots> = (crc_bit ^^ 8) ((crc_bit ^^ 8) ((r XOR ucast a) XOR push_bit 8 (ucast b)))"
    by (simp only: crc_bit_funpow_xor)
  also have "\<dots> = (crc_bit ^^ (8 + 8)) ((r XOR ucast a) XOR push_bit 8 (ucast b))"
    by (simp only: funpow_add o_apply)
  finally show ?thesis by (simp add: xor.assoc)
qed

lemma ucast_pair_inj:
  fixes a b a' b' :: u8
  assumes "ucast a XOR push_bit 8 (ucast b) = (ucast a' XOR push_bit 8 (ucast b') :: u16)"
  shows "a = a' \<and> b = b'"
proof -
  have val: "bit (ucast c XOR push_bit 8 (ucast d) :: u16) k \<longleftrightarrow>
      (if k < 8 then bit c k else k < 16 \<and> bit d (k - 8))" for c d :: u8 and k
    using u8_bit_range [of c k] by (auto simp: bit_xor_iff bit_push_bit_iff bit_ucast_iff)
  have "bit a k = bit a' k" if "k < 8" for k
    using val [of a b k] val [of a' b' k] assms that by simp
  moreover have "bit b k = bit b' k" if "k < 8" for k
    using val [of a b "k + 8"] val [of a' b' "k + 8"] assms that by simp
  ultimately show ?thesis by (simp add: bit_eq_iff)
qed

interpretation crc: check_register h5_crc_update
proof unfold_locales
  fix r r' :: u16 and d :: u8
  assume "h5_crc_update r d = h5_crc_update r' d"
  then have "r XOR ucast d = r' XOR ucast d"
    unfolding h5_crc_update_serial crc_byte_ref_def by (rule crc_bit_funpow_inj)
  then have "(r XOR ucast d) XOR ucast d = (r' XOR ucast d) XOR ucast d" by simp
  then show "r = r'" by (simp only: xor.assoc xor_self_eq xor.right_neutral)
next
  fix r :: u16 and a b a' b' :: u8
  assume "h5_crc_update (h5_crc_update r a) b = h5_crc_update (h5_crc_update r a') b'"
  then have "r XOR (ucast a XOR push_bit 8 (ucast b)) = r XOR (ucast a' XOR push_bit 8 (ucast b'))"
    unfolding h5_crc_update_pair by (rule crc_bit_funpow_inj)
  then have "r XOR (r XOR (ucast a XOR push_bit 8 (ucast b))) =
      r XOR (r XOR (ucast a' XOR push_bit 8 (ucast b')))" by simp
  then show "a = a' \<and> b = b'"
    by (intro ucast_pair_inj) (simp only: xor.assoc [symmetric] xor_self_eq xor.left_neutral)
qed

section \<open>The textbook register\<close>

text \<open>
  CRC-CCITT as it is usually stated: the bits of the message enter one by one, the least
  significant bit of each byte first, and a feedback bit selects the reflected polynomial.
\<close>

definition crc_shift :: "u16 \<Rightarrow> bool \<Rightarrow> u16" where
  "crc_shift r b = (if bit r 0 \<noteq> b then drop_bit 1 r XOR 0x8408 else drop_bit 1 r)"

definition byte_bits :: "u8 \<Rightarrow> bool list" where
  "byte_bits d = map (bit d) [0..<8]"

lemma crc_shift_bit: "crc_shift r b = crc_bit (r XOR of_bool b)"
proof (cases b)
  case True
  have "drop_bit 1 (r XOR 1) = drop_bit 1 r"
    by (rule bit_eqI) (auto simp: bit_drop_bit_eq bit_xor_iff bit_1_iff)
  with True show ?thesis by (auto simp: crc_shift_def crc_bit_def bit_xor_iff)
qed (simp add: crc_shift_def crc_bit_def)

lemma take_bit_Suc_xor:
  fixes x :: u16
  assumes "n < 16"
  shows "take_bit (Suc n) x = take_bit n x XOR push_bit n (of_bool (bit x n))"
proof (rule bit_eqI)
  fix k
  show "bit (take_bit (Suc n) x) k = bit (take_bit n x XOR push_bit n (of_bool (bit x n))) k"
    using assms by (auto simp: bit_take_bit_iff bit_xor_iff bit_push_bit_iff bit_of_bool_iff less_Suc_eq)
qed

lemma crc_shift_bits:
  "n \<le> 16 \<Longrightarrow> foldl crc_shift r (map (bit x) [0..<n]) = (crc_bit ^^ n) (r XOR take_bit n x)"
proof (induction n)
  case 0
  then show ?case by simp
next
  case (Suc n)
  have "(crc_bit ^^ n) (push_bit n (of_bool (bit x n))) = drop_bit n (push_bit n (of_bool (bit x n)) :: u16)"
    by (intro crc_bit_funpow_drop) (simp add: bit_push_bit_iff)
  also have "\<dots> = of_bool (bit x n)"
    using Suc.prems
    by (intro bit_eqI) (auto simp: bit_drop_bit_eq bit_push_bit_iff bit_of_bool_iff)
  finally have "(crc_bit ^^ n) (r XOR take_bit (Suc n) x) =
      (crc_bit ^^ n) (r XOR take_bit n x) XOR of_bool (bit x n)"
    using take_bit_Suc_xor [of n x] Suc.prems
    by (simp only: xor.assoc [symmetric] crc_bit_funpow_xor)
  with Suc show ?case by (simp add: crc_shift_bit)
qed

lemma crc_byte_ref_bits: "crc_byte_ref crc d = foldl crc_shift crc (byte_bits d)"
proof -
  have m: "map (bit d) [0..<8] = map (bit (ucast d :: u16)) [0..<8]"
    by (auto simp: bit_ucast_iff)
  have "take_bit 8 (ucast d :: u16) = ucast d"
    by (rule bit_eqI) (auto simp: bit_take_bit_iff bit_ucast_iff dest: u8_bit_range)
  then show ?thesis
    unfolding byte_bits_def m by (simp add: crc_shift_bits crc_byte_ref_def)
qed

section \<open>Properties\<close>

text \<open>
  Claim C24. The nibble-table CRC of the three-wire protocol is the bit-serial CRC-CCITT: for
  every start value and every message, folding \<open>h5_crc_update\<close> over the bytes gives the
  register that shifts the message in bit by bit, least significant bit first.
\<close>

theorem h5_crc_is_ccitt:
  "foldl h5_crc_update crc bs = foldl crc_shift crc (concat (map byte_bits bs))"
  by (induction bs arbitrary: crc) (simp_all add: h5_crc_update_serial crc_byte_ref_bits)

text \<open>
  \<open>bit_rev16\<close>, built from two look-ups in the 256-entry table, reverses the sixteen
  bits of its argument.
\<close>

theorem bit_rev16_reverses:
  "map (bit (bit_rev16 x)) [0..<16] = rev (map (bit x) [0..<16])"
  by (rule nth_equalityI) (auto simp: bit_bit_rev16 rev_nth)

end
