(* ===== verification/H5_Slip.thy ===== *)
theory H5_Slip
  imports Skb H5_Crc
begin

text \<open>
  The SLIP layer of hciattach_rtk.c: the encoder writing into a socket buffer and the
  one-byte decoder working on the receiver's state, with the code (a byte stuffing) they
  implement.
\<close>

section \<open>Encoder\<close>

definition h5_slip_msgdelim :: "sk_buff \<Rightarrow> sk_buff res" where
  "h5_slip_msgdelim skb = skb_append skb [0xc0]"

definition h5_slip_one_byte :: "sk_buff \<Rightarrow> u8 \<Rightarrow> sk_buff res" where
  "h5_slip_one_byte skb c =
     (if c = 0xc0 then skb_append skb [0xdb, 0xdc]
      else if c = 0xdb then skb_append skb [0xdb, 0xdd]
      else if c = 0x11 then skb_append skb [0xdb, 0xde]
      else if c = 0x13 then skb_append skb [0xdb, 0xdf]
      else skb_append skb [c])"

section \<open>Decoder\<close>

text \<open>
  The common part of the five accepting branches: store the decoded byte and, unless the
  CRC itself is being received, fold it into the running CRC when the header asks for one.
\<close>

definition h5_unslip_store :: "rtb_struct \<Rightarrow> u8 \<Rightarrow> rtb_struct res" where
  "h5_unslip_store h5 c =
     (case rx_skb h5 of
        Skb k \<Rightarrow>
          rbind (skb_append k [c]) (\<lambda>k1.
          rbind (sk_get k1 0) (\<lambda>d0.
            let h5 = h5\<lparr>rx_skb := Skb k1\<rparr> in
            Ret (if d0 AND 0x40 \<noteq> 0 \<and> rx_state h5 \<noteq> H5_W4_CRC
                 then h5\<lparr>message_crc := h5_crc_update (message_crc h5) c\<rparr> else h5)))
      | _ \<Rightarrow> Fault)"

definition h5_unslip_one_byte :: "rtb_struct \<Rightarrow> u8 \<Rightarrow> rtb_struct res" where
  "h5_unslip_one_byte h5 b =
     (case rx_esc_state h5 of
        H5_ESCSTATE_NOESC \<Rightarrow>
          (if b = 0xdb then Ret (h5\<lparr>rx_esc_state := H5_ESCSTATE_ESC\<rparr>)
           else rbind (h5_unslip_store h5 b) (\<lambda>h5. Ret (h5\<lparr>rx_count := rx_count h5 - 1\<rparr>)))
      | H5_ESCSTATE_ESC \<Rightarrow>
          (let accept = (\<lambda>c. rbind (h5_unslip_store h5 c) (\<lambda>h5.
                 Ret (h5\<lparr>rx_esc_state := H5_ESCSTATE_NOESC, rx_count := rx_count h5 - 1\<rparr>)))
           in if b = 0xdc then accept 0xc0
              else if b = 0xdd then accept 0xdb
              else if b = 0xde then accept 0x11
              else if b = 0xdf then accept 0x13
              else check (rx_skb h5 \<noteq> Dangling)
                (Ret (h5\<lparr>rx_skb := Null, rx_state := H5_W4_PKT_DELIMITER, rx_count := 0\<rparr>))))"

section \<open>The stuffing code\<close>

definition slip_byte :: "u8 \<Rightarrow> bytes" where
  "slip_byte c =
     (if c = 0xc0 then [0xdb, 0xdc]
      else if c = 0xdb then [0xdb, 0xdd]
      else if c = 0x11 then [0xdb, 0xde]
      else if c = 0x13 then [0xdb, 0xdf]
      else [c])"

definition slip :: "bytes \<Rightarrow> bytes" where
  "slip bs = concat (map slip_byte bs)"

lemma h5_slip_one_byte_eq: "h5_slip_one_byte skb c = skb_append skb (slip_byte c)"
  by (simp add: h5_slip_one_byte_def slip_byte_def)

lemma length_slip_byte: "length (slip_byte c) \<le> 2"
  by (simp add: slip_byte_def)

lemma slip_simps [simp]: "slip [] = []" "slip (b # bs) = slip_byte b @ slip bs"
  "slip (xs @ ys) = slip xs @ slip ys"
  by (simp_all add: slip_def)

lemma length_slip: "length (slip bs) \<le> 2 * length bs"
proof (induction bs)
  case (Cons b bs)
  then show ?case using length_slip_byte [of b] by simp
qed simp

text \<open>
  What a framing layer needs of a stuffing code: encoded bytes never contain the delimiter,
  and the first encoded byte of a stream determines the decoded one.
\<close>

locale byte_stuffing =
  fixes esc :: "u8 \<Rightarrow> bytes" and delim :: u8
  assumes esc_nonempty: "esc c \<noteq> []"
    and delim_free: "delim \<notin> set (esc c)"
    and prefix_code: "esc a @ xs = esc b @ ys \<Longrightarrow> a = b \<and> xs = ys"
begin

lemma stuffed_no_delim: "delim \<notin> set (concat (map esc bs))"
  using delim_free by auto

lemma stuffed_inj: "concat (map esc xs) = concat (map esc ys) \<Longrightarrow> xs = ys"
proof (induction xs arbitrary: ys)
  case Nil
  then show ?case using esc_nonempty by (cases ys) auto
next
  case (Cons x xs)
  then obtain y zs where ys: "ys = y # zs"
    using esc_nonempty [of x] by (cases ys) auto
  with Cons.prems have "x = y \<and> concat (map esc xs) = concat (map esc zs)"
    by (auto dest: prefix_code)
  with ys show ?case using Cons.IH by blast
qed

lemma framed_inj:
  "delim # concat (map esc xs) @ delim # us = delim # concat (map esc ys) @ delim # vs \<Longrightarrow>
   xs = ys \<and> us = vs"
proof -
  assume "delim # concat (map esc xs) @ delim # us = delim # concat (map esc ys) @ delim # vs"
  then have eq: "concat (map esc xs) @ delim # us = concat (map esc ys) @ delim # vs" by simp
  let ?p = "\<lambda>b. b \<noteq> delim"
  have tw: "takeWhile ?p (concat (map esc zs) @ delim # ws) = concat (map esc zs)"
    and dw: "dropWhile ?p (concat (map esc zs) @ delim # ws) = delim # ws" for zs ws
    using delim_free by (fastforce simp: takeWhile_append dropWhile_append)+
  from arg_cong [OF eq, of "takeWhile ?p"] arg_cong [OF eq, of "dropWhile ?p"]
  show "xs = ys \<and> us = vs"
    unfolding tw dw using stuffed_inj by auto
qed

end

lemma slip_byte_prefix: "slip_byte a @ xs = slip_byte b @ ys \<Longrightarrow> a = b \<and> xs = ys"
  by (auto simp: slip_byte_def split: if_splits)

interpretation slip: byte_stuffing slip_byte "0xc0"
  by unfold_locales (auto simp: slip_byte_def split: if_splits dest: slip_byte_prefix)

section \<open>The decoder inverts the code\<close>

lemma unslip_byte:
  assumes "rx_esc_state h5 = H5_ESCSTATE_NOESC"
  shows "(case slip_byte c of
            [b] \<Rightarrow> h5_unslip_one_byte h5 b
          | [b, b'] \<Rightarrow> rbind (h5_unslip_one_byte h5 b) (\<lambda>h5. h5_unslip_one_byte h5 b')
          | _ \<Rightarrow> Fault) =
         rbind (h5_unslip_store h5 c) (\<lambda>h5.
           Ret (h5\<lparr>rx_esc_state := H5_ESCSTATE_NOESC, rx_count := rx_count h5 - 1\<rparr>))"
proof -
  have e: "rbind (h5_unslip_store h5 c) (\<lambda>h5. Ret (h5\<lparr>rx_count := rx_count h5 - 1\<rparr>)) =
      rbind (h5_unslip_store h5 c) (\<lambda>h5.
        Ret (h5\<lparr>rx_esc_state := H5_ESCSTATE_NOESC, rx_count := rx_count h5 - 1\<rparr>))"
    using assms
    by (cases "rx_skb h5") (auto simp: h5_unslip_store_def rbind_assoc Let_def intro!: rbind_cong)
  have st: "h5_unslip_store (h5\<lparr>rx_esc_state := H5_ESCSTATE_ESC\<rparr>) d =
      rbind (h5_unslip_store h5 d) (\<lambda>h5. Ret (h5\<lparr>rx_esc_state := H5_ESCSTATE_ESC\<rparr>))" for d
    by (cases "rx_skb h5") (auto simp: h5_unslip_store_def rbind_assoc Let_def intro!: rbind_cong)
  show ?thesis
    using assms e by (auto simp: slip_byte_def h5_unslip_one_byte_def st rbind_assoc)
qed

section \<open>Properties\<close>

lemma slip_frame_inj: "slip xs @ 0xc0 # us = slip ys @ 0xc0 # vs \<Longrightarrow> xs = ys \<and> us = vs"
  unfolding slip_def by (rule slip.framed_inj) simp

lemma slip_no_delim: "0xc0 \<notin> set (slip bs)"
  unfolding slip_def by (rule slip.stuffed_no_delim)


end
