(* ===== verification/H5_Tx.thy ===== *)
theory H5_Tx
  imports H5_Slip
begin

text \<open>
  Building and sending three-wire packets (hciattach_rtk.c: \<open>h5_prepare_pkt\<close>,
  \<open>rtb_send_ack\<close>), with the frame they are specified to produce.
\<close>

section \<open>Packet types\<close>

definition H5_ACK_PKT :: u8 where "H5_ACK_PKT = 0x00"
definition HCI_COMMAND_PKT :: u8 where "HCI_COMMAND_PKT = 0x01"
definition HCI_ACLDATA_PKT :: u8 where "HCI_ACLDATA_PKT = 0x02"
definition HCI_SCODATA_PKT :: u8 where "HCI_SCODATA_PKT = 0x03"
definition HCI_EVENT_PKT :: u8 where "HCI_EVENT_PKT = 0x04"
definition H5_VDRSPEC_PKT :: u8 where "H5_VDRSPEC_PKT = 0x0E"
definition H5_LINK_CTL_PKT :: u8 where "H5_LINK_CTL_PKT = 0x0F"

lemmas pkt_type_defs = H5_ACK_PKT_def HCI_COMMAND_PKT_def HCI_ACLDATA_PKT_def
  HCI_SCODATA_PKT_def HCI_EVENT_PKT_def H5_VDRSPEC_PKT_def H5_LINK_CTL_PKT_def

text \<open>The first switch of \<open>h5_prepare_pkt\<close>: reliable, unreliable or unknown.\<close>

definition h5_reliable :: "u8 \<Rightarrow> bool option" where
  "h5_reliable pkt_type =
     (if pkt_type = HCI_ACLDATA_PKT \<or> pkt_type = HCI_COMMAND_PKT \<or> pkt_type = HCI_EVENT_PKT
      then Some True
      else if pkt_type = H5_ACK_PKT \<or> pkt_type = H5_VDRSPEC_PKT \<or> pkt_type = H5_LINK_CTL_PKT
      then Some False
      else None)"

section \<open>Building a packet\<close>

text \<open>The header and payload loops: escape each byte, and fold it into the CRC if wanted.\<close>

fun h5_encode :: "bool \<Rightarrow> sk_buff \<Rightarrow> u16 \<Rightarrow> bytes \<Rightarrow> (sk_buff \<times> u16) res" where
  "h5_encode crc_on k crc [] = Ret (k, crc)"
| "h5_encode crc_on k crc (b # bs) =
     rbind (h5_slip_one_byte k b) (\<lambda>k.
       h5_encode crc_on k (if crc_on then h5_crc_update crc b else crc) bs)"

text \<open>
  \<open>len\<close> is the length of \<open>payload\<close>: every caller passes a buffer with that many bytes.
  \<open>None\<close> is the null pointer.
\<close>

definition h5_prepare_pkt ::
  "rtb_struct \<Rightarrow> bytes \<Rightarrow> u8 \<Rightarrow> (sk_buff option \<times> rtb_struct) res" where
  "h5_prepare_pkt h5 payload pkt_type =
     (let len = of_nat (length payload) :: u32 in
      case h5_reliable pkt_type of
        None \<Rightarrow> Ret (None, h5)
      | Some rel \<Rightarrow>
        (case skb_alloc ((len + 6) * 2 + 2) h5 of
           (None, h5) \<Rightarrow> Ret (None, h5)
         | (Some nskb, h5) \<Rightarrow>
           rbind (h5_slip_msgdelim nskb) (\<lambda>nskb.
           let hdr0 = push_bit 3 (rxseq_txack h5);
               h5 = h5\<lparr>is_txack_req := 0\<rparr>;
               (hdr0, h5) =
                 (if rel then (hdr0 OR (0x80 + msgq_txseq h5),
                               h5\<lparr>msgq_txseq := (msgq_txseq h5 + 1) AND 0x07\<rparr>)
                  else (hdr0, h5));
               crc_on = (use_crc h5 \<noteq> 0);
               hdr0 = (if crc_on then hdr0 OR 0x40 else hdr0);
               hdr1 = ucast (push_bit 4 len AND 0xff) OR pkt_type;
               hdr2 = ucast (drop_bit 4 len);
               hdr3 = NOT (hdr0 + hdr1 + hdr2)
           in rbind (h5_encode crc_on nskb H5_CRC_INIT [hdr0, hdr1, hdr2, hdr3]) (\<lambda>(nskb, crc).
              rbind (h5_encode crc_on nskb crc payload) (\<lambda>(nskb, crc).
              rbind (if crc_on then
                       (let crc = bit_rev16 crc in
                        rbind (h5_slip_one_byte nskb (ucast (drop_bit 8 crc AND 0x00ff))) (\<lambda>nskb.
                          h5_slip_one_byte nskb (ucast (crc AND 0x00ff))))
                     else Ret nskb) (\<lambda>nskb.
              rbind (h5_slip_msgdelim nskb) (\<lambda>nskb. Ret (Some nskb, h5))))))))"

text \<open>
  Sending the host's pure acknowledgement. The returned packet is used without a test, so a
  failed allocation is a null-pointer access.
\<close>

definition rtb_send_ack :: "rtb_struct \<Rightarrow> rtb_struct res" where
  "rtb_send_ack h5 =
     rbind (h5_prepare_pkt h5 [] H5_ACK_PKT) (\<lambda>(nskb, h5).
       case nskb of
         None \<Rightarrow> Fault
       | Some k \<Rightarrow> (case do_write (skb_bytes k) h5 of (len, e, h5) \<Rightarrow> Ret h5))"

section \<open>The frame a packet is specified to be\<close>

definition h5_hdr :: "u8 \<Rightarrow> u8 \<Rightarrow> bool \<Rightarrow> bool \<Rightarrow> nat \<Rightarrow> u8 \<Rightarrow> bytes" where
  "h5_hdr ack seq rel crc_on n pkt_type =
     (let b0 = push_bit 3 ack OR (if rel then 0x80 + seq else 0) OR (if crc_on then 0x40 else 0);
          b1 = ucast (push_bit 4 (of_nat n :: u32) AND 0xff) OR pkt_type;
          b2 = ucast (drop_bit 4 (of_nat n :: u32))
      in [b0, b1, b2, NOT (b0 + b1 + b2)])"

definition h5_crc_of :: "bytes \<Rightarrow> bytes" where
  "h5_crc_of bs =
     (let crc = bit_rev16 (foldl h5_crc_update H5_CRC_INIT bs)
      in [ucast (drop_bit 8 crc AND 0x00ff), ucast (crc AND 0x00ff)])"

definition h5_body :: "bool \<Rightarrow> bytes \<Rightarrow> bytes \<Rightarrow> bytes" where
  "h5_body crc_on hdr payload = hdr @ payload @ (if crc_on then h5_crc_of (hdr @ payload) else [])"

definition h5_frame :: "bool \<Rightarrow> bytes \<Rightarrow> bytes \<Rightarrow> bytes" where
  "h5_frame crc_on hdr payload = [0xc0] @ slip (h5_body crc_on hdr payload) @ [0xc0]"

lemma length_h5_hdr [simp]: "length (h5_hdr ack seq rel crc_on n t) = 4"
  by (simp add: h5_hdr_def Let_def)

lemma length_h5_crc_of [simp]: "length (h5_crc_of bs) = 2"
  by (simp add: h5_crc_of_def Let_def)

lemma length_h5_body: "length hdr = 4 \<Longrightarrow> length (h5_body c hdr payload) \<le> length payload + 6"
  by (simp add: h5_body_def)

section \<open>The builder produces the frame\<close>

lemma h5_encode_put_all:
  "h5_encode crc_on k crc bs =
     rbind (put_all skb_append k (map slip_byte bs)) (\<lambda>k'.
       Ret (k', if crc_on then foldl h5_crc_update crc bs else crc))"
  by (induction bs arbitrary: k crc) (simp_all add: h5_slip_one_byte_eq rbind_assoc)

definition h5_tx_state :: "rtb_struct \<Rightarrow> bool \<Rightarrow> rtb_struct" where
  "h5_tx_state h5 rel =
     h5\<lparr>is_txack_req := 0,
        msgq_txseq := (if rel then (msgq_txseq h5 + 1) AND 0x07 else msgq_txseq h5)\<rparr>"

lemma h5_prepare_pkt_put_all:
  assumes rel: "h5_reliable t = Some rel"
    and alloc: "skb_alloc (14 + of_nat (length payload) * 2) h5 = (Some k0, h5a)"
  shows "h5_prepare_pkt h5 payload t =
    (let hdr = h5_hdr (rxseq_txack h5a) (msgq_txseq h5a) rel (use_crc h5a \<noteq> 0) (length payload) t
     in rbind (put_all skb_append k0
          ([[0xc0]] @ map slip_byte (h5_body (use_crc h5a \<noteq> 0) hdr payload) @ [[0xc0]]))
        (\<lambda>k. Ret (Some k, h5_tx_state h5a rel)))"
proof (cases rel)
  case True
  then show ?thesis
    by (simp add: h5_prepare_pkt_def rel alloc h5_encode_put_all h5_slip_msgdelim_def
        h5_slip_one_byte_eq rbind_assoc Let_def h5_hdr_def h5_body_def h5_crc_of_def
        h5_tx_state_def put_all_append or.assoc)
next
  case False
  then show ?thesis
    by (simp add: h5_prepare_pkt_def rel alloc h5_encode_put_all h5_slip_msgdelim_def
        h5_slip_one_byte_eq rbind_assoc Let_def h5_hdr_def h5_body_def h5_crc_of_def
        h5_tx_state_def put_all_append or.assoc)
qed

lemma h5_prepare_pkt_fail:
  assumes "h5_reliable t = Some rel"
    and "skb_alloc (14 + of_nat (length payload) * 2) h5 = (None, h5a)"
  shows "h5_prepare_pkt h5 payload t = Ret (None, h5a)"
  using assms by (simp add: h5_prepare_pkt_def Let_def)

lemma h5_prepare_pkt_frame:
  assumes rel: "h5_reliable t = Some rel" and len: "length payload < 2 ^ 30"
    and alloc: "do_malloc h5 = (True, h5a)"
  shows "\<exists>k. h5_prepare_pkt h5 payload t = Ret (Some k, h5_tx_state h5a rel) \<and> skb_fresh k \<and>
           skb_bytes k =
             h5_frame (use_crc h5a \<noteq> 0)
               (h5_hdr (rxseq_txack h5a) (msgq_txseq h5a) rel (use_crc h5a \<noteq> 0) (length payload) t)
               payload"
proof -
  let ?n = "14 + of_nat (length payload) * 2 :: u32"
  define k0 where "k0 = \<lparr>max_len = ?n, data_len = 0, sk_off = 0, sk_mem = replicate (unat ?n) 0\<rparr>"
  have "unat ?n = unat (of_nat (14 + length payload * 2) :: u32)" by simp
  also have "\<dots> = 14 + length payload * 2"
    by (rule unat_of_nat_small) (use len in simp)
  finally have n: "unat ?n = 14 + 2 * length payload" by simp
  have fresh: "skb_fresh k0" and k0: "skb_bytes k0 = []" "skb_room k0 = 14 + 2 * length payload"
    unfolding k0_def by (rule skb_fresh_alloc) (simp_all add: skb_bytes_def skb_room_def n)
  have sa: "skb_alloc ?n h5 = (Some k0, h5a)"
    using alloc by (simp add: skb_alloc_def k0_def)
  let ?hdr = "h5_hdr (rxseq_txack h5a) (msgq_txseq h5a) rel (use_crc h5a \<noteq> 0) (length payload) t"
  let ?body = "h5_body (use_crc h5a \<noteq> 0) ?hdr payload"
  let ?chunks = "[[0xc0]] @ map slip_byte ?body @ [[0xc0]]"
  have "concat ?chunks = h5_frame (use_crc h5a \<noteq> 0) ?hdr payload"
    by (simp add: h5_frame_def slip_def)
  moreover have "length (concat ?chunks) \<le> skb_room k0"
    using length_slip [of ?body] length_h5_body [of ?hdr "use_crc h5a \<noteq> 0" payload] k0
    by (simp add: slip_def)
  ultimately obtain k where put: "put_all skb_append k0 ?chunks = Ret k" and "skb_fresh k"
    "skb_bytes k = h5_frame (use_crc h5a \<noteq> 0) ?hdr payload"
    using skb.put_all_ok [OF fresh, of ?chunks] k0 by auto
  then show ?thesis
    unfolding h5_prepare_pkt_put_all [OF rel sa] Let_def put rbind.simps by blast
qed

text \<open>
  What building or sending a packet may change: the scripts it consumes, the log, and two
  transmit fields.
\<close>

definition tx_frame :: "rtb_struct \<Rightarrow> rtb_struct \<Rightarrow> bool" where
  "tx_frame h5 h5' \<longleftrightarrow>
     h5' = h5\<lparr>malloc_q := malloc_q h5', write_q := write_q h5', tx_log := tx_log h5',
              is_txack_req := is_txack_req h5', msgq_txseq := msgq_txseq h5'\<rparr> \<and>
     (mem_ok h5 \<longrightarrow> mem_ok h5')"

lemma tx_frame_refl: "tx_frame h5 h5"
  by (simp add: tx_frame_def)

lemma tx_frameE:
  assumes "tx_frame h5 h5'"
  obtains q w l a sq where
    "h5' = h5\<lparr>malloc_q := q, write_q := w, tx_log := l, is_txack_req := a, msgq_txseq := sq\<rparr>"
    and "mem_ok h5 \<Longrightarrow> list_all (\<lambda>ok. ok) q"
  using assms unfolding tx_frame_def mem_ok_def by blast

lemma tx_frame_trans: "tx_frame a b \<Longrightarrow> tx_frame b c \<Longrightarrow> tx_frame a c"
  by (elim tx_frameE) (simp add: tx_frame_def mem_ok_def)

lemma do_malloc_frame:
  "do_malloc h5 = (b, h5a) \<Longrightarrow> tx_frame h5 h5a \<and> (mem_ok h5 \<longrightarrow> b)"
  by (cases "malloc_q h5") (auto simp: do_malloc_def mem_ok_def tx_frame_def)

lemma h5_tx_state_frame: "tx_frame h5 (h5_tx_state h5 rel)"
  by (simp add: tx_frame_def h5_tx_state_def mem_ok_def)

lemma do_write_frame: "do_write bs h5 = (r, e, h5a) \<Longrightarrow> tx_frame h5 h5a"
  by (cases "write_q h5")
    (auto simp: do_write_def tx_frame_def mem_ok_def split: if_splits)

lemma h5_prepare_pkt_safe:
  assumes "length payload < 2 ^ 30"
  shows "\<exists>ko h5'. h5_prepare_pkt h5 payload t = Ret (ko, h5') \<and> tx_frame h5 h5' \<and>
    (case ko of None \<Rightarrow> h5_reliable t = None \<or> \<not> mem_ok h5 | Some k \<Rightarrow> skb_fresh k)"
proof (cases "h5_reliable t")
  case None
  then show ?thesis by (simp add: h5_prepare_pkt_def Let_def tx_frame_refl)
next
  case (Some rel)
  obtain b h5a where m: "do_malloc h5 = (b, h5a)" by (cases "do_malloc h5")
  note fr = do_malloc_frame [OF m]
  show ?thesis
  proof (cases b)
    case True
    with m have "do_malloc h5 = (True, h5a)" by simp
    from h5_prepare_pkt_frame [OF Some assms this] obtain k where
      "h5_prepare_pkt h5 payload t = Ret (Some k, h5_tx_state h5a rel)" "skb_fresh k" by blast
    moreover have "tx_frame h5 (h5_tx_state h5a rel)"
      using fr h5_tx_state_frame tx_frame_trans by blast
    ultimately show ?thesis by simp
  next
    case False
    with m have "h5_prepare_pkt h5 payload t = Ret (None, h5a)"
      by (intro h5_prepare_pkt_fail [OF Some]) (simp add: skb_alloc_def)
    with False fr show ?thesis by auto
  qed
qed

lemma h5_reliable_ack: "h5_reliable H5_ACK_PKT = Some False"
  by (simp add: h5_reliable_def pkt_type_defs)

lemma rtb_send_ack_safe:
  assumes "mem_ok h5"
  shows "\<exists>h5'. rtb_send_ack h5 = Ret h5' \<and> tx_frame h5 h5'"
proof -
  obtain k h1 where p: "h5_prepare_pkt h5 [] H5_ACK_PKT = Ret (Some k, h1)"
    and f: "tx_frame h5 h1"
    using h5_prepare_pkt_safe [of "[]" h5 H5_ACK_PKT] assms h5_reliable_ack
    by (auto split: option.splits)
  obtain r e h2 where w: "do_write (skb_bytes k) h1 = (r, e, h2)"
    by (cases "do_write (skb_bytes k) h1")
  from p w tx_frame_trans [OF f do_write_frame [OF w]] show ?thesis
    by (simp add: rtb_send_ack_def)
qed

section \<open>Properties\<close>

text \<open>
  Claim C22. \<open>h5_prepare_pkt\<close> never overflows the buffer it allocates, whatever bytes have to be
  escaped: for every reliable or unreliable packet type and every payload below 1 GiB it
  returns a buffer holding exactly the specified frame (delimiter, escaped header, payload and,
  if negotiated, CRC, delimiter), with the sequence and acknowledgement numbers of the state it
  started from, advances the send sequence number modulo 8 exactly for reliable packets and
  clears the pending-acknowledgement flag.
\<close>

theorem h5_prepare_pkt_correct:
  assumes "h5_reliable t = Some rel" and "length payload < 2 ^ 30" and "do_malloc h5 = (True, h5a)"
  shows "\<exists>k. h5_prepare_pkt h5 payload t = Ret (Some k, h5_tx_state h5a rel) \<and>
    unat (data_len k) \<le> unat (max_len k) \<and>
    skb_bytes k = h5_frame (use_crc h5a \<noteq> 0)
      (h5_hdr (rxseq_txack h5a) (msgq_txseq h5a) rel (use_crc h5a \<noteq> 0) (length payload) t) payload"
  using h5_prepare_pkt_frame [OF assms] by (auto simp: skb_fresh_def skb_wf_def)

lemma h5_prepare_pkt_correct_witness:
  "\<exists>k. h5_prepare_pkt rtb_cfg [0x03, 0x0c, 0x00] HCI_COMMAND_PKT =
         Ret (Some k, h5_tx_state rtb_cfg True) \<and>
       unat (data_len k) \<le> unat (max_len k) \<and>
       skb_bytes k = [0xc0, 0x80, 0x31, 0x00, 0x4e, 0x03, 0x0c, 0x00, 0xc0]"
proof -
  have f: "h5_frame False (h5_hdr 0 0 True False (Suc (Suc (Suc 0))) HCI_COMMAND_PKT)
      [0x03, 0x0c, 0x00] =
      [0xc0, 0x80, 0x31, 0x00, 0x4e, 0x03, 0x0c, 0x00, 0xc0]"
    by (simp add: h5_frame_def h5_hdr_def h5_body_def slip_byte_def pkt_type_defs)
  have "h5_reliable HCI_COMMAND_PKT = Some True" by (simp add: h5_reliable_def)
  from h5_prepare_pkt_correct [OF this, of "[0x03, 0x0c, 0x00]" rtb_cfg rtb_cfg] show ?thesis
    using f by simp
qed

end
