(* ===== verification/H5_Rx.thy ===== *)
theory H5_Rx
  imports H5_Tx
begin

text \<open>
  The receiver of hciattach_rtk.c: the HCI event handlers, link-control packets, packet
  completion and the byte loop \<open>h5_recv\<close>. The socket buffer the handlers get is always
  \<open>h5->rx_skb\<close>, so they work on the state that owns it.
\<close>

section \<open>HCI command complete events\<close>

definition HCI_CMD_READ_BD_ADDR :: u16 where "HCI_CMD_READ_BD_ADDR = 0x1009"
definition HCI_VENDOR_CHANGE_BAUD :: u16 where "HCI_VENDOR_CHANGE_BAUD = 0xfc17"
definition HCI_VENDOR_READ_ROM_VER :: u16 where "HCI_VENDOR_READ_ROM_VER = 0xfc6d"
definition HCI_CMD_READ_LOCAL_VER :: u16 where "HCI_CMD_READ_LOCAL_VER = 0x1001"
definition HCI_VENDOR_READ_CHIP_TYPE :: u16 where "HCI_VENDOR_READ_CHIP_TYPE = 0xfc61"
definition HCI_CMD_RESET :: u16 where "HCI_CMD_RESET = 0x0c03"

lemmas opcode_defs = HCI_CMD_READ_BD_ADDR_def HCI_VENDOR_CHANGE_BAUD_def
  HCI_VENDOR_READ_ROM_VER_def HCI_CMD_READ_LOCAL_VER_def HCI_VENDOR_READ_CHIP_TYPE_def
  HCI_CMD_RESET_def

definition with_skb :: "rtb_struct \<Rightarrow> (sk_buff \<Rightarrow> 'a res) \<Rightarrow> 'a res" where
  "with_skb h5 f = (case rx_skb h5 of Skb k \<Rightarrow> f k | _ \<Rightarrow> Fault)"

text \<open>
  The common start of both handlers: skip the event header, read the opcode, skip the
  command-complete header and read the status.
\<close>

definition hci_cc_open :: "rtb_struct \<Rightarrow> (u16 \<times> u8 \<times> sk_buff \<times> rtb_struct) res" where
  "hci_cc_open h5 =
     with_skb h5 (\<lambda>k.
     rbind (skb_pull k 2) (\<lambda>k.
     rbind (sk_get k 1) (\<lambda>o0.
     rbind (sk_get k 2) (\<lambda>o1.
     rbind (skb_pull k 3) (\<lambda>k.
     rbind (sk_get k 0) (\<lambda>status.
       Ret (le16 o0 o1, status, k, h5\<lparr>rx_skb := Skb k\<rparr>)))))))"

definition h5_init_hci_cc :: "rtb_struct \<Rightarrow> rtb_struct res" where
  "h5_init_hci_cc h5 =
     rbind (hci_cc_open h5) (\<lambda>(opcode, status, k, h5).
     if status \<noteq> 0 then Ret h5
     else if cmd_opcode h5 \<noteq> opcode then Ret h5
     else
       let h5 = h5\<lparr>cmd_stat := CMD_STATE_SUCCESS\<rparr>;
           count = (\<lambda>h5. Ret (h5\<lparr>num_of_cmd_sent := num_of_cmd_sent h5 + 1\<rparr>))
       in if opcode = HCI_VENDOR_CHANGE_BAUD then count h5
          else if opcode = HCI_CMD_READ_BD_ADDR then
            rbind (sk_get k 5) (\<lambda>_. rbind (sk_get k 4) (\<lambda>_. rbind (sk_get k 3) (\<lambda>_.
            rbind (sk_get k 2) (\<lambda>_. rbind (sk_get k 1) (\<lambda>_. count h5)))))
          else if opcode = HCI_CMD_READ_LOCAL_VER then
            rbind (sk_get k 1) (\<lambda>d1. rbind (sk_get k 2) (\<lambda>d2. rbind (sk_get k 3) (\<lambda>d3.
            rbind (sk_get k 7) (\<lambda>d7. rbind (sk_get k 8) (\<lambda>d8.
            count (h5\<lparr>hci_ver := d1, hci_rev := ucast d2 OR push_bit 8 (ucast d3),
                       lmp_subver := ucast d7 OR push_bit 8 (ucast d8)\<rparr>))))))
          else if opcode = HCI_VENDOR_READ_ROM_VER then
            rbind (sk_get k 1) (\<lambda>d1. count (h5\<lparr>eversion := d1\<rparr>))
          else if opcode = HCI_VENDOR_READ_CHIP_TYPE then
            rbind (sk_get k 1) (\<lambda>d1. rbind (sk_get k 2) (\<lambda>d2.
            count (h5\<lparr>chip_type := d1 AND 0x0f, chip_ver := d2 AND 0x0f\<rparr>)))
          else Ret h5)"

definition h5_post_hci_cc :: "rtb_struct \<Rightarrow> rtb_struct res" where
  "h5_post_hci_cc h5 =
     rbind (hci_cc_open h5) (\<lambda>(opcode, status, k, h5).
     if status \<noteq> 0 then Ret h5
     else if cmd_opcode h5 \<noteq> opcode then Ret h5
     else
       let h5 = h5\<lparr>cmd_stat := CMD_STATE_SUCCESS\<rparr>
       in if opcode = HCI_CMD_RESET then Ret (h5\<lparr>link_estab_state := H5_ACTIVE\<rparr>) else Ret h5)"

section \<open>Frames and link-control packets\<close>

definition hci_recv_frame :: "rtb_struct \<Rightarrow> rtb_struct res" where
  "hci_recv_frame h5 =
     with_skb h5 (\<lambda>k.
     case link_estab_state h5 of
       H5_INIT \<Rightarrow>
         rbind (sk_get k 0) (\<lambda>d0. if d0 = 0x0e then h5_init_hci_cc h5 else Ret h5)
     | H5_PATCH \<Rightarrow>
         rbind (sk_get k 0) (\<lambda>d0.
         if d0 \<noteq> 0x0e then Ret h5
         else
           rbind (sk_get k 6) (\<lambda>d6.
           let h5 = h5\<lparr>rx_index := int (unat d6)\<rparr>
           in Ret (if d6 AND 0x80 \<noteq> 0
                   then h5\<lparr>rx_index := int (unat (d6 AND 0x7f)),
                           link_estab_state := H5_HCI_RESET\<rparr>
                   else h5)))
     | H5_HCI_RESET \<Rightarrow>
         rbind (sk_get k 0) (\<lambda>d0. if d0 = 0x0e then h5_post_hci_cc h5 else Ret h5)
     | _ \<Rightarrow> Ret h5)"

definition sync_resp_pkt :: bytes where
  "sync_resp_pkt = [0xc0, 0x00, 0x2F, 0x00, 0xD0, 0x02, 0x7D, 0xc0]"

definition conf_resp_pkt :: bytes where
  "conf_resp_pkt = [0xc0, 0x00, 0x2F, 0x00, 0xD0, 0x04, 0x7B, 0xc0]"

definition h5_handle_internal_rx :: "rtb_struct \<Rightarrow> rtb_struct res" where
  "h5_handle_internal_rx h5 =
     with_skb h5 (\<lambda>k.
     case link_estab_state h5 of
       H5_SYNC \<Rightarrow>
         rbind (sk_get k 0) (\<lambda>d0. rbind (sk_get k 1) (\<lambda>d1.
         if [d0, d1] = [0x01, 0x7E] then
           (case do_write sync_resp_pkt h5 of (len, e, h5) \<Rightarrow> Ret h5)
         else if [d0, d1] = [0x02, 0x7D] then Ret (h5\<lparr>link_estab_state := H5_CONFIG\<rparr>)
         else Ret h5))
     | H5_CONFIG \<Rightarrow>
         rbind (sk_get k 0) (\<lambda>d0. rbind (sk_get k 1) (\<lambda>d1.
         if [d0, d1] = [0x01, 0x7E] then
           (case do_write sync_resp_pkt h5 of (len, e, h5) \<Rightarrow> Ret h5)
         else if [d0, d1] = [0x03, 0xFC] then
           (case do_write conf_resp_pkt h5 of (len, e, h5) \<Rightarrow> Ret h5)
         else if [d0, d1] = [0x04, 0x7B] then
           (let h5 = h5\<lparr>link_estab_state := H5_INIT\<rparr>
            in if data_len k > 2 then
                 rbind (sk_get k 2) (\<lambda>d2. Ret (h5\<lparr>use_crc := drop_bit 4 d2 AND 0x01\<rparr>))
               else Ret h5)
         else rtb_send_ack h5))
     | _ \<Rightarrow> Ret h5)"

section \<open>Completing a packet\<close>

text \<open>Sequence and acknowledgement numbers of the header.\<close>

definition rx_note_hdr :: "rtb_struct \<Rightarrow> u8 \<Rightarrow> rtb_struct" where
  "rx_note_hdr h5 b0 =
     (let h5 = (if drop_bit 7 b0 AND 0x01 \<noteq> 0
                then h5\<lparr>rxseq_txack := ((b0 AND 0x07) + 1) AND 0x07, is_txack_req := 1\<rparr>
                else h5)
      in h5\<lparr>rxack := drop_bit 3 b0 AND 0x07\<rparr>)"

text \<open>The switch on the packet type.\<close>

definition rx_dispatch :: "rtb_struct \<Rightarrow> sk_buff \<Rightarrow> u8 \<Rightarrow> rtb_struct res" where
  "rx_dispatch h5 k b1 =
     (let pkt_type = b1 AND 0x0f in
      if pkt_type = HCI_ACLDATA_PKT \<or> pkt_type = HCI_EVENT_PKT \<or>
         pkt_type = HCI_COMMAND_PKT \<or> pkt_type = HCI_SCODATA_PKT
      then rbind (skb_pull k 4) (\<lambda>k. hci_recv_frame (h5\<lparr>rx_skb := Skb k\<rparr>))
      else if pkt_type = H5_LINK_CTL_PKT
      then rbind (skb_pull k 4) (\<lambda>k. h5_handle_internal_rx (h5\<lparr>rx_skb := Skb k\<rparr>))
      else Ret h5)"

text \<open>The acknowledgement and the release of the buffer.\<close>

definition rx_finish :: "rtb_struct \<Rightarrow> rtb_struct res" where
  "rx_finish h5 =
     rbind (if is_txack_req h5 \<noteq> 0
            then rbind (rtb_send_ack h5) (\<lambda>h5. Ret (h5\<lparr>is_txack_req := 0\<rparr>))
            else Ret h5)
       (\<lambda>h5. check (rx_skb h5 \<noteq> Dangling)
          (Ret (h5\<lparr>rx_state := H5_W4_PKT_DELIMITER, rx_skb := Null\<rparr>)))"

definition h5_complete_rx_pkt :: "rtb_struct \<Rightarrow> rtb_struct res" where
  "h5_complete_rx_pkt h5 =
     with_skb h5 (\<lambda>k.
     rbind (sk_get k 0) (\<lambda>b0.
     rbind (sk_get k 1) (\<lambda>b1.
     rbind (rx_dispatch (rx_note_hdr h5 b0) k b1) rx_finish)))"

section \<open>The byte loop\<close>

text \<open>
  One iteration of the loop of \<open>h5_recv\<close>: the byte was consumed, the iteration is repeated
  on the same byte (the \<open>continue\<close> without \<open>ptr++\<close>), or the function returns.
\<close>

datatype rx_next = Consumed | Again | Stop

definition rx_drop :: "rtb_struct \<Rightarrow> rtb_struct res" where
  "rx_drop h5 = check (rx_skb h5 \<noteq> Dangling)
     (Ret (h5\<lparr>rx_skb := Dangling, rx_state := H5_W4_PKT_DELIMITER, rx_count := 0\<rparr>))"

definition rx_header :: "rtb_struct \<Rightarrow> rtb_struct res" where
  "rx_header h5 =
     with_skb h5 (\<lambda>k.
     rbind (sk_get k 0) (\<lambda>d0. rbind (sk_get k 1) (\<lambda>d1.
     rbind (sk_get k 2) (\<lambda>d2. rbind (sk_get k 3) (\<lambda>d3.
     if NOT (d0 + d1 + d2) \<noteq> d3 then rx_drop h5
     else if d0 AND 0x80 \<noteq> 0 \<and> d0 AND 0x07 \<noteq> rxseq_txack h5 then
       rbind (rx_drop (h5\<lparr>is_txack_req := 1\<rparr>)) (\<lambda>h5.
         Ret (if link_estab_state h5 = H5_PATCH \<and> tx_index h5 = total_num h5
              then h5\<lparr>rxseq_txack := d0 AND 0x07\<rparr> else h5))
     else Ret (h5\<lparr>rx_state := H5_W4_DATA,
                  rx_count := ucast (drop_bit 4 d1) + push_bit 4 (ucast d2)\<rparr>))))))"

definition rx_payload :: "rtb_struct \<Rightarrow> rtb_struct res" where
  "rx_payload h5 =
     with_skb h5 (\<lambda>k.
     rbind (sk_get k 0) (\<lambda>d0.
     if d0 AND 0x40 \<noteq> 0 then Ret (h5\<lparr>rx_state := H5_W4_CRC, rx_count := 2\<rparr>)
     else h5_complete_rx_pkt h5))"

definition h5_get_crc :: "sk_buff \<Rightarrow> u16 res" where
  "h5_get_crc k =
     (let p = unat (data_len k - 2) in
      rbind (sk_get k (p + 1)) (\<lambda>d1. rbind (sk_get k p) (\<lambda>d0.
        Ret (ucast d1 + push_bit 8 (ucast d0)))))"

definition rx_crc :: "rtb_struct \<Rightarrow> rtb_struct res" where
  "rx_crc h5 =
     with_skb h5 (\<lambda>k.
     rbind (h5_get_crc k) (\<lambda>crc.
     if bit_rev16 (message_crc h5) \<noteq> crc then rx_drop h5
     else h5_complete_rx_pkt (h5\<lparr>rx_skb := Skb (skb_trim k (data_len k - 2))\<rparr>)))"

definition h5_rx_step :: "rtb_struct \<Rightarrow> u8 \<Rightarrow> (rx_next \<times> rtb_struct) res" where
  "h5_rx_step h5 b =
     (if rx_count h5 \<noteq> 0 then
        (if b = 0xc0 then
           check (rx_skb h5 \<noteq> Dangling)
             (Ret (Consumed, h5\<lparr>rx_skb := Dangling, rx_state := H5_W4_PKT_START, rx_count := 0\<rparr>))
         else rbind (h5_unslip_one_byte h5 b) (\<lambda>h5. Ret (Consumed, h5)))
      else
        (case rx_state h5 of
           H5_W4_HDR \<Rightarrow> rbind (rx_header h5) (\<lambda>h5. Ret (Again, h5))
         | H5_W4_DATA \<Rightarrow> rbind (rx_payload h5) (\<lambda>h5. Ret (Again, h5))
         | H5_W4_CRC \<Rightarrow> rbind (rx_crc h5) (\<lambda>h5. Ret (Again, h5))
         | H5_W4_PKT_DELIMITER \<Rightarrow>
             Ret (Consumed, if b = 0xc0 then h5\<lparr>rx_state := H5_W4_PKT_START\<rparr> else h5)
         | H5_W4_PKT_START \<Rightarrow>
             (if b = 0xc0 then Ret (Consumed, h5)
              else
                let h5 = h5\<lparr>rx_state := H5_W4_HDR, rx_count := 4,
                            rx_esc_state := H5_ESCSTATE_NOESC, message_crc := H5_CRC_INIT\<rparr>
                in (case skb_alloc 0x1005 h5 of
                      (Some k, h5) \<Rightarrow> Ret (Again, h5\<lparr>rx_skb := Skb k\<rparr>)
                    | (None, h5) \<Rightarrow>
                        Ret (Stop, h5\<lparr>rx_skb := Null, rx_state := H5_W4_PKT_DELIMITER,
                                      rx_count := 0\<rparr>)))))"

text \<open>How far a state is from consuming its next byte.\<close>

definition rx_rank :: "rtb_struct \<Rightarrow> nat" where
  "rx_rank h5 =
     (if rx_count h5 \<noteq> 0 then 0
      else case rx_state h5 of
             H5_W4_PKT_DELIMITER \<Rightarrow> 1 | H5_W4_CRC \<Rightarrow> 2 | H5_W4_DATA \<Rightarrow> 3
           | H5_W4_HDR \<Rightarrow> 4 | H5_W4_PKT_START \<Rightarrow> 5)"

lemma post_with_skb: "(\<And>k. rx_skb h5 = Skb k \<Longrightarrow> post (f k) P) \<Longrightarrow> post (with_skb h5 f) P"
  by (simp add: with_skb_def split: skb_ptr.splits)

lemma complete_rx_state:
  "post (h5_complete_rx_pkt h5) (\<lambda>h5'. rx_state h5' = H5_W4_PKT_DELIMITER)"
  unfolding h5_complete_rx_pkt_def rx_finish_def
  by (intro post_with_skb post_bind post_check) simp

lemma rx_drop_state:
  "post (rx_drop h5) (\<lambda>h5'. rx_state h5' = H5_W4_PKT_DELIMITER \<and> rx_count h5' = 0)"
  unfolding rx_drop_def by (intro post_check) simp

lemma rx_rank_delim: "rx_state h5 = H5_W4_PKT_DELIMITER \<Longrightarrow> rx_rank h5 \<le> 1"
  by (simp add: rx_rank_def)

lemma rx_header_rank: "post (rx_header h5) (\<lambda>h5'. rx_rank h5' < 4)"
  unfolding rx_header_def
  by (intro post_with_skb post_intros post_weaken [OF rx_drop_state]
      post_bind2 [OF rx_drop_state])
    (auto simp: rx_rank_def)

lemma rx_payload_rank: "post (rx_payload h5) (\<lambda>h5'. rx_rank h5' < 3)"
  unfolding rx_payload_def
  by (intro post_with_skb post_intros post_weaken [OF complete_rx_state])
    (auto simp: rx_rank_def)

lemma rx_crc_rank: "post (rx_crc h5) (\<lambda>h5'. rx_rank h5' < 2)"
  unfolding rx_crc_def
  by (intro post_with_skb post_intros post_weaken [OF complete_rx_state]
      post_weaken [OF rx_drop_state])
    (auto simp: rx_rank_def)

lemma skb_alloc_state: "skb_alloc len s = (ko, s') \<Longrightarrow> \<exists>q. s' = s\<lparr>malloc_q := q\<rparr>"
  by (rule skb_alloc_cases [of len s]) auto

lemma h5_rx_step_rank: "h5_rx_step h5 b = Ret (Again, h5') \<Longrightarrow> rx_rank h5' < rx_rank h5"
proof (cases "rx_count h5 \<noteq> 0")
  case True
  then show "h5_rx_step h5 b = Ret (Again, h5') \<Longrightarrow> ?thesis"
    by (auto simp: h5_rx_step_def check_def split: if_splits)
next
  case False
  assume step: "h5_rx_step h5 b = Ret (Again, h5')"
  show ?thesis
  proof (cases "rx_state h5")
    case H5_W4_PKT_START
    with False step show ?thesis
      by (auto simp: h5_rx_step_def Let_def rx_rank_def
          split: if_splits prod.splits option.splits dest!: skb_alloc_state)
  qed (use False step in \<open>auto simp: h5_rx_step_def rx_rank_def [of h5]
      dest!: postD [OF rx_header_rank] postD [OF rx_payload_rank] postD [OF rx_crc_rank]\<close>)
qed

text \<open>
  \<open>h5_recv\<close> on the bytes of one read. Its result is 0 on every path and no caller looks at
  it.
\<close>

function h5_recv :: "rtb_struct \<Rightarrow> bytes \<Rightarrow> rtb_struct res" where
  "h5_recv h5 [] = Ret h5"
| "h5_recv h5 (b # bs) =
     rbind (h5_rx_step h5 b) (\<lambda>(nxt, h5).
       case nxt of
         Consumed \<Rightarrow> h5_recv h5 bs
       | Again \<Rightarrow> h5_recv h5 (b # bs)
       | Stop \<Rightarrow> Ret h5)"
  by pat_completeness auto
termination
  by (relation "measures [\<lambda>(h5, bs). length bs, \<lambda>(h5, bs). rx_rank h5]")
    (auto dest: h5_rx_step_rank)

declare h5_recv.simps(2) [simp del]

section \<open>Memory safety\<close>

text \<open>
  Reads through a live buffer: \<open>rx_live n h5\<close> says that the receiver owns a buffer of the
  size \<open>h5_recv\<close> allocates whose data pointer has moved by at most \<open>n\<close>.
\<close>

definition rx_live :: "nat \<Rightarrow> rtb_struct \<Rightarrow> bool" where
  "rx_live n h5 \<longleftrightarrow>
     (\<exists>k. rx_skb h5 = Skb k \<and> length (sk_mem k) = 0x1005 \<and> sk_off k \<le> n)"

definition rx_keep :: "rtb_struct \<Rightarrow> rtb_struct \<Rightarrow> bool" where
  "rx_keep h5 h5' \<longleftrightarrow> rx_count h5' = rx_count h5 \<and> mem_ok h5' \<and> (\<exists>k. rx_skb h5' = Skb k)"

lemma safe_sk_get [safe_intros]:
  "sk_off k + i < length (sk_mem k) \<Longrightarrow> (\<And>x. safe (f x) Q) \<Longrightarrow> safe (rbind (sk_get k i) f) Q"
  by (simp add: sk_get_in_mem)

lemma safe_skb_pull:
  "safe (skb_pull k n) (\<lambda>k'. sk_off k' = sk_off k + unat n \<and> sk_mem k' = sk_mem k)"
  by (simp add: skb_pull_def)

lemma safe_check [safe_intros]: "b \<Longrightarrow> safe m P \<Longrightarrow> safe (check b m) P"
  by simp

lemma safe_if [safe_intros]:
  "(b \<Longrightarrow> safe m P) \<Longrightarrow> (\<not> b \<Longrightarrow> safe m' P) \<Longrightarrow> safe (if b then m else m') P"
  by simp

lemma mem_ok_upd [simp]:
  "mem_ok (h5\<lparr>write_q := w\<rparr>) = mem_ok h5" "mem_ok (h5\<lparr>tx_log := l\<rparr>) = mem_ok h5"
  by (simp_all add: mem_ok_def)

lemma rx_keep_frame: "tx_frame h5 h5' \<Longrightarrow> mem_ok h5 \<Longrightarrow> rx_skb h5 = Skb k \<Longrightarrow> rx_keep h5 h5'"
  by (elim tx_frameE) (simp add: rx_keep_def mem_ok_def)

lemma safe_send_ack:
  assumes "mem_ok h5" and "rx_skb h5 = Skb k"
  shows "safe (rtb_send_ack h5) (rx_keep h5)"
  using rtb_send_ack_safe [OF assms(1)] rx_keep_frame assms by fastforce

lemma safe_write:
  assumes "mem_ok h5" and "rx_skb h5 = Skb k"
  shows "safe (case do_write bs h5 of (len, e, h5') \<Rightarrow> Ret h5') (rx_keep h5)"
proof -
  obtain r e h5' where w: "do_write bs h5 = (r, e, h5')" by (cases "do_write bs h5")
  from rx_keep_frame [OF do_write_frame [OF w] assms] w show ?thesis by simp
qed

lemma safe_hci_cc_open:
  assumes "rx_live 4 h5" and "mem_ok h5"
  shows "safe (hci_cc_open h5) (\<lambda>(opcode, status, k, h5').
    h5' = h5\<lparr>rx_skb := Skb k\<rparr> \<and> length (sk_mem k) = 0x1005 \<and> sk_off k \<le> 9)"
proof -
  from assms obtain k where "rx_skb h5 = Skb k" "length (sk_mem k) = 0x1005" "sk_off k \<le> 4"
    by (auto simp: rx_live_def)
  then show ?thesis
    unfolding hci_cc_open_def with_skb_def
    by (auto intro!: safe_bind [OF safe_skb_pull] safe_sk_get)
qed

lemma safe_init_cc:
  assumes "rx_live 4 h5" and "mem_ok h5"
  shows "safe (h5_init_hci_cc h5) (rx_keep h5)"
  unfolding h5_init_hci_cc_def
  by (rule safe_bind [OF safe_hci_cc_open [OF assms]])
    (use assms(2) in \<open>auto simp: Let_def rx_keep_def mem_ok_def intro!: safe_sk_get safe_if\<close>)

lemma safe_post_cc:
  assumes "rx_live 4 h5" and "mem_ok h5"
  shows "safe (h5_post_hci_cc h5) (rx_keep h5)"
  unfolding h5_post_hci_cc_def
  by (rule safe_bind [OF safe_hci_cc_open [OF assms]])
    (use assms(2) in \<open>auto simp: Let_def rx_keep_def mem_ok_def\<close>)

lemma safe_recv_frame:
  assumes "rx_live 4 h5" and "mem_ok h5"
  shows "safe (hci_recv_frame h5) (rx_keep h5)"
proof -
  from assms obtain k where k: "rx_skb h5 = Skb k" "length (sk_mem k) = 0x1005" "sk_off k \<le> 4"
    by (auto simp: rx_live_def)
  have keep: "rx_keep h5 h5" using k assms(2) by (simp add: rx_keep_def)
  show ?thesis
    unfolding hci_recv_frame_def
    using k keep assms(2) safe_init_cc [OF assms] safe_post_cc [OF assms]
    by (cases "link_estab_state h5")
      (auto simp: with_skb_def Let_def rx_keep_def mem_ok_def intro!: safe_sk_get)
qed

lemma safe_internal_rx:
  assumes "rx_live 4 h5" and "mem_ok h5"
  shows "safe (h5_handle_internal_rx h5) (rx_keep h5)"
proof -
  from assms obtain k where k: "rx_skb h5 = Skb k" "length (sk_mem k) = 0x1005" "sk_off k \<le> 4"
    by (auto simp: rx_live_def)
  note calls = safe_write [OF assms(2) k(1)] safe_send_ack [OF assms(2) k(1)]
  have keep: "rx_keep h5 (h5\<lparr>link_estab_state := st\<rparr>)"
    "rx_keep h5 (h5\<lparr>link_estab_state := st, use_crc := c\<rparr>)" "rx_keep h5 h5" for st c
    using k assms(2) by (simp_all add: rx_keep_def mem_ok_def)
  note unf = h5_handle_internal_rx_def with_skb_def k(1) skb_ptr.case
  show ?thesis
  proof (cases "link_estab_state h5")
    case H5_SYNC
    then show ?thesis
      unfolding unf H5_SYNC H5_LINK_STATE.case
      by (intro safe_sk_get safe_if calls) (use k in \<open>simp_all add: keep\<close>)
  next
    case H5_CONFIG
    then show ?thesis
      unfolding unf H5_CONFIG H5_LINK_STATE.case Let_def
      by (intro safe_sk_get safe_if calls) (use k in \<open>simp_all add: keep\<close>)
  qed (simp_all add: unf keep)
qed

text \<open>
  A completed packet: four header bytes are present, and the buffer is the one the receiver
  allocated.
\<close>

definition rx_buf :: "sk_buff \<Rightarrow> bool" where
  "rx_buf k \<longleftrightarrow> skb_fresh k \<and> max_len k = 0x1005"

lemma rx_bufD:
  "rx_buf k \<Longrightarrow> length (sk_mem k) = 0x1005 \<and> sk_off k = 0 \<and> unat (data_len k) \<le> 0x1005 \<and> skb_wf k"
  by (auto simp: rx_buf_def skb_fresh_def skb_wf_def)

lemma safe_finish:
  assumes "rx_keep h5 h"
  shows "safe (rx_finish h) (\<lambda>h5'. rx_state h5' = H5_W4_PKT_DELIMITER \<and>
    rx_skb h5' = Null \<and> rx_count h5' = rx_count h5 \<and> mem_ok h5')"
proof -
  from assms obtain kh where kh: "rx_skb h = Skb kh" "mem_ok h" "rx_count h = rx_count h5"
    by (auto simp: rx_keep_def)
  have "safe (if is_txack_req h \<noteq> 0
      then rbind (rtb_send_ack h) (\<lambda>h. Ret (h\<lparr>is_txack_req := 0\<rparr>)) else Ret h) (rx_keep h)"
    using safe_send_ack [OF kh(2,1)] kh
    by (auto simp: rx_keep_def mem_ok_def intro: safe_bind)
  then show ?thesis
    unfolding rx_finish_def by (rule safe_bind) (use kh in \<open>auto simp: rx_keep_def mem_ok_def\<close>)
qed

lemma safe_dispatch:
  assumes "rx_buf k" and "mem_ok h" and "rx_skb h = Skb k'"
  shows "safe (rx_dispatch h k b1) (rx_keep h)"
proof -
  from assms(1) have k: "length (sk_mem k) = 0x1005" "sk_off k = 0"
    by (simp_all add: rx_bufD)
  have pulled: "safe (rbind (skb_pull k 4) (\<lambda>k. f (h\<lparr>rx_skb := Skb k\<rparr>))) (rx_keep h)"
    if f: "\<And>h. rx_live 4 h \<Longrightarrow> mem_ok h \<Longrightarrow> safe (f h) (rx_keep h)" for f
    by (rule safe_bind [OF safe_skb_pull], rule safe_weaken [OF f])
      (use assms(2) k in \<open>auto simp: rx_live_def rx_keep_def mem_ok_def\<close>)
  show ?thesis
    unfolding rx_dispatch_def Let_def
    by (intro safe_if pulled safe_recv_frame safe_internal_rx)
      (use assms in \<open>auto simp: rx_keep_def\<close>)
qed

lemma rx_note_hdr_simps [simp]:
  "rx_skb (rx_note_hdr h5 b0) = rx_skb h5" "rx_count (rx_note_hdr h5 b0) = rx_count h5"
  "mem_ok (rx_note_hdr h5 b0) = mem_ok h5"
  by (simp_all add: rx_note_hdr_def Let_def mem_ok_def)

lemma safe_complete:
  assumes "rx_skb h5 = Skb k" and "rx_buf k" and "mem_ok h5"
  shows "safe (h5_complete_rx_pkt h5) (\<lambda>h5'. rx_state h5' = H5_W4_PKT_DELIMITER \<and>
    rx_skb h5' = Null \<and> rx_count h5' = rx_count h5 \<and> mem_ok h5')"
  unfolding h5_complete_rx_pkt_def with_skb_def assms(1) skb_ptr.case
  by (intro safe_sk_get safe_bind [OF safe_dispatch] safe_finish)
    (use assms in \<open>auto simp: rx_bufD rx_keep_def\<close>)

section \<open>The receiver's invariant\<close>

definition h5_plen :: "bytes \<Rightarrow> nat" where
  "h5_plen bs = unat (drop_bit 4 (bs ! 1)) + 16 * unat (bs ! 2)"

lemma drop_bit_4_u8: "unat (drop_bit 4 (b :: u8)) < 16"
proof -
  have "unat (drop_bit 4 b) = drop_bit 4 (unat b)"
    by (simp only: unat_drop_bit_eq)
  then show ?thesis using unat_u8_lt [of b] by (simp add: drop_bit_eq_div)
qed

lemma h5_plen_bound: "h5_plen bs \<le> 4095"
  using drop_bit_4_u8 [of "bs ! 1"] unat_u8_lt [of "bs ! 2"] by (simp add: h5_plen_def)

lemma rx_count_plen:
  "unat (ucast (drop_bit 4 d1) + push_bit 4 (ucast d2) :: u32) =
     unat (drop_bit 4 d1) + 16 * unat (d2 :: u8)" for d1 d2 :: u8
proof -
  have "(ucast (drop_bit 4 d1) + push_bit 4 (ucast d2) :: u32) =
      of_nat (unat (drop_bit 4 d1) + 16 * unat d2)"
    by (simp add: push_bit_eq_mult mult.commute)
  then show ?thesis
    using drop_bit_4_u8 [of d1] unat_u8_lt [of d2]
    by (simp only:) (subst unat_of_nat_small; simp)
qed

text \<open>
  How many bytes (header, payload and CRC) the buffer will hold when the current state has
  received all it waits for.
\<close>

definition rx_target :: "H5_RX_STATE \<Rightarrow> bytes \<Rightarrow> nat" where
  "rx_target st bs =
     (case st of H5_W4_HDR \<Rightarrow> 4 | H5_W4_DATA \<Rightarrow> 4 + h5_plen bs | H5_W4_CRC \<Rightarrow> 6 + h5_plen bs
      | _ \<Rightarrow> 0)"

definition rx_idle :: "rtb_struct \<Rightarrow> bool" where
  "rx_idle h5 \<longleftrightarrow> rx_state h5 = H5_W4_PKT_DELIMITER \<or> rx_state h5 = H5_W4_PKT_START"

definition h5_inv :: "rtb_struct \<Rightarrow> bool" where
  "h5_inv h5 \<longleftrightarrow>
     (if rx_idle h5 then rx_count h5 = 0 \<and> (rx_skb h5 = Null \<or> rx_skb h5 = Dangling)
      else \<exists>k. rx_skb h5 = Skb k \<and> rx_buf k \<and>
             (rx_state h5 \<noteq> H5_W4_HDR \<longrightarrow> 4 \<le> unat (data_len k)) \<and>
             unat (data_len k) + unat (rx_count h5) = rx_target (rx_state h5) (skb_bytes k))"

lemma rx_target_bound: "rx_target st bs \<le> 0x1005"
  using h5_plen_bound [of bs] by (cases st) (simp_all add: rx_target_def)

lemma h5_inv_live:
  assumes "h5_inv h5" and "\<not> rx_idle h5"
  obtains k where "rx_skb h5 = Skb k" and "rx_buf k"
    and "rx_state h5 \<noteq> H5_W4_HDR \<Longrightarrow> 4 \<le> unat (data_len k)"
    and "unat (data_len k) + unat (rx_count h5) = rx_target (rx_state h5) (skb_bytes k)"
  using assms unfolding h5_inv_def by auto

lemma unslip_store_ok:
  assumes k: "rx_skb h5 = Skb k" "rx_buf k" and room: "unat (data_len k) < 0x1005"
  shows "\<exists>k' crc. h5_unslip_store h5 c = Ret (h5\<lparr>rx_skb := Skb k', message_crc := crc\<rparr>) \<and>
    rx_buf k' \<and> skb_bytes k' = skb_bytes k @ [c] \<and> unat (data_len k') = unat (data_len k) + 1 \<and>
    crc = (if skb_bytes k' ! 0 AND 0x40 \<noteq> 0 \<and> rx_state h5 \<noteq> H5_W4_CRC
           then h5_crc_update (message_crc h5) c else message_crc h5)"
proof -
  have "skb_room k \<ge> 1" using k(2) room by (simp add: skb_room_def rx_buf_def)
  then obtain k' where k': "skb_append k [c] = Ret k'" "skb_fresh k'"
    "skb_bytes k' = skb_bytes k @ [c]" "max_len k' = max_len k"
    "unat (data_len k') = unat (data_len k) + 1"
    using skb_append_fresh [of k "[c]"] k(2) by (auto simp: rx_buf_def)
  have "sk_get k' 0 = Ret (skb_bytes k' ! 0)"
    using k'(2,5) by (intro sk_get_bytes) (auto simp: skb_fresh_def)
  then have "h5_unslip_store h5 c = Ret (h5\<lparr>rx_skb := Skb k', message_crc :=
      (if skb_bytes k' ! 0 AND 0x40 \<noteq> 0 \<and> rx_state h5 \<noteq> H5_W4_CRC
       then h5_crc_update (message_crc h5) c else message_crc h5)\<rparr>)"
    using k(1) k'(1) by (simp add: h5_unslip_store_def Let_def)
  moreover have "rx_buf k'" using k(2) k' by (simp add: rx_buf_def)
  ultimately show ?thesis using k' by blast
qed

lemma h5_inv_store:
  assumes inv: "h5_inv h5" and busy: "rx_count h5 \<noteq> 0"
  shows "\<exists>k' crc. h5_unslip_store h5 c = Ret (h5\<lparr>rx_skb := Skb k', message_crc := crc\<rparr>) \<and>
    h5_inv (h5\<lparr>rx_skb := Skb k', message_crc := crc, rx_esc_state := e,
      rx_count := rx_count h5 - 1\<rparr>)"
proof -
  have live: "\<not> rx_idle h5" using inv busy by (auto simp: h5_inv_def)
  from h5_inv_live [OF inv this] obtain k where k: "rx_skb h5 = Skb k" "rx_buf k"
    and four: "rx_state h5 \<noteq> H5_W4_HDR \<Longrightarrow> 4 \<le> unat (data_len k)"
    and sum: "unat (data_len k) + unat (rx_count h5) = rx_target (rx_state h5) (skb_bytes k)"
    by blast
  have cnt: "0 < unat (rx_count h5)" using busy by (simp add: unat_gt_0)
  then have "unat (data_len k) < 0x1005"
    using sum rx_target_bound [of "rx_state h5" "skb_bytes k"] by linarith
  from unslip_store_ok [OF k this, of c] obtain k' crc where st:
    "h5_unslip_store h5 c = Ret (h5\<lparr>rx_skb := Skb k', message_crc := crc\<rparr>)"
    "rx_buf k'" "skb_bytes k' = skb_bytes k @ [c]" "unat (data_len k') = unat (data_len k) + 1"
    by blast
  have len: "length (skb_bytes k) = unat (data_len k)"
    using k(2) by (simp add: length_skb_bytes rx_bufD)
  have "rx_target (rx_state h5) (skb_bytes k @ [c]) = rx_target (rx_state h5) (skb_bytes k)"
    using four len by (cases "rx_state h5") (simp_all add: rx_target_def h5_plen_def nth_append)
  with st sum four cnt live
  have "h5_inv (h5\<lparr>rx_skb := Skb k', message_crc := crc, rx_esc_state := e,
      rx_count := rx_count h5 - 1\<rparr>)"
    by (auto simp: h5_inv_def rx_idle_def unat_word_dec busy)
  with st(1) show ?thesis by blast
qed

lemma h5_inv_cong:
  "rx_state h = rx_state h' \<Longrightarrow> rx_count h = rx_count h' \<Longrightarrow> rx_skb h = rx_skb h' \<Longrightarrow>
     h5_inv h = h5_inv h'"
  by (simp add: h5_inv_def rx_idle_def)

lemma h5_inv_noesc: "h5_inv (h5\<lparr>rx_esc_state := e\<rparr>) = h5_inv h5"
  by (rule h5_inv_cong) simp_all

lemma safe_unslip:
  assumes inv: "h5_inv h5" and busy: "rx_count h5 \<noteq> 0" and mem: "mem_ok h5"
  shows "safe (h5_unslip_one_byte h5 b) (\<lambda>h5'. h5_inv h5' \<and> mem_ok h5')"
proof -
  obtain k where live: "rx_skb h5 = Skb k"
    using inv busy by (auto simp: h5_inv_def split: if_splits)
  have store: "safe (rbind (h5_unslip_store h5 c) (\<lambda>h5'. Ret (h5'\<lparr>rx_esc_state := e,
      rx_count := rx_count h5' - 1\<rparr>))) (\<lambda>h5'. h5_inv h5' \<and> mem_ok h5')" for c e
    using h5_inv_store [OF inv busy, of c e] mem by (elim exE) (simp add: mem_ok_def)
  have plain: "safe (rbind (h5_unslip_store h5 c) (\<lambda>h5'. Ret (h5'\<lparr>
      rx_count := rx_count h5' - 1\<rparr>))) (\<lambda>h5'. h5_inv h5' \<and> mem_ok h5')" for c
  proof -
    obtain k' crc where st: "h5_unslip_store h5 c = Ret (h5\<lparr>rx_skb := Skb k', message_crc := crc\<rparr>)"
      "h5_inv (h5\<lparr>rx_skb := Skb k', message_crc := crc, rx_esc_state := H5_ESCSTATE_NOESC,
        rx_count := rx_count h5 - 1\<rparr>)"
      using h5_inv_store [OF inv busy] by blast
    from st(2) have "h5_inv (h5\<lparr>rx_skb := Skb k', message_crc := crc, rx_count := rx_count h5 - 1\<rparr>)"
      by (rule h5_inv_cong [THEN iffD1, rotated 3]) simp_all
    with st(1) mem show ?thesis by (simp add: mem_ok_def)
  qed
  have esc: "h5_inv (h5\<lparr>rx_esc_state := e\<rparr>) \<and> mem_ok (h5\<lparr>rx_esc_state := e\<rparr>)" for e
    using inv mem by (simp add: h5_inv_noesc mem_ok_def)
  have bad: "h5_inv (h5\<lparr>rx_skb := Null, rx_state := H5_W4_PKT_DELIMITER, rx_count := 0\<rparr>) \<and>
      mem_ok (h5\<lparr>rx_skb := Null, rx_state := H5_W4_PKT_DELIMITER, rx_count := 0\<rparr>)"
    using mem by (simp add: mem_ok_def h5_inv_def rx_idle_def)
  show ?thesis
    unfolding h5_unslip_one_byte_def Let_def
    by (cases "rx_esc_state h5") (use store plain esc bad live in auto)
qed

lemma safe_drop:
  assumes "rx_skb h5 = Skb k" and "mem_ok h5"
  shows "safe (rx_drop h5) (\<lambda>h5'. h5_inv h5' \<and> mem_ok h5')"
  using assms by (simp add: rx_drop_def h5_inv_def rx_idle_def mem_ok_def)

lemma safe_complete_inv:
  assumes "rx_skb h5 = Skb k" and "rx_buf k" and "mem_ok h5" and "rx_count h5 = 0"
  shows "safe (h5_complete_rx_pkt h5) (\<lambda>h5'. h5_inv h5' \<and> mem_ok h5')"
  by (rule safe_weaken [OF safe_complete [OF assms(1,2,3)]])
    (simp add: assms(4) h5_inv_def rx_idle_def)

lemma rx_header_eq:
  assumes k: "rx_skb h5 = Skb k" "rx_buf k" and "4 \<le> unat (data_len k)" and bs: "bs = skb_bytes k"
  shows "rx_header h5 =
    (if NOT (bs ! 0 + bs ! 1 + bs ! 2) \<noteq> bs ! 3 then rx_drop h5
     else if bs ! 0 AND 0x80 \<noteq> 0 \<and> bs ! 0 AND 0x07 \<noteq> rxseq_txack h5 then
       rbind (rx_drop (h5\<lparr>is_txack_req := 1\<rparr>)) (\<lambda>h5.
         Ret (if link_estab_state h5 = H5_PATCH \<and> tx_index h5 = total_num h5
              then h5\<lparr>rxseq_txack := bs ! 0 AND 0x07\<rparr> else h5))
     else Ret (h5\<lparr>rx_state := H5_W4_DATA,
                  rx_count := ucast (drop_bit 4 (bs ! 1)) + push_bit 4 (ucast (bs ! 2))\<rparr>))"
proof -
  have "sk_get k i = Ret (bs ! i)" if "i < 4" for i
    unfolding bs by (rule sk_get_bytes) (use assms that rx_bufD in auto)
  then show ?thesis by (simp add: rx_header_def with_skb_def k(1))
qed

lemma safe_header:
  assumes k: "rx_skb h5 = Skb k" "rx_buf k" "unat (data_len k) = 4" and mem: "mem_ok h5"
  shows "safe (rx_header h5) (\<lambda>h5'. h5_inv h5' \<and> mem_ok h5')"
proof -
  have d: "safe (rx_drop (h5\<lparr>is_txack_req := 1\<rparr>)) (\<lambda>h5'. h5_inv h5' \<and> mem_ok h5')"
    using safe_drop [of "h5\<lparr>is_txack_req := 1\<rparr>" k] k mem by (simp add: mem_ok_def)
  have seq: "h5_inv (h\<lparr>rxseq_txack := x\<rparr>) \<longleftrightarrow> h5_inv h" "mem_ok (h\<lparr>rxseq_txack := x\<rparr>) \<longleftrightarrow> mem_ok h"
    for h x by (rule h5_inv_cong) (simp_all add: mem_ok_def)
  have "h5_inv (h5\<lparr>rx_state := H5_W4_DATA, rx_count :=
      ucast (drop_bit 4 (skb_bytes k ! 1)) + push_bit 4 (ucast (skb_bytes k ! 2))\<rparr>)"
    using k rx_count_plen [of "skb_bytes k ! 1" "skb_bytes k ! 2"]
    by (simp add: h5_inv_def rx_idle_def rx_target_def h5_plen_def)
  then show ?thesis
    unfolding rx_header_eq [OF k(1,2) _ refl, simplified k(3), simplified]
    using safe_drop [OF k(1) mem] mem
    by (auto simp: seq mem_ok_def intro!: safe_bind [OF d])
qed

lemma safe_payload:
  assumes k: "rx_skb h5 = Skb k" "rx_buf k" "4 \<le> unat (data_len k)"
    and len: "unat (data_len k) = 4 + h5_plen (skb_bytes k)" and cnt: "rx_count h5 = 0"
    and mem: "mem_ok h5"
  shows "safe (rx_payload h5) (\<lambda>h5'. h5_inv h5' \<and> mem_ok h5')"
proof -
  have "sk_get k 0 = Ret (skb_bytes k ! 0)"
    by (rule sk_get_bytes) (use k rx_bufD in auto)
  then show ?thesis
    using safe_complete_inv [OF k(1,2) mem cnt] k len mem
    by (simp add: rx_payload_def with_skb_def mem_ok_def h5_inv_def rx_idle_def rx_target_def)
qed

lemma h5_get_crc_eq:
  assumes "rx_buf k" and "6 \<le> unat (data_len k)"
  shows "h5_get_crc k = Ret (let n = unat (data_len k) in
    ucast (skb_bytes k ! (n - 1)) + push_bit 8 (ucast (skb_bytes k ! (n - 2))))"
proof -
  have "2 \<le> data_len k" using assms(2) by (simp add: word_le_nat_alt)
  then have p: "unat (data_len k - 2) = unat (data_len k) - 2"
    using unat_sub [of 2 "data_len k"] by simp
  have "sk_get k i = Ret (skb_bytes k ! i)" if "i < unat (data_len k)" for i
    using assms that by (intro sk_get_bytes) (simp_all add: rx_bufD)
  with assms(2) show ?thesis
    by (simp add: h5_get_crc_def p Let_def Suc_diff_le numeral_2_eq_2 Suc_diff_Suc)
qed

lemma rx_buf_trim:
  assumes "rx_buf k" and "6 \<le> unat (data_len k)"
  shows "rx_buf (skb_trim k (data_len k - 2))"
    and "skb_bytes (skb_trim k (data_len k - 2)) = take (unat (data_len k) - 2) (skb_bytes k)"
  using assms skb_trim_fresh [of k 2] by (simp_all add: rx_buf_def word_le_nat_alt)

lemma safe_crc:
  assumes k: "rx_skb h5 = Skb k" "rx_buf k" "6 \<le> unat (data_len k)" and cnt: "rx_count h5 = 0"
    and mem: "mem_ok h5"
  shows "safe (rx_crc h5) (\<lambda>h5'. h5_inv h5' \<and> mem_ok h5')"
proof -
  have "safe (h5_complete_rx_pkt (h5\<lparr>rx_skb := Skb (skb_trim k (data_len k - 2))\<rparr>))
      (\<lambda>h5'. h5_inv h5' \<and> mem_ok h5')"
    by (rule safe_complete_inv [OF _ rx_buf_trim(1) [OF k(2,3)]])
      (use cnt mem in \<open>simp_all add: mem_ok_def\<close>)
  then show ?thesis
    using safe_drop [OF k(1) mem]
    by (simp add: rx_crc_def with_skb_def k(1) h5_get_crc_eq [OF k(2,3)])
qed

lemma safe_start:
  assumes "mem_ok h5" and "rx_state h5 = H5_W4_PKT_START" and "rx_count h5 = 0" and "b \<noteq> 0xc0"
  obtains q where "h5_rx_step h5 b = Ret (Again, h5\<lparr>malloc_q := q, rx_state := H5_W4_HDR,
      rx_count := 4, rx_esc_state := H5_ESCSTATE_NOESC, message_crc := H5_CRC_INIT,
      rx_skb := Skb \<lparr>max_len = 0x1005, data_len = 0, sk_off = 0, sk_mem = replicate 0x1005 0\<rparr>\<rparr>)"
    and "list_all (\<lambda>ok. ok) q"
proof -
  let ?h = "h5\<lparr>rx_state := H5_W4_HDR, rx_count := 4, rx_esc_state := H5_ESCSTATE_NOESC,
    message_crc := H5_CRC_INIT\<rparr>"
  have "mem_ok ?h" using assms(1) by (simp add: mem_ok_def)
  from skb_alloc_ok [OF this, of "0x1005"] obtain q where
    "skb_alloc 0x1005 ?h = (Some \<lparr>max_len = 0x1005, data_len = 0, sk_off = 0,
       sk_mem = replicate 0x1005 0\<rparr>, ?h\<lparr>malloc_q := q\<rparr>)" "list_all (\<lambda>ok. ok) q"
    by auto
  with assms show ?thesis by (intro that) (simp_all add: h5_rx_step_def Let_def)
qed

lemma rx_buf_new:
  "rx_buf \<lparr>max_len = 0x1005, data_len = 0, sk_off = 0, sk_mem = replicate 0x1005 0\<rparr>"
  using skb_fresh_alloc [of "0x1005"] by (simp add: rx_buf_def)

lemma safe_rx_step:
  assumes inv: "h5_inv h5" and mem: "mem_ok h5"
  shows "safe (h5_rx_step h5 b) (\<lambda>(n, h5'). n \<noteq> Stop \<and> h5_inv h5' \<and> mem_ok h5')"
proof (cases "rx_count h5 \<noteq> 0")
  case True
  have "safe (rbind (h5_unslip_one_byte h5 b) (\<lambda>h5. Ret (Consumed, h5)))
      (\<lambda>(n, h5'). n \<noteq> Stop \<and> h5_inv h5' \<and> mem_ok h5')"
    by (rule safe_bind [OF safe_unslip [OF inv True mem]]) simp
  moreover obtain k where "rx_skb h5 = Skb k"
    using inv True by (auto simp: h5_inv_def split: if_splits)
  ultimately show ?thesis
    using True mem by (simp add: h5_rx_step_def h5_inv_def rx_idle_def mem_ok_def)
next
  case False
  then have z: "rx_count h5 = 0" by simp
  have again: "safe (rbind m (\<lambda>h5. Ret (Again, h5)))
      (\<lambda>(n, h5'). n \<noteq> Stop \<and> h5_inv h5' \<and> mem_ok h5')"
    if "safe m (\<lambda>h5'. h5_inv h5' \<and> mem_ok h5')" for m
    by (rule safe_bind [OF that]) simp
  show ?thesis
  proof (cases "rx_idle h5")
    case True
    then consider "rx_state h5 = H5_W4_PKT_DELIMITER" | "rx_state h5 = H5_W4_PKT_START"
      by (auto simp: rx_idle_def)
    then show ?thesis
    proof cases
      case 1
      then show ?thesis using z inv mem
        by (simp add: h5_rx_step_def h5_inv_def rx_idle_def mem_ok_def)
    next
      case 2
      show ?thesis
      proof (cases "b = 0xc0")
        case True
        then show ?thesis using 2 z inv mem by (simp add: h5_rx_step_def)
      next
        case False
        from safe_start [OF mem 2 z False] obtain q where
          "h5_rx_step h5 b = Ret (Again, h5\<lparr>malloc_q := q, rx_state := H5_W4_HDR,
             rx_count := 4, rx_esc_state := H5_ESCSTATE_NOESC, message_crc := H5_CRC_INIT,
             rx_skb := Skb \<lparr>max_len = 0x1005, data_len = 0, sk_off = 0, sk_mem = replicate 0x1005 0\<rparr>\<rparr>)"
          "list_all (\<lambda>ok. ok) q" .
        then show ?thesis using rx_buf_new
          by (simp add: h5_inv_def rx_idle_def mem_ok_def rx_target_def)
      qed
    qed
  next
    case False
    from h5_inv_live [OF inv False] obtain k where k: "rx_skb h5 = Skb k" "rx_buf k"
      and four: "rx_state h5 \<noteq> H5_W4_HDR \<Longrightarrow> 4 \<le> unat (data_len k)"
      and sum: "unat (data_len k) = rx_target (rx_state h5) (skb_bytes k)"
      using z by auto
    show ?thesis
      using False z sum four again [OF safe_header [OF k _ mem]]
        again [OF safe_payload [OF k _ _ z mem]] again [OF safe_crc [OF k _ z mem]]
      by (cases "rx_state h5") (simp_all add: h5_rx_step_def rx_idle_def rx_target_def)
  qed
qed

lemma safe_recv:
  assumes "h5_inv h5" and "mem_ok h5"
  shows "safe (h5_recv h5 bs) (\<lambda>h5'. h5_inv h5' \<and> mem_ok h5')"
  using assms
proof (induction h5 bs rule: h5_recv.induct)
  case (1 h5)
  then show ?case by simp
next
  case (2 h5 b bs)
  show ?case
  proof (subst h5_recv.simps(2), rule safe_bind2 [OF safe_rx_step [OF 2(3,4)]])
    fix x
    assume step: "h5_rx_step h5 b = Ret x"
      and ok: "case x of (n, h5') \<Rightarrow> n \<noteq> Stop \<and> h5_inv h5' \<and> mem_ok h5'"
    obtain n h where x: "x = (n, h)" by (cases x)
    show "safe (case x of (nxt, h5) \<Rightarrow> case nxt of Consumed \<Rightarrow> h5_recv h5 bs
        | Again \<Rightarrow> h5_recv h5 (b # bs) | Stop \<Rightarrow> Ret h5) (\<lambda>h5'. h5_inv h5' \<and> mem_ok h5')"
      using ok 2(1) [OF step x [symmetric]] 2(2) [OF step x [symmetric]] unfolding x by (cases n) simp_all
  qed
qed

end
