(* ===== verification/H5_Deliver.thy ===== *)
theory H5_Deliver
  imports H5_Rx
begin

text \<open>
  What the byte loop of hciattach_rtk.c does with a stream: it does not matter how the
  serial line cuts the stream into reads, a frame built by the sender is delivered to the
  packet handlers exactly as it was sent, and a frame whose check bytes do not match is
  dropped without reaching them.
\<close>

section \<open>Chunks\<close>

lemma recv_append:
  assumes "h5_inv h5" and "mem_ok h5"
  shows "h5_recv h5 (xs @ ys) = rbind (h5_recv h5 xs) (\<lambda>h. h5_recv h ys)"
  using assms
proof (induction h5 xs rule: h5_recv.induct)
  case (1 h5)
  then show ?case by simp
next
  case (2 h5 b bs)
  have step: "safe (h5_rx_step h5 b) (\<lambda>(n, h5'). n \<noteq> Stop \<and> h5_inv h5' \<and> mem_ok h5')"
    using 2(3,4) by (rule safe_rx_step)
  show ?case
  proof (cases "h5_rx_step h5 b")
    case (Ret x)
    obtain n h where x: "x = (n, h)" by (cases x)
    from Ret step x show ?thesis
      using 2(1) [OF Ret x [symmetric]] 2(2) [OF Ret x [symmetric]]
      by (cases n) (simp_all add: h5_recv.simps(2) [of h5 b bs]
          h5_recv.simps(2) [of h5 b "bs @ ys"])
  qed (simp_all add: h5_recv.simps(2) [of h5 b bs] h5_recv.simps(2) [of h5 b "bs @ ys"])
qed

section \<open>Single steps\<close>

lemma recv_consumed:
  "h5_rx_step h5 b = rbind m (\<lambda>h. Ret (Consumed, h)) \<Longrightarrow>
     h5_recv h5 (b # bs) = rbind m (\<lambda>h. h5_recv h bs)"
  by (subst h5_recv.simps(2)) (simp add: rbind_assoc)

lemma recv_again:
  "h5_rx_step h5 b = rbind m (\<lambda>h. Ret (Again, h)) \<Longrightarrow>
     h5_recv h5 (b # bs) = rbind m (\<lambda>h. h5_recv h (b # bs))"
  by (subst h5_recv.simps(2)) (simp add: rbind_assoc)

lemma recv_unslip:
  assumes "rx_count h5 \<noteq> 0" and "b \<noteq> 0xc0"
  shows "h5_recv h5 (b # bs) = rbind (h5_unslip_one_byte h5 b) (\<lambda>h. h5_recv h bs)"
  by (rule recv_consumed) (simp add: h5_rx_step_def assms)

lemma slip_byte_shape: "(\<exists>b. slip_byte c = [b]) \<or> (\<exists>b'. slip_byte c = [0xdb, b'])"
  by (simp add: slip_byte_def)

lemma recv_slip_byte:
  assumes "rx_count h5 \<noteq> 0" and "rx_esc_state h5 = H5_ESCSTATE_NOESC"
  shows "h5_recv h5 (slip_byte c @ bs) =
    rbind (h5_unslip_store h5 c) (\<lambda>h.
      h5_recv (h\<lparr>rx_esc_state := H5_ESCSTATE_NOESC, rx_count := rx_count h - 1\<rparr>) bs)"
proof -
  have nd: "0xc0 \<notin> set (slip_byte c)" by (rule slip.delim_free)
  consider b where "slip_byte c = [b]" | b' where "slip_byte c = [0xdb, b']"
    using slip_byte_shape [of c] by blast
  then show ?thesis
  proof cases
    case 1
    with nd assms show ?thesis
      using unslip_byte [OF assms(2), of c] by (simp add: recv_unslip rbind_assoc)
  next
    case 2
    have db: "h5_unslip_one_byte h5 0xdb = Ret (h5\<lparr>rx_esc_state := H5_ESCSTATE_ESC\<rparr>)"
      using assms(2) by (simp add: h5_unslip_one_byte_def)
    from 2 nd assms show ?thesis
      using unslip_byte [OF assms(2), of c] by (simp add: recv_unslip db rbind_assoc)
  qed
qed

text \<open>A run of encoded bytes that the current state still waits for.\<close>

definition rx_stored :: "rtb_struct \<Rightarrow> sk_buff \<Rightarrow> bytes \<Rightarrow> rtb_struct" where
  "rx_stored h5 k bs =
     h5\<lparr>rx_skb := Skb k, rx_count := rx_count h5 - of_nat (length bs),
        message_crc := (if skb_bytes k ! 0 AND 0x40 \<noteq> 0 \<and> rx_state h5 \<noteq> H5_W4_CRC
          then foldl h5_crc_update (message_crc h5) bs else message_crc h5)\<rparr>"

lemma recv_slip:
  assumes "rx_skb h5 = Skb k" and "rx_buf k" and "rx_esc_state h5 = H5_ESCSTATE_NOESC"
    and "length bs \<le> unat (rx_count h5)" and "unat (data_len k) + length bs \<le> 0x1005"
    and "bs \<noteq> []"
  shows "\<exists>k'. rx_buf k' \<and> skb_bytes k' = skb_bytes k @ bs \<and>
    unat (data_len k') = unat (data_len k) + length bs \<and>
    h5_recv h5 (slip bs @ rest) = h5_recv (rx_stored h5 k' bs) rest"
  using assms
proof (induction bs arbitrary: h5 k)
  case Nil
  then show ?case by simp
next
  case (Cons b bs)
  from Cons.prems have busy: "rx_count h5 \<noteq> 0" by auto
  from Cons.prems(5) have "unat (data_len k) < 0x1005" by simp
  from unslip_store_ok [OF Cons.prems(1,2) this, of b] obtain k1 crc where st:
    "h5_unslip_store h5 b = Ret (h5\<lparr>rx_skb := Skb k1, message_crc := crc\<rparr>)"
    "rx_buf k1" "skb_bytes k1 = skb_bytes k @ [b]" "unat (data_len k1) = unat (data_len k) + 1"
    "crc = (if skb_bytes k1 ! 0 AND 0x40 \<noteq> 0 \<and> rx_state h5 \<noteq> H5_W4_CRC
       then h5_crc_update (message_crc h5) b else message_crc h5)" by blast
  let ?h = "h5\<lparr>rx_skb := Skb k1, message_crc := crc, rx_count := rx_count h5 - 1\<rparr>"
  have esc: "h5\<lparr>rx_skb := Skb k1, message_crc := crc, rx_esc_state := H5_ESCSTATE_NOESC,
      rx_count := rx_count h5 - 1\<rparr> = ?h"
    using Cons.prems(3) by (cases h5) simp
  have eq: "h5_recv h5 (slip (b # bs) @ rest) = h5_recv ?h (slip bs @ rest)"
    using recv_slip_byte [OF busy Cons.prems(3), of b] st(1) esc by simp
  show ?case
  proof (cases "bs = []")
    case True
    have "rx_stored h5 k1 [b] = ?h"
      using st(3,5) by (cases h5) (simp add: rx_stored_def)
    with True eq st show ?thesis by (intro exI [of _ k1]) simp
  next
    case False
    have "length bs \<le> unat (rx_count ?h)"
      using Cons.prems(4) busy by (simp add: unat_word_dec)
    with Cons.IH [of ?h k1] st(2,4) Cons.prems(3,5) False obtain k' where
      "rx_buf k'" "skb_bytes k' = skb_bytes k1 @ bs"
      "unat (data_len k') = unat (data_len k1) + length bs"
      "h5_recv ?h (slip bs @ rest) = h5_recv (rx_stored ?h k' bs) rest" by auto
    moreover have "rx_stored ?h k' bs = rx_stored h5 k' (b # bs)"
      using calculation(2) st(3,5)
      by (cases h5) (simp add: rx_stored_def nth_append algebra_simps)
    ultimately show ?thesis using eq st(3,4) by (intro exI [of _ k']) simp
  qed
qed

section \<open>The bytes of one packet\<close>

definition h5_hdr_ok :: "rtb_struct \<Rightarrow> bytes \<Rightarrow> nat \<Rightarrow> bool" where
  "h5_hdr_ok h5 hdr n \<longleftrightarrow>
     length hdr = 4 \<and> NOT (hdr ! 0 + hdr ! 1 + hdr ! 2) = hdr ! 3 \<and> h5_plen hdr = n \<and>
     (hdr ! 0 AND 0x80 \<noteq> 0 \<longrightarrow> hdr ! 0 AND 0x07 = rxseq_txack h5)"

lemma recv_start:
  assumes "mem_ok h5" and "rx_state h5 = H5_W4_PKT_START" and "rx_count h5 = 0"
    and "b \<noteq> 0xc0"
  obtains q where "h5_recv h5 (b # bs) = h5_recv (h5\<lparr>malloc_q := q, rx_state := H5_W4_HDR,
      rx_count := 4, rx_esc_state := H5_ESCSTATE_NOESC, message_crc := H5_CRC_INIT,
      rx_skb := Skb \<lparr>max_len = 0x1005, data_len = 0, sk_off = 0, sk_mem = replicate 0x1005 0\<rparr>\<rparr>)
      (b # bs)"
    and "list_all (\<lambda>ok. ok) q"
  using safe_start [OF assms] recv_again [of h5 b "Ret _" bs] by (metis rbind.simps(1))

text \<open>Receiving the header leaves the receiver waiting for the payload.\<close>

lemma recv_header:
  assumes "mem_ok h5" and "rx_state h5 = H5_W4_PKT_START" and "rx_count h5 = 0"
    and ok: "h5_hdr_ok h5 hdr n"
  shows "\<exists>k q. rx_buf k \<and> skb_bytes k = hdr \<and> unat (data_len k) = 4 \<and> list_all (\<lambda>ok. ok) q \<and>
    h5_recv h5 (slip hdr @ c # rest) =
      h5_recv (h5\<lparr>malloc_q := q, rx_state := H5_W4_DATA, rx_count := of_nat n,
        rx_esc_state := H5_ESCSTATE_NOESC,
        message_crc := (if hdr ! 0 AND 0x40 \<noteq> 0 then foldl h5_crc_update H5_CRC_INIT hdr
                        else H5_CRC_INIT),
        rx_skb := Skb k\<rparr>) (c # rest)"
proof -
  define k0 where "k0 = \<lparr>max_len = 0x1005 :: u32, data_len = 0 :: u32, sk_off = 0 :: nat,
    sk_mem = replicate 0x1005 (0 :: u8)\<rparr>"
  have k0: "rx_buf k0" "unat (data_len k0) = 0" "skb_bytes k0 = []"
    unfolding k0_def by (rule rx_buf_new) (simp_all add: skb_bytes_def)
  have ne: "hdr \<noteq> []" using ok by (auto simp: h5_hdr_ok_def)
  obtain b bs where b: "slip hdr = b # bs"
  proof -
    have "slip hdr \<noteq> []" using ne slip.esc_nonempty by (cases hdr) simp_all
    then show ?thesis using that by (cases "slip hdr") simp_all
  qed
  have "0xc0 \<notin> set (slip hdr)" unfolding slip_def by (rule slip.stuffed_no_delim)
  then have "b \<noteq> 0xc0" unfolding b by auto
  from recv_start [OF assms(1-3) this, of "bs @ c # rest"] obtain q where
    q: "list_all (\<lambda>ok. ok) q" and r0: "h5_recv h5 (slip hdr @ c # rest) =
      h5_recv (h5\<lparr>malloc_q := q, rx_state := H5_W4_HDR, rx_count := 4,
        rx_esc_state := H5_ESCSTATE_NOESC, message_crc := H5_CRC_INIT, rx_skb := Skb k0\<rparr>)
        (slip hdr @ c # rest)"
    unfolding b k0_def by (metis append_Cons)
  let ?h = "h5\<lparr>malloc_q := q, rx_state := H5_W4_HDR, rx_count := 4,
    rx_esc_state := H5_ESCSTATE_NOESC, message_crc := H5_CRC_INIT, rx_skb := Skb k0\<rparr>"
  from recv_slip [of ?h k0 hdr "c # rest"] k0 ok ne obtain k where
    k: "rx_buf k" "skb_bytes k = hdr" "unat (data_len k) = 4"
    and r1: "h5_recv ?h (slip hdr @ c # rest) = h5_recv (rx_stored ?h k hdr) (c # rest)"
    by (auto simp: h5_hdr_ok_def)
  have cnt: "ucast (drop_bit 4 (hdr ! 1)) + push_bit 4 (ucast (hdr ! 2)) = (of_nat n :: u32)"
  proof -
    have "n = unat (ucast (drop_bit 4 (hdr ! 1)) + push_bit 4 (ucast (hdr ! 2)) :: u32)"
      using ok by (simp only: rx_count_plen) (simp add: h5_hdr_ok_def h5_plen_def)
    then show ?thesis by simp
  qed
  let ?s = "rx_stored ?h k hdr"
  have "rx_header ?s = Ret (?s\<lparr>rx_state := H5_W4_DATA, rx_count := of_nat n\<rparr>)"
  proof (subst rx_header_eq [of ?s k hdr])
    show "rx_skb ?s = Skb k" by (simp add: rx_stored_def)
    have "rxseq_txack ?s = rxseq_txack h5" by (simp add: rx_stored_def)
    with ok show "(if NOT (hdr ! 0 + hdr ! 1 + hdr ! 2) \<noteq> hdr ! 3 then rx_drop ?s
     else if hdr ! 0 AND 0x80 \<noteq> 0 \<and> hdr ! 0 AND 0x07 \<noteq> rxseq_txack ?s then
       rbind (rx_drop (?s\<lparr>is_txack_req := 1\<rparr>)) (\<lambda>h5.
         Ret (if link_estab_state h5 = H5_PATCH \<and> tx_index h5 = total_num h5
              then h5\<lparr>rxseq_txack := hdr ! 0 AND 0x07\<rparr> else h5))
     else Ret (?s\<lparr>rx_state := H5_W4_DATA,
                  rx_count := ucast (drop_bit 4 (hdr ! 1)) + push_bit 4 (ucast (hdr ! 2))\<rparr>)) =
     Ret (?s\<lparr>rx_state := H5_W4_DATA, rx_count := of_nat n\<rparr>)"
      unfolding cnt h5_hdr_ok_def by (simp only: simp_thms if_False split: if_splits) blast
  qed (use k in simp_all)
  then have "h5_rx_step ?s c = Ret (Again, ?s\<lparr>rx_state := H5_W4_DATA, rx_count := of_nat n\<rparr>)"
    using ok by (simp add: h5_rx_step_def) (simp add: rx_stored_def h5_hdr_ok_def)
  then have "h5_recv ?s (c # rest) = h5_recv (?s\<lparr>rx_state := H5_W4_DATA, rx_count := of_nat n\<rparr>) (c # rest)"
    using recv_again [of ?s c "Ret _" rest] by (metis rbind.simps(1))
  moreover have "?s\<lparr>rx_state := H5_W4_DATA, rx_count := of_nat n\<rparr> =
    h5\<lparr>malloc_q := q, rx_state := H5_W4_DATA, rx_count := of_nat n,
      rx_esc_state := H5_ESCSTATE_NOESC,
      message_crc := (if hdr ! 0 AND 0x40 \<noteq> 0 then foldl h5_crc_update H5_CRC_INIT hdr
                      else H5_CRC_INIT), rx_skb := Skb k\<rparr>"
    using k(2) by (cases h5) (simp add: rx_stored_def)
  ultimately show ?thesis using r0 r1 k q by (intro exI [of _ k] exI [of _ q]) simp
qed

text \<open>A run of bytes that brings the count to zero, possibly an empty one.\<close>

lemma recv_run:
  assumes "rx_skb h = Skb k" and "rx_buf k" and "rx_esc_state h = H5_ESCSTATE_NOESC"
    and "rx_count h = of_nat (length bs)" and "unat (data_len k) + length bs \<le> 0x1005"
    and "skb_bytes k \<noteq> []"
  shows "\<exists>k'. rx_buf k' \<and> skb_bytes k' = skb_bytes k @ bs \<and>
    unat (data_len k') = unat (data_len k) + length bs \<and>
    h5_recv h (slip bs @ rest) = h5_recv (h\<lparr>rx_skb := Skb k', rx_count := 0,
      message_crc := (if skb_bytes k ! 0 AND 0x40 \<noteq> 0 \<and> rx_state h \<noteq> H5_W4_CRC
        then foldl h5_crc_update (message_crc h) bs else message_crc h)\<rparr>) rest"
proof (cases "bs = []")
  case True
  with assms have id: "h\<lparr>rx_skb := Skb k, rx_count := 0,
      message_crc := (if skb_bytes k ! 0 AND 0x40 \<noteq> 0 \<and> rx_state h \<noteq> H5_W4_CRC
        then foldl h5_crc_update (message_crc h) bs else message_crc h)\<rparr> = h"
    by (cases h) simp
  show ?thesis
    by (intro exI [of _ k] conjI) (unfold id, use True assms in simp_all)
next
  case False
  have "unat (rx_count h) = length bs"
    unfolding assms(4) by (rule unat_of_nat_small) (use assms(5) in simp)
  with recv_slip [OF assms(1-3) _ assms(5) False, of rest] obtain k' where
    k': "rx_buf k'" "skb_bytes k' = skb_bytes k @ bs"
    "unat (data_len k') = unat (data_len k) + length bs"
    "h5_recv h (slip bs @ rest) = h5_recv (rx_stored h k' bs) rest" by auto
  have "rx_stored h k' bs = h\<lparr>rx_skb := Skb k', rx_count := 0,
      message_crc := (if skb_bytes k ! 0 AND 0x40 \<noteq> 0 \<and> rx_state h \<noteq> H5_W4_CRC
        then foldl h5_crc_update (message_crc h) bs else message_crc h)\<rparr>"
    using k'(2) assms(4,6) by (cases h) (simp add: rx_stored_def nth_append)
  with k' show ?thesis by auto
qed

definition rx_got :: "rtb_struct \<Rightarrow> bool list \<Rightarrow> H5_RX_STATE \<Rightarrow> u16 \<Rightarrow> sk_buff \<Rightarrow> rtb_struct" where
  "rx_got h5 q st crc k =
     h5\<lparr>malloc_q := q, rx_state := st, rx_count := 0, rx_esc_state := H5_ESCSTATE_NOESC,
        message_crc := crc, rx_skb := Skb k\<rparr>"

lemma recv_plain_body:
  assumes "mem_ok h5" and "rx_state h5 = H5_W4_PKT_START" and "rx_count h5 = 0"
    and ok: "h5_hdr_ok h5 hdr (length payload)"
  shows "\<exists>k q. rx_buf k \<and> skb_bytes k = hdr @ payload \<and> list_all (\<lambda>ok. ok) q \<and>
    unat (data_len k) = 4 + length payload \<and>
    h5_recv h5 (slip (hdr @ payload) @ c # rest) =
      h5_recv (rx_got h5 q H5_W4_DATA (if hdr ! 0 AND 0x40 \<noteq> 0
         then foldl h5_crc_update H5_CRC_INIT (hdr @ payload) else H5_CRC_INIT) k) (c # rest)"
proof -
  have len: "length payload \<le> 4095" using ok h5_plen_bound [of hdr] by (simp add: h5_hdr_ok_def)
  obtain d ds where d: "slip payload @ c # rest = d # ds" by (cases "slip payload") simp_all
  from recv_header [OF assms, of d ds] obtain k q where
    k: "rx_buf k" "skb_bytes k = hdr" "unat (data_len k) = 4" and q: "list_all (\<lambda>ok. ok) q"
    and r: "h5_recv h5 (slip hdr @ slip payload @ c # rest) =
      h5_recv (h5\<lparr>malloc_q := q, rx_state := H5_W4_DATA, rx_count := of_nat (length payload),
        rx_esc_state := H5_ESCSTATE_NOESC,
        message_crc := (if hdr ! 0 AND 0x40 \<noteq> 0 then foldl h5_crc_update H5_CRC_INIT hdr
                        else H5_CRC_INIT), rx_skb := Skb k\<rparr>) (slip payload @ c # rest)"
    unfolding d by auto
  let ?h = "h5\<lparr>malloc_q := q, rx_state := H5_W4_DATA, rx_count := of_nat (length payload),
    rx_esc_state := H5_ESCSTATE_NOESC, message_crc := (if hdr ! 0 AND 0x40 \<noteq> 0
      then foldl h5_crc_update H5_CRC_INIT hdr else H5_CRC_INIT), rx_skb := Skb k\<rparr>"
  have ne: "hdr \<noteq> []" using ok by (auto simp: h5_hdr_ok_def)
  from recv_run [of ?h k payload "c # rest"] k len ne obtain k' where
    k': "rx_buf k'" "skb_bytes k' = hdr @ payload" "unat (data_len k') = 4 + length payload"
    "h5_recv ?h (slip payload @ c # rest) = h5_recv (?h\<lparr>rx_skb := Skb k', rx_count := 0,
      message_crc := (if hdr ! 0 AND 0x40 \<noteq> 0
        then foldl h5_crc_update (message_crc ?h) payload else message_crc ?h)\<rparr>) (c # rest)"
    by auto
  have "?h\<lparr>rx_skb := Skb k', rx_count := 0, message_crc := (if hdr ! 0 AND 0x40 \<noteq> 0
        then foldl h5_crc_update (message_crc ?h) payload else message_crc ?h)\<rparr> =
      rx_got h5 q H5_W4_DATA (if hdr ! 0 AND 0x40 \<noteq> 0
         then foldl h5_crc_update H5_CRC_INIT (hdr @ payload) else H5_CRC_INIT) k'"
    by (cases h5) (simp add: rx_got_def)
  with k' q r show ?thesis by (intro exI [of _ k'] exI [of _ q]) simp
qed

lemma recv_crc_body:
  assumes "mem_ok h5" and "rx_state h5 = H5_W4_PKT_START" and "rx_count h5 = 0"
    and ok: "h5_hdr_ok h5 hdr (length payload)" and flag: "hdr ! 0 AND 0x40 \<noteq> 0"
    and tail: "length tail = 2"
  shows "\<exists>k q. rx_buf k \<and> skb_bytes k = hdr @ payload @ tail \<and> list_all (\<lambda>ok. ok) q \<and>
    unat (data_len k) = 6 + length payload \<and>
    h5_recv h5 (slip (hdr @ payload @ tail) @ c # rest) =
      h5_recv (rx_got h5 q H5_W4_CRC (foldl h5_crc_update H5_CRC_INIT (hdr @ payload)) k)
        (c # rest)"
proof -
  have len: "length payload \<le> 4095" "length hdr = 4"
    using ok h5_plen_bound [of hdr] by (simp_all add: h5_hdr_ok_def)
  obtain d ds where d: "slip tail @ c # rest = d # ds" by (cases "slip tail") simp_all
  let ?crc = "foldl h5_crc_update H5_CRC_INIT (hdr @ payload)"
  from recv_plain_body [OF assms(1-4), of d ds] flag obtain k q where
    k: "rx_buf k" "skb_bytes k = hdr @ payload" "unat (data_len k) = 4 + length payload"
    and q: "list_all (\<lambda>ok. ok) q"
    and r: "h5_recv h5 (slip (hdr @ payload) @ slip tail @ c # rest) =
      h5_recv (rx_got h5 q H5_W4_DATA ?crc k) (d # ds)"
    unfolding d by auto
  let ?g = "rx_got h5 q H5_W4_DATA ?crc k"
  let ?w = "?g\<lparr>rx_state := H5_W4_CRC, rx_count := 2\<rparr>"
  have "sk_get k 0 = Ret (hdr ! 0)"
    using sk_get_bytes [of k 0] k len rx_bufD [of k] by (simp add: nth_append)
  then have "h5_rx_step ?g d = Ret (Again, ?w)"
    using flag by (simp add: h5_rx_step_def rx_got_def rx_payload_def with_skb_def)
  then have s: "h5_recv ?g (d # ds) = h5_recv ?w (d # ds)"
    using recv_again [of ?g d "Ret _" ds] by (metis rbind.simps(1))
  have ne: "hdr \<noteq> []" using len by auto
  from recv_run [of ?w k tail "c # rest"] k len tail ne obtain k' where
    k': "rx_buf k'" "skb_bytes k' = hdr @ payload @ tail" "unat (data_len k') = 6 + length payload"
    "h5_recv ?w (slip tail @ c # rest) = h5_recv (?w\<lparr>rx_skb := Skb k', rx_count := 0,
      message_crc := message_crc ?w\<rparr>) (c # rest)"
    by (auto simp: rx_got_def)
  have "?w\<lparr>rx_skb := Skb k', rx_count := 0, message_crc := message_crc ?w\<rparr> =
      rx_got h5 q H5_W4_CRC ?crc k'"
    by (cases h5) (simp add: rx_got_def)
  with k' q r s d show ?thesis by (intro exI [of _ k'] exI [of _ q]) simp
qed

section \<open>Delivery and rejection\<close>

lemma h5_crc_of_bytes:
  "h5_crc_of bs = (let crc = bit_rev16 (foldl h5_crc_update H5_CRC_INIT bs) in [byte 1 crc, byte 0 crc])"
  by (simp only: h5_crc_of_def Let_def byte_mask(2)) (simp only: byte_mask(1))

lemma recv_lead:
  assumes "h5_inv h5" and "rx_idle h5"
  shows "h5_recv h5 (0xc0 # bs) = h5_recv (h5\<lparr>rx_state := H5_W4_PKT_START\<rparr>) bs"
proof -
  from assms have "rx_count h5 = 0" by (simp add: h5_inv_def)
  moreover have "rx_state h5 = H5_W4_PKT_START \<Longrightarrow> h5\<lparr>rx_state := H5_W4_PKT_START\<rparr> = h5"
    by (cases h5) simp
  ultimately have "h5_rx_step h5 0xc0 = Ret (Consumed, h5\<lparr>rx_state := H5_W4_PKT_START\<rparr>)"
    using assms(2) by (auto simp: h5_rx_step_def rx_idle_def)
  then show ?thesis
    using recv_consumed [of h5 "0xc0" "Ret (h5\<lparr>rx_state := H5_W4_PKT_START\<rparr>)" bs] by simp
qed

lemma recv_complete:
  assumes "h5_rx_step h 0xc0 = rbind (h5_complete_rx_pkt h') (\<lambda>h. Ret (Again, h))"
    and "rx_skb h' = Skb k" and "rx_buf k" and "mem_ok h'" and "rx_count h' = 0"
  shows "h5_recv h [0xc0] =
    rbind (h5_complete_rx_pkt h') (\<lambda>h. Ret (h\<lparr>rx_state := H5_W4_PKT_START\<rparr>))"
proof -
  have "h5_recv h [0xc0] = rbind (h5_complete_rx_pkt h') (\<lambda>h. h5_recv h [0xc0])"
    using assms(1) by (rule recv_again)
  also have "\<dots> = rbind (h5_complete_rx_pkt h') (\<lambda>h. Ret (h\<lparr>rx_state := H5_W4_PKT_START\<rparr>))"
  proof (rule rbind_cong [OF refl])
    fix h2
    assume "h5_complete_rx_pkt h' = Ret h2"
    with safe_complete [OF assms(2-4)] assms(5) have "h5_inv h2" "rx_idle h2"
      by (auto simp: h5_inv_def rx_idle_def)
    then show "h5_recv h2 [0xc0] = Ret (h2\<lparr>rx_state := H5_W4_PKT_START\<rparr>)"
      by (simp add: recv_lead)
  qed
  finally show ?thesis .
qed

lemma recv_deliver:
  assumes inv: "h5_inv h5" "rx_idle h5" "mem_ok h5" and ok: "h5_hdr_ok h5 hdr (length payload)"
  shows "\<exists>k q st crc. rx_buf k \<and> skb_bytes k = hdr @ payload \<and> list_all (\<lambda>ok. ok) q \<and>
    h5_recv h5 (h5_frame (hdr ! 0 AND 0x40 \<noteq> 0) hdr payload) =
      rbind (h5_complete_rx_pkt (rx_got h5 q st crc k))
        (\<lambda>h. Ret (h\<lparr>rx_state := H5_W4_PKT_START\<rparr>))"
proof -
  let ?s = "h5\<lparr>rx_state := H5_W4_PKT_START\<rparr>"
  have s: "mem_ok ?s" "rx_state ?s = H5_W4_PKT_START" "rx_count ?s = 0" "h5_hdr_ok ?s hdr (length payload)"
    using inv ok by (simp_all add: mem_ok_def h5_inv_def h5_hdr_ok_def)
  have len: "length hdr = 4" "length payload \<le> 4095"
    using ok h5_plen_bound [of hdr] by (simp_all add: h5_hdr_ok_def)
  have gs: "rx_got ?s q st crc k = rx_got h5 q st crc k" for q st crc k
    by (simp add: rx_got_def)
  show ?thesis
  proof (cases "hdr ! 0 AND 0x40 = 0")
    case True
    from recv_plain_body [OF s, of "0xc0" "[]"] True obtain k q where
      k: "rx_buf k" "skb_bytes k = hdr @ payload" "unat (data_len k) = 4 + length payload"
      and q: "list_all (\<lambda>ok. ok) q"
      and r: "h5_recv ?s (slip (hdr @ payload) @ [0xc0]) =
        h5_recv (rx_got h5 q H5_W4_DATA H5_CRC_INIT k) [0xc0]"
      unfolding gs by auto
    let ?g = "rx_got h5 q H5_W4_DATA H5_CRC_INIT k"
    have "sk_get k 0 = Ret (hdr ! 0)"
      using sk_get_bytes [of k 0] k len rx_bufD [of k] by (simp add: nth_append)
    then have "h5_rx_step ?g 0xc0 = rbind (h5_complete_rx_pkt ?g) (\<lambda>h. Ret (Again, h))"
      using True by (simp add: h5_rx_step_def rx_got_def rx_payload_def with_skb_def)
    then have "h5_recv ?g [0xc0] =
        rbind (h5_complete_rx_pkt ?g) (\<lambda>h. Ret (h\<lparr>rx_state := H5_W4_PKT_START\<rparr>))"
      by (rule recv_complete [OF _ _ k(1)]) (use q in \<open>simp_all add: rx_got_def mem_ok_def\<close>)
    with k q r True recv_lead [OF inv(1,2)] show ?thesis
      by (auto simp: h5_frame_def h5_body_def)
  next
    case False
    let ?crc = "foldl h5_crc_update H5_CRC_INIT (hdr @ payload)"
    from recv_crc_body [OF s False, of "h5_crc_of (hdr @ payload)" "0xc0" "[]"] obtain k q where
      k: "rx_buf k" "skb_bytes k = hdr @ payload @ h5_crc_of (hdr @ payload)"
        "unat (data_len k) = 6 + length payload"
      and q: "list_all (\<lambda>ok. ok) q"
      and r: "h5_recv ?s (slip (hdr @ payload @ h5_crc_of (hdr @ payload)) @ [0xc0]) =
        h5_recv (rx_got h5 q H5_W4_CRC ?crc k) [0xc0]"
      unfolding gs by auto
    let ?g = "rx_got h5 q H5_W4_CRC ?crc k"
    let ?k = "skb_trim k (data_len k - 2)"
    have six: "6 \<le> unat (data_len k)" using k(3) by simp
    note trim = rx_buf_trim [OF k(1) six]
    have "h5_get_crc k = Ret (bit_rev16 ?crc)"
      unfolding h5_get_crc_eq [OF k(1) six] Let_def k(2,3) h5_crc_of_bytes
      using len le16_bytes [of "bit_rev16 ?crc"] by (simp add: nth_append le16_def)
    then have "h5_rx_step ?g 0xc0 = rbind (h5_complete_rx_pkt (rx_got h5 q H5_W4_CRC ?crc ?k))
        (\<lambda>h. Ret (Again, h))"
      by (simp add: h5_rx_step_def rx_got_def rx_crc_def with_skb_def)
    then have "h5_recv ?g [0xc0] = rbind (h5_complete_rx_pkt (rx_got h5 q H5_W4_CRC ?crc ?k))
        (\<lambda>h. Ret (h\<lparr>rx_state := H5_W4_PKT_START\<rparr>))"
      by (rule recv_complete [OF _ _ trim(1)]) (use q in \<open>simp_all add: rx_got_def mem_ok_def\<close>)
    moreover have "skb_bytes ?k = hdr @ payload" using trim(2) k(2,3) len by simp
    ultimately show ?thesis
      using trim(1) q r False recv_lead [OF inv(1,2)]
      by (intro exI [of _ ?k] exI [of _ q] exI [of _ H5_W4_CRC] exI [of _ ?crc])
        (simp add: h5_frame_def h5_body_def)
  qed
qed

lemma recv_reject:
  assumes inv: "h5_inv h5" "rx_idle h5" "mem_ok h5" and ok: "h5_hdr_ok h5 hdr (length payload)"
    and flag: "hdr ! 0 AND 0x40 \<noteq> 0" and tail: "length tail = 2"
    and bad: "tail \<noteq> h5_crc_of (hdr @ payload)"
  shows "\<exists>q crc. h5_recv h5 ([0xc0] @ slip (hdr @ payload @ tail) @ [0xc0]) =
    Ret (h5\<lparr>malloc_q := q, message_crc := crc, rx_state := H5_W4_PKT_START, rx_count := 0,
      rx_esc_state := H5_ESCSTATE_NOESC, rx_skb := Dangling\<rparr>)"
proof -
  let ?s = "h5\<lparr>rx_state := H5_W4_PKT_START\<rparr>"
  have s: "mem_ok ?s" "rx_state ?s = H5_W4_PKT_START" "rx_count ?s = 0" "h5_hdr_ok ?s hdr (length payload)"
    using inv ok by (simp_all add: mem_ok_def h5_inv_def h5_hdr_ok_def)
  have len: "length hdr = 4" using ok by (simp add: h5_hdr_ok_def)
  have gs: "rx_got ?s q st crc k = rx_got h5 q st crc k" for q st crc k
    by (simp add: rx_got_def)
  let ?crc = "foldl h5_crc_update H5_CRC_INIT (hdr @ payload)"
  from recv_crc_body [OF s flag tail, of "0xc0" "[]"] obtain k q where
    k: "rx_buf k" "skb_bytes k = hdr @ payload @ tail" "unat (data_len k) = 6 + length payload"
    and r: "h5_recv ?s (slip (hdr @ payload @ tail) @ [0xc0]) =
      h5_recv (rx_got h5 q H5_W4_CRC ?crc k) [0xc0]"
    unfolding gs by auto
  let ?g = "rx_got h5 q H5_W4_CRC ?crc k"
  let ?d = "?g\<lparr>rx_skb := Dangling, rx_state := H5_W4_PKT_DELIMITER, rx_count := 0\<rparr>"
  have six: "6 \<le> unat (data_len k)" using k(3) by simp
  obtain t0 t1 where t: "tail = [t0, t1]"
    using tail by (cases tail rule: list.exhaust) (auto simp: length_Suc_conv)
  have "h5_get_crc k = Ret (le16 t1 t0)"
    unfolding h5_get_crc_eq [OF k(1) six] Let_def k(2,3) t
    using len by (simp add: nth_append le16_def)
  moreover have "bit_rev16 ?crc \<noteq> le16 t1 t0"
    using bad le16_eq_iff [of t1 t0 "bit_rev16 ?crc"]
    by (auto simp only: t h5_crc_of_bytes Let_def)
  ultimately have "h5_rx_step ?g 0xc0 = Ret (Again, ?d)"
    by (simp add: h5_rx_step_def rx_got_def rx_crc_def with_skb_def rx_drop_def)
  then have "h5_recv ?g [0xc0] = h5_recv ?d [0xc0]"
    using recv_again [of ?g "0xc0" "Ret ?d" "[]"] by simp
  also have "\<dots> = Ret (?d\<lparr>rx_state := H5_W4_PKT_START\<rparr>)"
    by (subst recv_lead) (simp_all add: h5_inv_def rx_idle_def)
  finally have "h5_recv ?s (slip (hdr @ payload @ tail) @ [0xc0]) =
      Ret (?d\<lparr>rx_state := H5_W4_PKT_START\<rparr>)" using r by simp
  moreover have "?d\<lparr>rx_state := H5_W4_PKT_START\<rparr> = h5\<lparr>malloc_q := q, message_crc := ?crc,
      rx_state := H5_W4_PKT_START, rx_count := 0, rx_esc_state := H5_ESCSTATE_NOESC,
      rx_skb := Dangling\<rparr>"
    by (cases h5) (simp add: rx_got_def)
  ultimately show ?thesis using recv_lead [OF inv(1,2)] by auto
qed

section \<open>The header a sender writes is accepted\<close>

lemma u8_below: "unat (x :: u8) < 2 ^ n \<Longrightarrow> bit x k \<Longrightarrow> k < n"
proof -
  assume "unat x < 2 ^ n" and "bit x k"
  then have "bit (take_bit n (unat x)) k"
    by (simp add: take_bit_nat_eq_self bit_unsigned_iff)
  then show "k < n" by (simp add: bit_take_bit_iff)
qed

lemma u8_below_8: "(x :: u8) < 8 \<Longrightarrow> bit x k \<Longrightarrow> k < 3"
  by (rule u8_below) (simp_all add: word_less_nat_alt)

lemma u8_below_16: "(x :: u8) < 16 \<Longrightarrow> bit x k \<Longrightarrow> k < 4"
  by (rule u8_below) (simp_all add: word_less_nat_alt)

lemma and_bit_8: "(x :: u8) AND 0x40 \<noteq> 0 \<longleftrightarrow> bit x 6" "x AND 0x80 \<noteq> 0 \<longleftrightarrow> bit x 7"
  using and_exp_eq_0_iff_not_bit [of x 6] and_exp_eq_0_iff_not_bit [of x 7] by simp_all

definition h5_hdr0 :: "u8 \<Rightarrow> u8 \<Rightarrow> bool \<Rightarrow> bool \<Rightarrow> u8" where
  "h5_hdr0 ack seq rel c =
     push_bit 3 ack OR (if rel then 0x80 + seq else 0) OR (if c then 0x40 else 0)"

lemma bit_hdr0:
  assumes "ack < 8" and "seq < 8"
  shows "bit (h5_hdr0 ack seq rel c) k \<longleftrightarrow>
    (if k < 3 then rel \<and> bit seq k else if k < 6 then bit ack (k - 3)
     else if k = 6 then c else k = 7 \<and> rel)"
proof -
  note lt = u8_below_8 [OF assms(1)] u8_below_8 [OF assms(2)]
  have c80: "bit (0x80 :: u8) k \<longleftrightarrow> k = 7" for k
    using bit_exp_iff [of 7 k, where ?'a = u8] by auto
  have c40: "bit (0x40 :: u8) k \<longleftrightarrow> k = 6" for k
    using bit_exp_iff [of 6 k, where ?'a = u8] by auto
  have "0x80 + seq = 0x80 OR seq"
  proof (rule disjunctive_add_eq_or, rule bit_eqI)
    fix n
    show "bit (0x80 AND seq) n = bit (0 :: u8) n"
      using lt(2) [of 7] by (simp only: bit_and_iff c80 bit_0_eq bot_apply) auto
  qed
  then show ?thesis
    using lt(1) [of "k - 3"] lt(2) [of k]
    by (simp only: h5_hdr0_def bit_or_iff bit_push_bit_iff c80 c40 split: if_splits) auto
qed

lemma h5_hdr_flags:
  assumes "ack < 8" and "seq < 8"
  shows "h5_hdr ack seq rel c n t ! 0 AND 0x40 \<noteq> 0 \<longleftrightarrow> c"
    and "h5_hdr ack seq rel c n t ! 0 AND 0x80 \<noteq> 0 \<longleftrightarrow> rel"
    and "rel \<Longrightarrow> h5_hdr ack seq rel c n t ! 0 AND 0x07 = seq"
proof -
  have h: "h5_hdr ack seq rel c n t ! 0 = h5_hdr0 ack seq rel c"
    by (simp add: h5_hdr_def h5_hdr0_def Let_def)
  note b = bit_hdr0 [OF assms]
  show "h5_hdr ack seq rel c n t ! 0 AND 0x40 \<noteq> 0 \<longleftrightarrow> c"
    and "h5_hdr ack seq rel c n t ! 0 AND 0x80 \<noteq> 0 \<longleftrightarrow> rel"
    unfolding h and_bit_8 b by simp_all
  have m: "bit (0x07 :: u8) k \<longleftrightarrow> k < 3" for k
  proof -
    have "(0x07 :: u8) = mask 3" by (simp add: mask_eq_exp_minus_1)
    then show ?thesis by (simp only: bit_mask_iff) auto
  qed
  show "h5_hdr ack seq rel c n t ! 0 AND 0x07 = seq" if rel
    unfolding h
  proof (rule bit_eqI)
    fix k
    show "bit (h5_hdr0 ack seq rel c AND 0x07) k = bit seq k"
      using that u8_below_8 [OF assms(2), of k] by (simp only: bit_and_iff b m) auto
  qed
qed

lemma h5_hdr_plen:
  assumes "n \<le> 4095" and "t < 16"
  shows "h5_plen (h5_hdr ack seq rel c n t) = n"
proof -
  have t4: "\<not> bit t (4 + k)" for k
    using u8_below_16 [OF assms(2), of "4 + k"] by auto
  let ?n = "of_nat n :: u32"
  have "drop_bit 4 (ucast (push_bit 4 ?n AND 0xff) OR t) = (take_bit 4 (ucast ?n) :: u8)"
  proof (rule bit_eqI)
    fix k
    show "bit (drop_bit 4 (ucast (push_bit 4 ?n AND 0xff) OR t)) k = bit (take_bit 4 (ucast ?n) :: u8) k"
      by (simp only: bit_drop_bit_eq bit_or_iff ucast_and_ff o_apply t4 bit_ucast_iff
          bit_push_bit_iff bit_take_bit_iff) auto
  qed
  moreover have n: "unat ?n = n"
    by (rule unat_of_nat_small) (use assms(1) in simp)
  moreover have "unat (take_bit 4 (ucast ?n) :: u8) = take_bit 4 (take_bit 8 (unat ?n))"
    by (simp only: unsigned_take_bit_eq unsigned_ucast_eq) simp
  ultimately have "unat (drop_bit 4 (ucast (push_bit 4 ?n AND 0xff) OR t)) = n mod 16"
    by (simp only: take_bit_take_bit) (simp only: take_bit_eq_mod, simp)
  moreover have "unat (ucast (drop_bit 4 ?n) :: u8) = take_bit 8 (drop_bit 4 n)"
    by (simp only: unsigned_ucast_eq unat_drop_bit_eq n) simp
  then have "unat (ucast (drop_bit 4 ?n) :: u8) = n div 16"
    using assms(1) by (simp add: take_bit_eq_mod drop_bit_eq_div)
  ultimately show ?thesis by (simp add: h5_plen_def h5_hdr_def Let_def)
qed

lemma h5_hdr_accepted:
  assumes "ack < 8" and "seq < 8" and "n \<le> 4095" and "t < 16" and "rel \<Longrightarrow> rxseq_txack h5 = seq"
  shows "h5_hdr_ok h5 (h5_hdr ack seq rel c n t) n"
proof -
  have "NOT (h5_hdr ack seq rel c n t ! 0 + h5_hdr ack seq rel c n t ! 1 +
      h5_hdr ack seq rel c n t ! 2) = h5_hdr ack seq rel c n t ! 3"
    by (simp add: h5_hdr_def Let_def)
  then show ?thesis
    using h5_hdr_flags [OF assms(1,2)] h5_hdr_plen [OF assms(3,4)] assms(5)
    unfolding h5_hdr_ok_def by (metis length_h5_hdr)
qed

lemma h5_reliable_lt: "h5_reliable t = Some rel \<Longrightarrow> t < 16"
  by (auto simp: h5_reliable_def pkt_type_defs split: if_splits)

section \<open>Properties\<close>

text \<open>
  Claim C1. End-to-end delivery: whatever payload of at most 4095 bytes a sender packs with
  \<open>h5_prepare_pkt\<close>, with or without CRC and whatever bytes need escaping, an idle receiver fed
  the produced bytes rebuilds exactly header and payload in its buffer, hands them to
  \<open>h5_complete_rx_pkt\<close> once, and is ready for the next frame.
\<close>

theorem h5_link_round_trip:
  assumes "h5_reliable t = Some rel" and "length payload \<le> 4095"
    and "do_malloc tx = (True, tx')" and "rxseq_txack tx' < 8" and "msgq_txseq tx' < 8"
    and "h5_inv rx" and "rx_idle rx" and "mem_ok rx" and "rel \<longrightarrow> rxseq_txack rx = msgq_txseq tx'"
  shows "\<exists>p k q st crc. h5_prepare_pkt tx payload t = Ret (Some p, h5_tx_state tx' rel) \<and>
    skb_bytes k = h5_hdr (rxseq_txack tx') (msgq_txseq tx') rel (use_crc tx' \<noteq> 0) (length payload) t
      @ payload \<and>
    h5_recv rx (skb_bytes p) = rbind (h5_complete_rx_pkt (rx_got rx q st crc k))
      (\<lambda>h. Ret (h\<lparr>rx_state := H5_W4_PKT_START\<rparr>))"
proof -
  let ?hdr = "h5_hdr (rxseq_txack tx') (msgq_txseq tx') rel (use_crc tx' \<noteq> 0) (length payload) t"
  have ok: "h5_hdr_ok rx ?hdr (length payload)"
    by (rule h5_hdr_accepted) (use assms h5_reliable_lt in auto)
  have flag: "?hdr ! 0 AND 0x40 \<noteq> 0 \<longleftrightarrow> use_crc tx' \<noteq> 0"
    using assms(4,5) by (rule h5_hdr_flags)
  have "length payload < 2 ^ 30" using assms(2) by simp
  from h5_prepare_pkt_frame [OF assms(1) this assms(3)] recv_deliver [OF assms(6-8) ok]
  show ?thesis unfolding flag by metis
qed

lemma h5_inv_rtb_cfg: "h5_inv rtb_cfg" "rx_idle rtb_cfg" "mem_ok rtb_cfg"
  by (simp_all add: h5_inv_def rx_idle_def mem_ok_def)

lemma h5_link_round_trip_witness:
  "\<exists>p k q st crc. h5_prepare_pkt rtb_cfg [0x03, 0xc0, 0x00] HCI_COMMAND_PKT =
      Ret (Some p, h5_tx_state rtb_cfg True) \<and>
    skb_bytes k = h5_hdr 0 0 True False 3 HCI_COMMAND_PKT @ [0x03, 0xc0, 0x00] \<and>
    h5_recv rtb_cfg (skb_bytes p) = rbind (h5_complete_rx_pkt (rx_got rtb_cfg q st crc k))
      (\<lambda>h. Ret (h\<lparr>rx_state := H5_W4_PKT_START\<rparr>))"
proof -
  have r: "h5_reliable HCI_COMMAND_PKT = Some True" by (simp add: h5_reliable_def)
  have n: "length [0x03, 0xc0, 0x00 :: u8] = 3" by simp
  show ?thesis
    using h5_link_round_trip [OF r _ _ _ _ h5_inv_rtb_cfg, of "[0x03, 0xc0, 0x00]" rtb_cfg rtb_cfg]
    unfolding n by simp
qed

text \<open>
  Claim C2. Memory safety of the receiver: from any state that satisfies the receiver's
  invariant, no sequence of received bytes, however corrupted, makes \<open>h5_recv\<close> or a packet
  handler access memory outside the packet buffer or follow a null or freed pointer, as long as
  allocation succeeds; and the invariant holds again afterwards.
\<close>

theorem h5_recv_memory_safe:
  assumes "h5_inv h5" and "mem_ok h5"
  shows "safe (h5_recv h5 bs) (\<lambda>h5'. h5_inv h5' \<and> mem_ok h5')"
  using assms by (rule safe_recv)

lemma h5_recv_memory_safe_witness:
  "safe (h5_recv rtb_cfg [0xc0, 0xdb, 0xdb, 0x40, 0xc0])
     (\<lambda>h5'. h5_inv h5' \<and> mem_ok h5')"
  by (rule h5_recv_memory_safe [OF h5_inv_rtb_cfg(1,3)])



text \<open>
  Claim C20. Corruption is detected: if a packet that carries a CRC arrives with two adjacent
  payload bytes replaced by any other two bytes, then no handler runs, nothing is sent, the
  buffer is released and nothing but the receiver's own fields changes.
\<close>

theorem h5_recv_detects_burst:
  assumes "h5_inv h5" and "rx_idle h5" and "mem_ok h5"
    and "h5_hdr_ok h5 hdr (length (us @ a # b # vs))" and "hdr ! 0 AND 0x40 \<noteq> 0"
    and "(a, b) \<noteq> (a', b')"
  shows "\<exists>q crc. h5_recv h5
      ([0xc0] @ slip (hdr @ (us @ a' # b' # vs) @ h5_crc_of (hdr @ us @ a # b # vs)) @ [0xc0]) =
    Ret (h5\<lparr>malloc_q := q, message_crc := crc, rx_state := H5_W4_PKT_START, rx_count := 0,
      rx_esc_state := H5_ESCSTATE_NOESC, rx_skb := Dangling\<rparr>)"
proof (rule recv_reject [OF assms(1-3) _ assms(5)])
  show "h5_hdr_ok h5 hdr (length (us @ a' # b' # vs))" using assms(4) by simp
  have "foldl h5_crc_update H5_CRC_INIT ((hdr @ us) @ a # b # vs) \<noteq>
      foldl h5_crc_update H5_CRC_INIT ((hdr @ us) @ a' # b' # vs)"
    using assms(6) by (rule crc.detects_pair)
  then show "h5_crc_of (hdr @ us @ a # b # vs) \<noteq> h5_crc_of (hdr @ us @ a' # b' # vs)"
    unfolding h5_crc_of_bytes Let_def
    by (metis append.assoc bit_rev16_inject le16_bytes list.inject)
qed simp

lemma h5_recv_detects_burst_witness:
  "\<exists>q crc. h5_recv rtb_cfg
      ([0xc0] @ slip ([0x40, 0x24, 0x00, 0x9b] @ ([] @ 0x01 # 0x02 # []) @
         h5_crc_of ([0x40, 0x24, 0x00, 0x9b] @ [] @ 0x01 # 0x00 # [])) @ [0xc0]) =
    Ret (rtb_cfg\<lparr>malloc_q := q, message_crc := crc, rx_state := H5_W4_PKT_START, rx_count := 0,
      rx_esc_state := H5_ESCSTATE_NOESC, rx_skb := Dangling\<rparr>)"
  by (rule h5_recv_detects_burst [OF h5_inv_rtb_cfg])
    (simp_all add: h5_hdr_ok_def h5_plen_def)

end
