(* ===== verification/H5_Env.thy ===== *)
theory H5_Env
  imports H5_Deliver
begin

text \<open>
  What the receiver of hciattach_rtk.c leaves alone: the descriptors, the command being waited
  for, the send sequence number, the download indices the sender sets, and the scripts of the
  system calls it does not make.
\<close>

definition rx_env :: "rtb_struct \<Rightarrow>
  (epoll_ans list \<times> bool list \<times> bytes option list \<times> int list \<times> poll_ans list) \<times>
  (u32 \<times> nat \<times> u8 \<times> u16 \<times> int \<times> int \<times> int) \<times> (int \<times> int \<times> u32 \<times> u32 \<times> int \<times> u32 \<times> int \<times> int) \<times>
  (bytes option \<times> bytes option \<times> bytes option \<times> patch_info option)" where
  "rx_env s =
     ((epoll_q s, timer_q s, read_q s, tcset_q s, poll_q s),
      (ti_cflag s, armed_msec s, msgq_txseq s, cmd_opcode s, serial_fd s, timerfd s, epollfd s),
      (tx_index s, total_num s, uart_flow_ctrl s, final_speed s, proto s, vendor_baud s, total_len s,
        ti_speed s),
      (fw_buf s, config_buf s, total_buf s, patch_ent s))"

lemma rx_env_upd [simp]:
  "rx_env (s\<lparr>malloc_q := q\<rparr>) = rx_env s" "rx_env (s\<lparr>write_q := w\<rparr>) = rx_env s"
  "rx_env (s\<lparr>tx_log := l\<rparr>) = rx_env s" "rx_env (s\<lparr>is_txack_req := a\<rparr>) = rx_env s"
  "rx_env (s\<lparr>rx_skb := k\<rparr>) = rx_env s" "rx_env (s\<lparr>rx_state := st\<rparr>) = rx_env s"
  "rx_env (s\<lparr>rx_count := c\<rparr>) = rx_env s" "rx_env (s\<lparr>message_crc := m\<rparr>) = rx_env s"
  "rx_env (s\<lparr>rx_esc_state := e\<rparr>) = rx_env s" "rx_env (s\<lparr>rxseq_txack := x\<rparr>) = rx_env s"
  "rx_env (s\<lparr>rxack := x\<rparr>) = rx_env s" "rx_env (s\<lparr>use_crc := x\<rparr>) = rx_env s"
  "rx_env (s\<lparr>link_estab_state := ls\<rparr>) = rx_env s" "rx_env (s\<lparr>rx_index := i\<rparr>) = rx_env s"
  "rx_env (s\<lparr>num_of_cmd_sent := n\<rparr>) = rx_env s" "rx_env (s\<lparr>cmd_stat := n\<rparr>) = rx_env s"
  "rx_env (s\<lparr>hci_ver := x\<rparr>) = rx_env s" "rx_env (s\<lparr>hci_rev := n\<rparr>) = rx_env s"
  "rx_env (s\<lparr>lmp_subver := n\<rparr>) = rx_env s" "rx_env (s\<lparr>eversion := x\<rparr>) = rx_env s"
  "rx_env (s\<lparr>chip_type := x\<rparr>) = rx_env s" "rx_env (s\<lparr>chip_ver := x\<rparr>) = rx_env s"
  by (simp_all add: rx_env_def)

lemma rx_env_fields:
  assumes "rx_env s = rx_env s'"
  shows "epoll_q s = epoll_q s'" "timer_q s = timer_q s'" "msgq_txseq s = msgq_txseq s'"
    "cmd_opcode s = cmd_opcode s'" "serial_fd s = serial_fd s'" "timerfd s = timerfd s'"
    "tx_index s = tx_index s'" "total_num s = total_num s'" "read_q s = read_q s'"
    "tcset_q s = tcset_q s'" "uart_flow_ctrl s = uart_flow_ctrl s'" "proto s = proto s'"
  using assms by (simp_all add: rx_env_def)

text \<open>Building a packet changes the send sequence number only.\<close>

lemma prepare_env:
  "post (h5_prepare_pkt s payload t) (\<lambda>(k, s').
     rx_env (s'\<lparr>msgq_txseq := msgq_txseq s\<rparr>) = rx_env s \<and>
     msgq_txseq s' = (if k \<noteq> None \<and> h5_reliable t = Some True then (msgq_txseq s + 1) AND 7
                      else msgq_txseq s) \<and>
     rx_state s' = rx_state s \<and> rx_count s' = rx_count s \<and> rx_skb s' = rx_skb s)"
proof (cases "h5_reliable t")
  case None
  then show ?thesis by (simp add: h5_prepare_pkt_def Let_def rx_env_def)
next
  case (Some rel)
  let ?n = "14 + of_nat (length payload) * 2 :: u32"
  show ?thesis
  proof (cases rule: skb_alloc_cases [of ?n s])
    case (ok q)
    then show ?thesis
      unfolding h5_prepare_pkt_put_all [OF Some ok] Let_def
      by (intro post_bind) (simp add: Some h5_tx_state_def rx_env_def)
  next
    case (fail q)
    then show ?thesis
      unfolding h5_prepare_pkt_fail [OF Some fail(1)] by (simp add: rx_env_def)
  qed
qed

lemma write_env: "do_write bs s = (r, e, s') \<Longrightarrow> rx_env s' = rx_env s"
  by (rule do_write_shape [of bs s]) auto

lemma send_ack_env: "post (rtb_send_ack s) (\<lambda>s'. rx_env s' = rx_env s)"
proof -
  have "rx_env s1 = rx_env s" if "h5_prepare_pkt s [] H5_ACK_PKT = Ret (k, s1)" for k s1
    using postD [OF prepare_env that] by (simp add: h5_reliable_ack) (simp add: rx_env_def)
  then show ?thesis
    unfolding rtb_send_ack_def
    by (intro post_bind) (auto split: option.splits prod.splits dest!: write_env)
qed

lemma cc_open_env: "post (hci_cc_open s) (\<lambda>(opcode, status, k, s'). rx_env s' = rx_env s)"
  unfolding hci_cc_open_def by (intro post_with_skb post_bind) simp

lemma init_cc_env: "post (h5_init_hci_cc s) (\<lambda>s'. rx_env s' = rx_env s)"
  unfolding h5_init_hci_cc_def Let_def
  by (rule post_bind2 [OF cc_open_env]) (auto intro!: post_bind)

lemma post_cc_env: "post (h5_post_hci_cc s) (\<lambda>s'. rx_env s' = rx_env s)"
  unfolding h5_post_hci_cc_def Let_def
  by (rule post_bind2 [OF cc_open_env]) auto

lemma recv_frame_env: "post (hci_recv_frame s) (\<lambda>s'. rx_env s' = rx_env s)"
  unfolding hci_recv_frame_def Let_def
  by (rule post_with_skb) (auto split: H5_LINK_STATE.splits intro!: post_bind init_cc_env post_cc_env)

lemma internal_rx_env: "post (h5_handle_internal_rx s) (\<lambda>s'. rx_env s' = rx_env s)"
  unfolding h5_handle_internal_rx_def Let_def
  by (rule post_with_skb)
    (auto split: H5_LINK_STATE.splits prod.splits intro!: post_bind send_ack_env dest!: write_env)

lemma note_hdr_env [simp]: "rx_env (rx_note_hdr s b) = rx_env s"
  by (simp add: rx_note_hdr_def Let_def)

lemma dispatch_env: "post (rx_dispatch s k b) (\<lambda>s'. rx_env s' = rx_env s)"
proof -
  have "post (hci_recv_frame (s\<lparr>rx_skb := x\<rparr>)) (\<lambda>s'. rx_env s' = rx_env s)"
    "post (h5_handle_internal_rx (s\<lparr>rx_skb := x\<rparr>)) (\<lambda>s'. rx_env s' = rx_env s)" for x
    using recv_frame_env [of "s\<lparr>rx_skb := x\<rparr>"] internal_rx_env [of "s\<lparr>rx_skb := x\<rparr>"] by simp_all
  then show ?thesis
    unfolding rx_dispatch_def Let_def by (auto intro!: post_bind)
qed

lemma finish_env: "post (rx_finish s) (\<lambda>s'. rx_env s' = rx_env s)"
proof -
  have "post (if is_txack_req s \<noteq> 0 then rbind (rtb_send_ack s) (\<lambda>s. Ret (s\<lparr>is_txack_req := 0\<rparr>))
      else Ret s) (\<lambda>s'. rx_env s' = rx_env s)"
    by (auto intro: post_bind2 [OF send_ack_env])
  then show ?thesis
    unfolding rx_finish_def by (rule post_bind2) (auto intro: post_check)
qed

lemma complete_env: "post (h5_complete_rx_pkt s) (\<lambda>s'. rx_env s' = rx_env s)"
  unfolding h5_complete_rx_pkt_def
proof (rule post_with_skb, rule post_bind, rule post_bind)
  fix k b0 b1
  show "post (rbind (rx_dispatch (rx_note_hdr s b0) k b1) rx_finish) (\<lambda>s'. rx_env s' = rx_env s)"
    by (rule post_bind2 [OF dispatch_env]) (rule post_weaken [OF finish_env], simp)
qed

lemma drop_env: "post (rx_drop s) (\<lambda>s'. rx_env s' = rx_env s)"
  unfolding rx_drop_def by (intro post_check) simp

lemma unslip_env: "post (h5_unslip_one_byte s b) (\<lambda>s'. rx_env s' = rx_env s)"
proof -
  have st: "post (h5_unslip_store s c) (\<lambda>s'. rx_env s' = rx_env s)" for c
    by (auto simp: h5_unslip_store_def Let_def split: skb_ptr.splits intro!: post_bind)
  show ?thesis
    unfolding h5_unslip_one_byte_def Let_def
    by (auto split: H5_RX_ESC_STATE.splits intro!: post_bind2 [OF st] post_check)
qed

lemma header_env: "post (rx_header s) (\<lambda>s'. rx_env s' = rx_env s)"
  unfolding rx_header_def
  by (intro post_with_skb post_bind post_if drop_env)
    (use drop_env [of "s\<lparr>is_txack_req := 1\<rparr>"] in \<open>auto simp: post_def\<close>)

lemma payload_env: "post (rx_payload s) (\<lambda>s'. rx_env s' = rx_env s)"
  unfolding rx_payload_def by (intro post_with_skb post_bind post_if complete_env) simp

lemma crc_env: "post (rx_crc s) (\<lambda>s'. rx_env s' = rx_env s)"
  unfolding rx_crc_def
  by (intro post_with_skb post_bind post_if drop_env)
    (use complete_env [of "s\<lparr>rx_skb := x\<rparr>" for x] in \<open>simp add: post_def\<close>)

lemma rx_step_env: "post (h5_rx_step s b) (\<lambda>(n, s'). rx_env s' = rx_env s)"
proof -
  have again: "post (rbind m (\<lambda>s. Ret (n, s))) (\<lambda>(n, s'). rx_env s' = rx_env s)"
    if "post m (\<lambda>s'. rx_env s' = rx_env s)" for m n
    by (rule post_bind2 [OF that]) simp
  show ?thesis
    unfolding h5_rx_step_def Let_def
    by (auto split: H5_RX_STATE.splits prod.splits option.splits dest!: skb_alloc_state
        intro!: post_check again unslip_env header_env payload_env crc_env)
qed

lemma recv_env: "post (h5_recv s bs) (\<lambda>s'. rx_env s' = rx_env s)"
proof (induction s bs rule: h5_recv.induct)
  case (1 h5)
  then show ?case by simp
next
  case (2 h5 b bs)
  show ?case
  proof (cases "h5_rx_step h5 b")
    case (Ret x)
    obtain n h where x: "x = (n, h)" by (cases x)
    from Ret x show ?thesis
      using 2(1) [OF Ret x [symmetric]] 2(2) [OF Ret x [symmetric]] postD [OF rx_step_env Ret]
      by (cases n) (simp_all add: h5_recv.simps(2) [of h5 b bs])
  qed (simp_all add: h5_recv.simps(2) [of h5 b bs])
qed

end
