(* ===== verification/H5_Link.thy ===== *)
theory H5_Link
  imports H5_Env
begin

text \<open>
  Commands over the three-wire link (hciattach_rtk.c): sending a packet and waiting for its
  effect with retransmission, the download of one firmware fragment, the link establishment,
  and the commands the configuration uses.
\<close>

section \<open>Waiting for events\<close>

text \<open>
  The loop both waiting functions share: ask \<open>epoll_wait\<close>, handle the reported events in
  order, and stop when a handler makes the function return or when the condition holds. A
  handler yields the value the function returns, if it does, and the remaining retries.
\<close>

type_synonym ev_result = "int option \<times> int \<times> rtb_struct"

fun wait_loop ::
  "((int \<times> bool) list \<Rightarrow> int \<Rightarrow> rtb_struct \<Rightarrow> ev_result res) \<Rightarrow> (rtb_struct \<Rightarrow> bool) \<Rightarrow>
   epoll_ans list \<Rightarrow> int \<Rightarrow> rtb_struct \<Rightarrow> (int option \<times> rtb_struct) res" where
  "wait_loop handle done [] retry s = Blocked"
| "wait_loop handle done (EpollErr # q) retry s = Exit 1"
| "wait_loop handle done (EpollEv evs # q) retry s =
     rbind (handle evs retry (s\<lparr>epoll_q := q\<rparr>)) (\<lambda>(r, retry, s).
       case r of
         Some x \<Rightarrow> Ret (Some x, s)
       | None \<Rightarrow> if done s then Ret (None, s) else wait_loop handle done q retry s)"

text \<open>The serial branch of both event loops: read what has arrived and run the receiver.\<close>

definition serial_event :: "nat \<Rightarrow> bool \<Rightarrow> rtb_struct \<Rightarrow> rtb_struct res" where
  "serial_event bufsz err s =
     (if err then Exit 1
      else rbind (do_read bufsz s) (\<lambda>(result, bs, s).
        if result \<le> 0 then Ret s else h5_recv s bs))"

section \<open>Sending a command and waiting for its completion\<close>

definition OP_H5_SYNC :: u32 where "OP_H5_SYNC = 0x01"
definition OP_H5_CONFIG :: u32 where "OP_H5_CONFIG = 0x02"
definition OP_ROM_VER :: u32 where "OP_ROM_VER = push_bit 24 1 OR ucast HCI_VENDOR_READ_ROM_VER"
definition OP_LMP_VER :: u32 where "OP_LMP_VER = push_bit 24 1 OR ucast HCI_CMD_READ_LOCAL_VER"
definition OP_CHIP_TYPE :: u32 where
  "OP_CHIP_TYPE = push_bit 24 1 OR ucast HCI_VENDOR_READ_CHIP_TYPE"
definition OP_SET_BAUD :: u32 where "OP_SET_BAUD = push_bit 24 1 OR ucast HCI_VENDOR_CHANGE_BAUD"
definition OP_HCI_RESET :: u32 where "OP_HCI_RESET = push_bit 24 1 OR ucast HCI_CMD_RESET"

definition op_is_cmd :: "u32 \<Rightarrow> bool" where
  "op_is_cmd op \<longleftrightarrow> op AND push_bit 24 1 \<noteq> 0"

definition op_opcode :: "u32 \<Rightarrow> u16" where
  "op_opcode op = (if op_is_cmd op then ucast (op AND 0xffff) else 0)"

fun stw_events :: "bytes \<Rightarrow> nat \<Rightarrow> (int \<times> bool) list \<Rightarrow> int \<Rightarrow> rtb_struct \<Rightarrow> ev_result res" where
  "stw_events data msec [] retry s = Ret (None, retry, s)"
| "stw_events data msec ((efd, err) # evs) retry s =
     (if efd = serial_fd s then
        rbind (serial_event 128 err s) (\<lambda>s. stw_events data msec evs retry s)
      else if efd = timerfd s then
        (if err then Exit 1
         else
           case do_timer_read s of (ok, s) \<Rightarrow>
             if \<not> ok then Ret (None, retry, s)
             else if retry \<le> 0 then Exit 1
             else
               case do_writev data s of (ret, e, s) \<Rightarrow>
                 if ret < 0 then Ret (Some (- e), retry, s)
                 else stw_events data msec evs (retry - 1) (timeout_set msec s))
      else stw_events data msec evs retry s)"

definition stw_done :: "u32 \<Rightarrow> u16 \<Rightarrow> rtb_struct \<Rightarrow> bool" where
  "stw_done op opcode s =
     (if \<not> op_is_cmd op then
        op = OP_H5_SYNC \<and> link_estab_state s = H5_CONFIG \<or>
        op = OP_H5_CONFIG \<and> link_estab_state s = H5_INIT
      else cmd_opcode s = opcode \<and> cmd_stat s = CMD_STATE_SUCCESS)"

text \<open>\<open>None\<close> for the packet is the null pointer.\<close>

definition start_transmit_wait ::
  "int \<Rightarrow> sk_buff option \<Rightarrow> u32 \<Rightarrow> nat \<Rightarrow> int \<Rightarrow> rtb_struct \<Rightarrow> (int \<times> rtb_struct) res" where
  "start_transmit_wait fd skb op msec retry s =
     (case skb of
        None \<Rightarrow> Ret (-1, s)
      | Some k \<Rightarrow>
        if fd = -1 then Ret (-1, s)
        else
          let data = skb_bytes k;
              opcode = op_opcode op
          in if op_is_cmd op \<and> (opcode \<noteq> cmd_opcode s \<or> cmd_stat s \<noteq> CMD_STATE_UNKNOWN)
             then Ret (-1, s)
             else
               case do_writev data s of (ret, e, s) \<Rightarrow>
                 if ret < 0 then Ret (- e, s)
                 else
                   let s = (if timerfd s > 0 then timeout_set msec s else s)
                   in rbind (wait_loop (stw_events data msec) (stw_done op opcode) (epoll_q s) retry s)
                        (\<lambda>(r, s). case r of Some x \<Rightarrow> Ret (x, s)
                                  | None \<Rightarrow> Ret (0, timeout_set 0 s)))"

section \<open>One firmware fragment\<close>

definition PATCH_DATA_FIELD_MAX_SIZE :: nat where "PATCH_DATA_FIELD_MAX_SIZE = 252"

fun dl_events :: "int \<Rightarrow> bytes \<Rightarrow> nat \<Rightarrow> (int \<times> bool) list \<Rightarrow> int \<Rightarrow> rtb_struct \<Rightarrow> ev_result res" where
  "dl_events dd data msec [] retry s = Ret (None, retry, s)"
| "dl_events dd data msec ((efd, err) # evs) retry s =
     (if efd = dd then
        rbind (serial_event 64 err s) (\<lambda>s. dl_events dd data msec evs retry s)
      else if efd = timerfd s then
        (if err then Exit 1
         else
           case do_timer_read s of (ok, s) \<Rightarrow>
             if \<not> ok then Exit 1
             else if retry \<le> 0 then Exit 1
             else
               case do_writev data s of (ret, e, s) \<Rightarrow>
                 if ret < 0 then Ret (Some (- e), retry, s)
                 else dl_events dd data msec evs (retry - 1) (timeout_set msec s))
      else dl_events dd data msec evs retry s)"

text \<open>
  The command built on the stack: opcode, length, index and at most 252 bytes of data. A null
  \<open>data\<close> leaves the bytes behind the index uninitialised, so it needs \<open>len = 0\<close>.
\<close>

definition dl_command :: "u8 \<Rightarrow> bytes option \<Rightarrow> nat \<Rightarrow> bytes res" where
  "dl_command index data len =
     check (len \<le> PATCH_DATA_FIELD_MAX_SIZE)
       (case data of
          None \<Rightarrow> check (len = 0) (Ret [0x20, 0xfc, of_nat (len + 1), index])
        | Some d \<Rightarrow> rbind (arr_slice d 0 len) (\<lambda>p. Ret ([0x20, 0xfc, of_nat (len + 1), index] @ p)))"

text \<open>The line settings before waiting for the last packet.\<close>

definition dl_set_flow :: "rtb_struct \<Rightarrow> bool \<times> rtb_struct" where
  "dl_set_flow s =
     (let s = (if uart_flow_ctrl s \<noteq> 0 then s\<lparr>ti_cflag := ti_cflag s OR CRTSCTS\<rparr>
               else s\<lparr>ti_cflag := ti_cflag s AND NOT CRTSCTS\<rparr>)
      in case do_tcsetattr s of (r, s) \<Rightarrow> (0 \<le> r, s))"

definition h5_download_patch ::
  "int \<Rightarrow> u8 \<Rightarrow> bytes option \<Rightarrow> nat \<Rightarrow> rtb_struct \<Rightarrow> (int \<times> rtb_struct) res" where
  "h5_download_patch dd index data len s =
     (let last = (index AND 0x80 \<noteq> 0);
          s = s\<lparr>tx_index := int (unat (if last then index AND 0x7f else index))\<rparr>;
          timeout = (if last then 1000 else 800)
      in rbind (dl_command index data len) (\<lambda>cmd.
         rbind (h5_prepare_pkt s cmd HCI_COMMAND_PKT) (\<lambda>(nskb, s).
         case nskb of
           None \<Rightarrow> Ret (-1, s)
         | Some k \<Rightarrow>
           let data = skb_bytes k in
           case do_writev data s of (ret, e, s) \<Rightarrow>
             if ret < 0 then Ret (- e, s)
             else
               case (if last then dl_set_flow s else (True, s)) of (ok, s) \<Rightarrow>
                 if \<not> ok then Ret (-1, s)
                 else
                   let s = (if timerfd s > 0 then timeout_set timeout s else s)
                   in rbind (wait_loop (dl_events dd data timeout)
                              (\<lambda>s. rx_index s = tx_index s) (epoll_q s) 3 s)
                        (\<lambda>(r, s). case r of Some x \<Rightarrow> Ret (x, s)
                                  | None \<Rightarrow> Ret (0, if timerfd s > 0 then timeout_set 0 s else s)))))"

section \<open>Commands\<close>

text \<open>
  The shape the command functions share: prepare a packet, note the opcode, send and wait.
  \<open>h5_send_cmd\<close> gives \<open>None\<close> when no packet could be prepared.
\<close>

definition h5_send_cmd ::
  "int \<Rightarrow> bytes \<Rightarrow> u16 \<Rightarrow> u32 \<Rightarrow> nat \<Rightarrow> int \<Rightarrow> rtb_struct \<Rightarrow> (int option \<times> rtb_struct) res" where
  "h5_send_cmd fd cmd opcode op msec retry s =
     rbind (h5_prepare_pkt s cmd HCI_COMMAND_PKT) (\<lambda>(nskb, s).
       case nskb of
         None \<Rightarrow> Ret (None, s)
       | Some k \<Rightarrow>
         rbind (start_transmit_wait fd (Some k) op msec retry
                  (s\<lparr>cmd_opcode := opcode, cmd_stat := CMD_STATE_UNKNOWN\<rparr>))
           (\<lambda>(r, s). Ret (Some r, s)))"

text \<open>The build defines \<open>BAUDRATE_4BYTES\<close>, so all four bytes of the rate are sent.\<close>

definition h5_vendor_change_speed :: "int \<Rightarrow> u32 \<Rightarrow> rtb_struct \<Rightarrow> (int \<times> rtb_struct) res" where
  "h5_vendor_change_speed fd baudrate s =
     rbind (h5_send_cmd fd
        [0x17, 0xfc, 4, byte 0 baudrate, byte 1 baudrate, byte 2 baudrate, byte 3 baudrate]
        HCI_VENDOR_CHANGE_BAUD OP_SET_BAUD 1000 0 s)
       (\<lambda>(r, s). case r of None \<Rightarrow> Ret (-1, s) | Some x \<Rightarrow> Ret (if x < 0 then x else 0, s))"

definition h5_hci_reset :: "int \<Rightarrow> rtb_struct \<Rightarrow> (int \<times> rtb_struct) res" where
  "h5_hci_reset fd s =
     rbind (h5_send_cmd fd [0x03, 0x0c, 0x00] HCI_CMD_RESET OP_HCI_RESET 1500 1 s)
       (\<lambda>(r, s). case r of None \<Rightarrow> Ret (-1, s) | Some x \<Rightarrow> Ret (x, s))"

definition rtb_read_chip_type :: "int \<Rightarrow> rtb_struct \<Rightarrow> rtb_struct res" where
  "rtb_read_chip_type dd s =
     rbind (h5_send_cmd dd [0x61, 0xfc, 0x05, 0x10, 0xA6, 0xAD, 0x00, 0xB0]
        HCI_VENDOR_READ_CHIP_TYPE OP_CHIP_TYPE 250 3 s)
       (\<lambda>(r, s). case r of None \<Rightarrow> Exit 1 | Some x \<Rightarrow> Ret s)"

definition rtb_read_eversion :: "int \<Rightarrow> rtb_struct \<Rightarrow> rtb_struct res" where
  "rtb_read_eversion dd s =
     rbind (h5_send_cmd dd [0x6d, 0xfc, 0x00] HCI_VENDOR_READ_ROM_VER OP_ROM_VER 500 3 s)
       (\<lambda>(r, s). case r of None \<Rightarrow> Exit 1 | Some x \<Rightarrow> Ret s)"

definition rtb_read_local_version :: "int \<Rightarrow> rtb_struct \<Rightarrow> rtb_struct res" where
  "rtb_read_local_version dd s =
     rbind (h5_send_cmd dd [0x01, 0x10, 0x00] HCI_CMD_READ_LOCAL_VER OP_LMP_VER 500 3 s)
       (\<lambda>(r, s). case r of None \<Rightarrow> Exit 1 | Some x \<Rightarrow> Ret s)"

section \<open>Link establishment\<close>

definition rtb_init_h5 :: "int \<Rightarrow> rtb_struct \<Rightarrow> (int \<times> rtb_struct) res" where
  "rtb_init_h5 fd s =
     (let s = s\<lparr>ti_cflag := ti_cflag s AND NOT CRTSCTS\<rparr>;
          s = s\<lparr>ti_cflag := ti_cflag s OR PARENB\<rparr>;
          s = s\<lparr>ti_cflag := ti_cflag s AND NOT PARODD\<rparr>
      in case do_tcsetattr s of (r, s) \<Rightarrow>
         if r < 0 then Ret (-1, s)
         else
           rbind (h5_prepare_pkt (s\<lparr>link_estab_state := H5_SYNC\<rparr>) [0x01, 0x7E] H5_LINK_CTL_PKT)
             (\<lambda>(nskb, s).
           rbind (start_transmit_wait fd nskb OP_H5_SYNC 500 10 s) (\<lambda>(result, s).
           if result < 0 then Ret (-1, s)
           else
             rbind (h5_prepare_pkt s [0x03, 0xFC, 0x14] H5_LINK_CTL_PKT) (\<lambda>(nskb, s).
             rbind (start_transmit_wait fd nskb OP_H5_CONFIG 500 10 s) (\<lambda>(result, s).
             if result < 0 then Ret (-1, s)
             else
               rbind (rtb_send_ack s) (\<lambda>s. Ret (0, s\<lparr>cmd_stat := CMD_STATE_UNKNOWN\<rparr>)))))))"

section \<open>What waiting keeps\<close>

text \<open>The part of the state no event can change.\<close>

definition link_env :: "rtb_struct \<Rightarrow> (u8 \<times> u16 \<times> int \<times> int) \<times> (int \<times> int \<times> u32 \<times> u32 \<times> int \<times> u32 \<times> int \<times> int) \<times>
  (bytes option \<times> bytes option \<times> bytes option \<times> patch_info option)" where
  "link_env s =
     ((msgq_txseq s, cmd_opcode s, serial_fd s, timerfd s),
      (tx_index s, total_num s, uart_flow_ctrl s, final_speed s, proto s, vendor_baud s, total_len s,
        ti_speed s),
      (fw_buf s, config_buf s, total_buf s, patch_ent s))"

definition link_ok ::
  "(u8 \<times> u16 \<times> int \<times> int) \<times> (int \<times> int \<times> u32 \<times> u32 \<times> int \<times> u32 \<times> int \<times> int) \<times>
   (bytes option \<times> bytes option \<times> bytes option \<times> patch_info option) \<Rightarrow> rtb_struct \<Rightarrow> bool" where
  "link_ok e s \<longleftrightarrow> h5_inv s \<and> mem_ok s \<and> link_env s = e"

lemma rx_env_link: "rx_env s' = rx_env s \<Longrightarrow> link_env s' = link_env s"
  by (simp add: rx_env_def link_env_def)

lemma link_ok_upd [simp]:
  "link_ok e (s\<lparr>epoll_q := q\<rparr>) = link_ok e s" "link_ok e (s\<lparr>timer_q := tq\<rparr>) = link_ok e s"
  "link_ok e (s\<lparr>read_q := rq\<rparr>) = link_ok e s" "link_ok e (s\<lparr>write_q := w\<rparr>) = link_ok e s"
  "link_ok e (s\<lparr>tx_log := l\<rparr>) = link_ok e s" "link_ok e (s\<lparr>tcset_q := tc\<rparr>) = link_ok e s"
  "link_ok e (s\<lparr>ti_cflag := c\<rparr>) = link_ok e s" "link_ok e (s\<lparr>cmd_stat := st\<rparr>) = link_ok e s"
  "link_ok e (s\<lparr>link_estab_state := ls\<rparr>) = link_ok e s"
  "link_ok e (timeout_set msec s) = link_ok e s"
  by (simp_all add: link_ok_def h5_inv_def rx_idle_def mem_ok_def link_env_def timeout_set_def)

lemma do_read_ok:
  "link_ok e s \<Longrightarrow> safe (do_read n s) (\<lambda>(r, bs, s'). link_ok e s' \<and> r \<le> int n \<and> length bs \<le> n)"
  by (auto simp: do_read_def split: list.splits option.splits)

lemma do_timer_read_ok: "do_timer_read s = (b, s') \<Longrightarrow> link_ok e s' = link_ok e s"
  by (auto simp: do_timer_read_def split: list.splits)

lemma do_tcsetattr_ok: "do_tcsetattr s = (r, s') \<Longrightarrow> link_ok e s' = link_ok e s"
  by (auto simp: do_tcsetattr_def split: list.splits)

lemma do_writev_ok:
  "do_writev bs s = (r, er, s') \<Longrightarrow> link_ok e s' = link_ok e s \<and> (r < 0 \<longrightarrow> 0 < er)"
  by (rule do_writev_shape [of bs s]) auto

lemma recv_ok:
  assumes "link_ok e s"
  shows "safe (h5_recv s bs) (link_ok e)"
proof -
  have "safe (h5_recv s bs) (\<lambda>s'. h5_inv s' \<and> mem_ok s')"
    using assms by (intro safe_recv) (simp_all add: link_ok_def)
  then show ?thesis
    using recv_env [of s bs] assms
    by (cases "h5_recv s bs") (auto simp: link_ok_def dest: rx_env_link)
qed

lemma serial_event_ok: "link_ok e s \<Longrightarrow> safe (serial_event n err s) (link_ok e)"
  unfolding serial_event_def
  by (auto intro!: safe_bind [OF do_read_ok] recv_ok)

section \<open>The interface of an event handler\<close>

text \<open>
  The contract the waiting loop relies on: a handler keeps the invariant, never increases the
  remaining retries, and reports only errors as values to return.
\<close>

definition ev_ok :: "(rtb_struct \<Rightarrow> bool) \<Rightarrow> int \<Rightarrow> ev_result \<Rightarrow> bool" where
  "ev_ok inva retry = (\<lambda>(r, n, s). inva s \<and> n \<le> retry \<and> (case r of None \<Rightarrow> True | Some x \<Rightarrow> x < 0))"

lemma ev_ok_simps [simp]:
  "ev_ok inva retry (None, n, s) \<longleftrightarrow> inva s \<and> n \<le> retry"
  "ev_ok inva retry (Some x, n, s) \<longleftrightarrow> inva s \<and> n \<le> retry \<and> x < 0"
  by (auto simp: ev_ok_def)

lemma safe_ev_mono:
  "safe m (ev_ok inva (n - 1)) \<Longrightarrow> safe m (ev_ok inva n)"
  by (erule safe_weaken) (auto simp: ev_ok_def)

locale event_handler =
  fixes handle :: "(int \<times> bool) list \<Rightarrow> int \<Rightarrow> rtb_struct \<Rightarrow> ev_result res"
    and inv :: "rtb_struct \<Rightarrow> bool"
  assumes handle_safe: "inv s \<Longrightarrow> safe (handle evs retry s) (ev_ok inv retry)"
    and inv_epoll: "inv (s\<lparr>epoll_q := q\<rparr>) = inv s"
begin

lemma wait_safe:
  "inv s \<Longrightarrow> safe (wait_loop handle done q retry s)
     (\<lambda>(r, s'). inv s' \<and> (case r of None \<Rightarrow> done s' | Some x \<Rightarrow> x < 0))"
proof (induction q arbitrary: retry s)
  case Nil
  then show ?case by simp
next
  case (Cons a q)
  show ?case
  proof (cases a)
    case EpollErr
    then show ?thesis by simp
  next
    case (EpollEv evs)
    have "safe (handle evs retry (s\<lparr>epoll_q := q\<rparr>)) (ev_ok inv retry)"
      by (rule handle_safe) (simp add: inv_epoll Cons.prems)
    then show ?thesis
      unfolding EpollEv wait_loop.simps
    proof (rule safe_bind)
      fix x
      assume x: "ev_ok inv retry x"
      obtain r n s' where "x = (r, n, s')" by (cases x)
      with x Cons.IH [of s' n]
      show "safe (case x of (r, retry, s) \<Rightarrow> case r of
          None \<Rightarrow> if done s then Ret (None, s) else wait_loop handle done q retry s
        | Some x \<Rightarrow> Ret (Some x, s))
        (\<lambda>(r, s'). inv s' \<and> (case r of None \<Rightarrow> done s' | Some x \<Rightarrow> x < 0))"
        by (cases r) simp_all
    qed
  qed
qed

end

lemma stw_events_ok:
  "link_ok e s \<Longrightarrow> safe (stw_events data msec evs retry s) (ev_ok (link_ok e) retry)"
proof (induction data msec evs retry s rule: stw_events.induct)
  case (1 data msec retry s)
  then show ?case by simp
next
  case (2 data msec efd err evs retry s)
  show ?case
  proof (cases "efd = serial_fd s")
    case True
    with 2 show ?thesis by (auto intro!: safe_bind2 [OF serial_event_ok])
  next
    case False
    obtain ok s1 where t: "do_timer_read s = (ok, s1)" by (cases "do_timer_read s")
    obtain r er s2 where w: "do_writev data s1 = (r, er, s2)" by (cases "do_writev data s1")
    note keep = do_timer_read_ok [OF t, of e] do_writev_ok [OF w, of e]
    show ?thesis
    proof (cases "efd = timerfd s \<and> \<not> err \<and> ok \<and> \<not> retry \<le> 0 \<and> \<not> r < 0")
      case True
      then have c: "efd = timerfd s" "\<not> err" "\<not> retry \<le> 0" "\<not> r < 0" "\<not> \<not> ok" by simp_all
      have "stw_events data msec ((efd, err) # evs) retry s = stw_events data msec evs (retry - 1) (timeout_set msec s2)"
        using c False by (simp add: t w)
      then show ?thesis
        using 2(2) [OF False c(1,2) t [symmetric] c(5,3) w [symmetric] refl c(4)] keep 2(4)
        by (simp add: safe_ev_mono)
    next
      case stop: False
      show ?thesis
      proof (cases "efd = timerfd s")
        case True
        with stop False 2(4) keep show ?thesis by (auto simp add: t w)
      next
        case False2: False
        with False 2(3) [OF False False2 2(4)] show ?thesis by simp
      qed
    qed
  qed
qed

interpretation stw: event_handler "stw_events data msec" "link_ok e" for data msec e
  by unfold_locales (simp_all add: stw_events_ok)

lemma dl_events_ok:
  "link_ok e s \<Longrightarrow> safe (dl_events dd data msec evs retry s) (ev_ok (link_ok e) retry)"
proof (induction dd data msec evs retry s rule: dl_events.induct)
  case (1 dd data msec retry s)
  then show ?case by simp
next
  case (2 dd data msec efd err evs retry s)
  show ?case
  proof (cases "efd = dd")
    case True
    with 2 show ?thesis by (auto intro!: safe_bind2 [OF serial_event_ok])
  next
    case False
    obtain ok s1 where t: "do_timer_read s = (ok, s1)" by (cases "do_timer_read s")
    obtain r er s2 where w: "do_writev data s1 = (r, er, s2)" by (cases "do_writev data s1")
    note keep = do_timer_read_ok [OF t, of e] do_writev_ok [OF w, of e]
    show ?thesis
    proof (cases "efd = timerfd s \<and> \<not> err \<and> ok \<and> \<not> retry \<le> 0 \<and> \<not> r < 0")
      case True
      then have c: "efd = timerfd s" "\<not> err" "\<not> retry \<le> 0" "\<not> r < 0" "\<not> \<not> ok" by simp_all
      have "dl_events dd data msec ((efd, err) # evs) retry s = dl_events dd data msec evs (retry - 1) (timeout_set msec s2)"
        using c False by (simp add: t w)
      then show ?thesis
        using 2(2) [OF False c(1,2) t [symmetric] c(5,3) w [symmetric] refl c(4)] keep 2(4)
        by (simp add: safe_ev_mono)
    next
      case stop: False
      show ?thesis
      proof (cases "efd = timerfd s")
        case True
        with stop False 2(4) keep show ?thesis by (auto simp add: t w)
      next
        case False2: False
        with False 2(3) [OF False False2 2(4)] show ?thesis by simp
      qed
    qed
  qed
qed

interpretation dl: event_handler "dl_events dd data msec" "link_ok e" for dd data msec e
  by unfold_locales (simp_all add: dl_events_ok)

section \<open>What the operations guarantee\<close>

lemma stw_safe:
  assumes "link_ok e s"
  shows "safe (start_transmit_wait fd skb op msec retry s)
    (\<lambda>(r, s'). link_ok e s' \<and> r \<le> 0 \<and> (r = 0 \<longrightarrow> stw_done op (op_opcode op) s'))"
proof (cases "skb = None \<or> fd = -1 \<or>
    op_is_cmd op \<and> (op_opcode op \<noteq> cmd_opcode s \<or> cmd_stat s \<noteq> CMD_STATE_UNKNOWN)")
  case True
  with assms show ?thesis
    by (auto simp: start_transmit_wait_def Let_def split: option.splits)
next
  case False
  then obtain k where k: "skb = Some k" by auto
  obtain r er s1 where w: "do_writev (skb_bytes k) s = (r, er, s1)"
    by (cases "do_writev (skb_bytes k) s")
  note w1 = do_writev_ok [OF w, of e]
  show ?thesis
  proof (cases "r < 0")
    case True
    with False k w w1 assms show ?thesis
      by (cases "op_is_cmd op") (simp_all add: start_transmit_wait_def Let_def)
  next
    case r: False
    let ?s = "if timerfd s1 > 0 then timeout_set msec s1 else s1"
    have eq: "start_transmit_wait fd skb op msec retry s =
      rbind (wait_loop (stw_events (skb_bytes k) msec) (stw_done op (op_opcode op)) (epoll_q ?s) retry ?s)
        (\<lambda>(r, s). case r of Some x \<Rightarrow> Ret (x, s) | None \<Rightarrow> Ret (0, timeout_set 0 s))"
      using False k w r
      by (cases "op_is_cmd op") (simp_all add: start_transmit_wait_def Let_def)
    have "stw_done op (op_opcode op) (timeout_set 0 s') = stw_done op (op_opcode op) s'" for s'
      by (simp add: stw_done_def timeout_set_def)
    moreover have "link_ok e ?s" using assms w1 by simp
    ultimately show ?thesis
      unfolding eq by (intro safe_bind [OF stw.wait_safe]) (auto split: option.splits)
  qed
qed

lemma prepare_ok:
  assumes "link_ok e s" and "length payload < 2 ^ 30" and "h5_reliable t = Some rel"
  shows "safe (h5_prepare_pkt s payload t) (\<lambda>(k, s'). k \<noteq> None \<and>
    link_ok (link_env (s\<lparr>msgq_txseq := (if rel then (msgq_txseq s + 1) AND 7 else msgq_txseq s)\<rparr>)) s')"
proof -
  from h5_prepare_pkt_safe [OF assms(2), of s t] obtain ko s' where
    p: "h5_prepare_pkt s payload t = Ret (ko, s')" and fr: "tx_frame s s'"
    and ko: "case ko of None \<Rightarrow> h5_reliable t = None \<or> \<not> mem_ok s | Some k \<Rightarrow> skb_fresh k" by blast
  have mem: "mem_ok s" using assms(1) by (simp add: link_ok_def)
  with ko assms(3) have some: "ko \<noteq> None" by (auto split: option.splits)
  note env = postD [OF prepare_env p, simplified]
  have "mem_ok s'" using fr mem by (simp add: tx_frame_def)
  moreover have "h5_inv s'"
    using assms(1) env h5_inv_cong [of s' s] by (simp add: link_ok_def)
  moreover have "link_env s' =
      link_env (s\<lparr>msgq_txseq := (if rel then (msgq_txseq s + 1) AND 7 else msgq_txseq s)\<rparr>)"
    using env some assms(3) by (simp add: rx_env_def link_env_def)
  ultimately show ?thesis using p some by (simp add: link_ok_def)
qed

lemma link_ok_self: "link_ok (link_env s) s \<longleftrightarrow> h5_inv s \<and> mem_ok s"
  by (simp add: link_ok_def)

lemma link_ok_cmd:
  "link_ok e s \<Longrightarrow> link_ok (link_env (s\<lparr>cmd_opcode := oc\<rparr>)) (s\<lparr>cmd_opcode := oc, cmd_stat := st\<rparr>)"
  by (simp add: link_ok_def link_env_def h5_inv_def rx_idle_def mem_ok_def)

lemma h5_reliable_cmd: "h5_reliable HCI_COMMAND_PKT = Some True"
  by (simp add: h5_reliable_def)

lemma send_cmd_ok:
  assumes "h5_inv s" and "mem_ok s" and "length cmd < 2 ^ 30"
  shows "safe (h5_send_cmd fd cmd opcode op msec retry s) (\<lambda>(r, s'). h5_inv s' \<and> mem_ok s' \<and>
    link_env s' = link_env (s\<lparr>msgq_txseq := (msgq_txseq s + 1) AND 7, cmd_opcode := opcode\<rparr>) \<and>
    (\<exists>x. r = Some x \<and> x \<le> 0 \<and> (x = 0 \<longrightarrow> stw_done op (op_opcode op) s')))"
proof -
  have ok: "link_ok (link_env s) s" using assms by (simp add: link_ok_self)
  show ?thesis
    unfolding h5_send_cmd_def
  proof (rule safe_bind [OF prepare_ok [OF ok assms(3) h5_reliable_cmd]])
    fix x :: "sk_buff option \<times> rtb_struct"
    assume x: "case x of (k, s') \<Rightarrow> k \<noteq> None \<and> link_ok (link_env (s\<lparr>msgq_txseq :=
      (if True then (msgq_txseq s + 1) AND 7 else msgq_txseq s)\<rparr>)) s'"
    obtain k :: sk_buff and s1 where k: "x = (Some k, s1)" using x by (cases x) auto
    let ?s = "s1\<lparr>cmd_opcode := opcode, cmd_stat := CMD_STATE_UNKNOWN\<rparr>"
    let ?e = "link_env (s\<lparr>msgq_txseq := (msgq_txseq s + 1) AND 7, cmd_opcode := opcode\<rparr>)"
    have "link_ok ?e ?s"
      using x k by (simp add: link_ok_def link_env_def h5_inv_def rx_idle_def mem_ok_def)
    then have "safe (rbind (start_transmit_wait fd (Some k) op msec retry ?s) (\<lambda>(r, s). Ret (Some r, s)))
      (\<lambda>(r, s'). h5_inv s' \<and> mem_ok s' \<and> link_env s' = ?e \<and>
        (\<exists>x. r = Some x \<and> x \<le> 0 \<and> (x = 0 \<longrightarrow> stw_done op (op_opcode op) s')))"
      by (intro safe_bind [OF stw_safe]) (auto simp: link_ok_def)
    with k show "safe (case x of (nskb, s) \<Rightarrow> case nskb of None \<Rightarrow> Ret (None, s)
       | Some k \<Rightarrow> rbind (start_transmit_wait fd (Some k) op msec retry
            (s\<lparr>cmd_opcode := opcode, cmd_stat := CMD_STATE_UNKNOWN\<rparr>)) (\<lambda>(r, s). Ret (Some r, s)))
      (\<lambda>(r, s'). h5_inv s' \<and> mem_ok s' \<and> link_env s' = ?e \<and>
        (\<exists>x. r = Some x \<and> x \<le> 0 \<and> (x = 0 \<longrightarrow> stw_done op (op_opcode op) s')))"
      by simp
  qed
qed

lemma op_codes [simp]:
  "op_is_cmd OP_HCI_RESET" "op_opcode OP_HCI_RESET = HCI_CMD_RESET"
  "op_is_cmd OP_SET_BAUD" "op_opcode OP_SET_BAUD = HCI_VENDOR_CHANGE_BAUD"
  "op_is_cmd OP_ROM_VER" "op_opcode OP_ROM_VER = HCI_VENDOR_READ_ROM_VER"
  "op_is_cmd OP_LMP_VER" "op_opcode OP_LMP_VER = HCI_CMD_READ_LOCAL_VER"
  "op_is_cmd OP_CHIP_TYPE" "op_opcode OP_CHIP_TYPE = HCI_VENDOR_READ_CHIP_TYPE"
  "\<not> op_is_cmd OP_H5_SYNC" "\<not> op_is_cmd OP_H5_CONFIG"
  by (simp_all add: op_opcode_def op_is_cmd_def OP_HCI_RESET_def OP_SET_BAUD_def OP_ROM_VER_def
      OP_LMP_VER_def OP_CHIP_TYPE_def OP_H5_SYNC_def OP_H5_CONFIG_def opcode_defs)

lemma stw_done_cmd: "op_is_cmd op \<Longrightarrow> stw_done op oc s \<Longrightarrow> cmd_stat s = CMD_STATE_SUCCESS"
  by (simp add: stw_done_def)

lemma stw_done_link: "stw_done OP_H5_SYNC oc s \<longleftrightarrow> link_estab_state s = H5_CONFIG"
  "stw_done OP_H5_CONFIG oc s \<longleftrightarrow> link_estab_state s = H5_INIT"
  by (simp_all add: stw_done_def) (simp_all add: OP_H5_SYNC_def OP_H5_CONFIG_def)

lemma hci_reset_ok:
  assumes "h5_inv s" and "mem_ok s"
  shows "safe (h5_hci_reset fd s) (\<lambda>(r, s'). h5_inv s' \<and> mem_ok s' \<and> r \<le> 0 \<and>
    link_env s' = link_env (s\<lparr>msgq_txseq := (msgq_txseq s + 1) AND 7, cmd_opcode := HCI_CMD_RESET\<rparr>) \<and>
    (r = 0 \<longrightarrow> cmd_stat s' = CMD_STATE_SUCCESS))"
  unfolding h5_hci_reset_def
  by (rule safe_bind [OF send_cmd_ok [OF assms]]) (auto dest: stw_done_cmd [rotated])

lemma change_speed_ok:
  assumes "h5_inv s" and "mem_ok s"
  shows "safe (h5_vendor_change_speed fd baud s) (\<lambda>(r, s'). h5_inv s' \<and> mem_ok s' \<and> r \<le> 0 \<and>
    link_env s' = link_env (s\<lparr>msgq_txseq := (msgq_txseq s + 1) AND 7,
      cmd_opcode := HCI_VENDOR_CHANGE_BAUD\<rparr>) \<and> (r = 0 \<longrightarrow> cmd_stat s' = CMD_STATE_SUCCESS))"
  unfolding h5_vendor_change_speed_def
  by (rule safe_bind [OF send_cmd_ok [OF assms]]) (auto dest: stw_done_cmd [rotated])

lemma read_cmds_ok:
  assumes "h5_inv s" and "mem_ok s"
  shows "safe (rtb_read_chip_type fd s) (\<lambda>s'. h5_inv s' \<and> mem_ok s' \<and> link_env s' =
      link_env (s\<lparr>msgq_txseq := (msgq_txseq s + 1) AND 7, cmd_opcode := HCI_VENDOR_READ_CHIP_TYPE\<rparr>))"
    and "safe (rtb_read_eversion fd s) (\<lambda>s'. h5_inv s' \<and> mem_ok s' \<and> link_env s' =
      link_env (s\<lparr>msgq_txseq := (msgq_txseq s + 1) AND 7, cmd_opcode := HCI_VENDOR_READ_ROM_VER\<rparr>))"
    and "safe (rtb_read_local_version fd s) (\<lambda>s'. h5_inv s' \<and> mem_ok s' \<and> link_env s' =
      link_env (s\<lparr>msgq_txseq := (msgq_txseq s + 1) AND 7, cmd_opcode := HCI_CMD_READ_LOCAL_VER\<rparr>))"
  unfolding rtb_read_chip_type_def rtb_read_eversion_def rtb_read_local_version_def
  by (rule safe_bind [OF send_cmd_ok [OF assms]]; auto)+

text \<open>One fragment: on success the controller has acknowledged its index.\<close>

lemma dl_command_ok:
  assumes "len \<le> 252" and "case data of None \<Rightarrow> len = 0 | Some d \<Rightarrow> len \<le> length d"
  shows "dl_command index data len = Ret ([0x20, 0xfc, of_nat (len + 1), index] @
    (case data of None \<Rightarrow> [] | Some d \<Rightarrow> take len d))"
  using assms
  by (auto simp: dl_command_def PATCH_DATA_FIELD_MAX_SIZE_def split: option.splits)

definition dl_env :: "u8 \<Rightarrow> rtb_struct \<Rightarrow> rtb_struct" where
  "dl_env index s = s\<lparr>tx_index := int (unat (index AND 0x7f)), msgq_txseq := (msgq_txseq s + 1) AND 7\<rparr>"

lemma and_7f: "index AND 0x80 = 0 \<Longrightarrow> (index :: u8) AND 0x7f = index"
proof (rule bit_eqI)
  fix k
  assume a: "index AND 0x80 = 0" and k: "possible_bit TYPE(u8) k"
  have m: "bit (0x7f :: u8) k \<longleftrightarrow> k < 7" 
  proof -
    have "(0x7f :: u8) = mask 7" by (simp add: mask_eq_exp_minus_1)
    then show ?thesis by (simp only: bit_mask_iff) auto
  qed
  have "\<not> bit index 7" using a and_bit_8(2) [of index] by blast
  then show "bit (index AND 0x7f) k = bit index k"
    using u8_bit_range [of index k] by (auto simp only: bit_and_iff m) (cases "k = 7"; simp)
qed

lemma download_patch_ok:
  assumes "h5_inv s" and "mem_ok s"
    and "len \<le> 252" and "case data of None \<Rightarrow> len = 0 | Some d \<Rightarrow> len \<le> length d"
  shows "safe (h5_download_patch dd index data len s) (\<lambda>(r, s'). h5_inv s' \<and> mem_ok s' \<and> r \<le> 0 \<and>
    link_env s' = link_env (dl_env index s) \<and> (r = 0 \<longrightarrow> rx_index s' = tx_index s'))"
proof -
  let ?s = "s\<lparr>tx_index := int (unat (if index AND 0x80 \<noteq> 0 then index AND 0x7f else index))\<rparr>"
  have idx: "?s = s\<lparr>tx_index := int (unat (index AND 0x7f))\<rparr>"
    by (simp add: and_7f)
  let ?e = "link_env (dl_env index s)"
  have ok: "link_ok (link_env ?s) ?s"
    using assms(1,2) by (simp add: link_ok_self) (simp add: h5_inv_def rx_idle_def mem_ok_def)
  let ?cmd = "[0x20, 0xfc, of_nat (len + 1), index] @ (case data of None \<Rightarrow> [] | Some d \<Rightarrow> take len d)"
  have len: "length ?cmd < 2 ^ 30" using assms(3) by (auto split: option.splits)
  have pre: "safe (h5_prepare_pkt ?s ?cmd HCI_COMMAND_PKT) (\<lambda>(k, s'). k \<noteq> None \<and> link_ok ?e s')"
  proof -
    have e: "link_env (?s\<lparr>msgq_txseq := (if True then (msgq_txseq ?s + 1) AND 7 else msgq_txseq ?s)\<rparr>) = ?e"
      unfolding idx by (simp add: dl_env_def link_env_def)
    show ?thesis using prepare_ok [OF ok len h5_reliable_cmd] unfolding e .
  qed
  have loop: "safe (rbind (wait_loop (dl_events dd bs msec) (\<lambda>s. rx_index s = tx_index s) q n s3)
      (\<lambda>(r, s). case r of Some x \<Rightarrow> Ret (x, s)
                | None \<Rightarrow> Ret (0, if timerfd s > 0 then timeout_set 0 s else s)))
      (\<lambda>(r, s'). h5_inv s' \<and> mem_ok s' \<and> r \<le> 0 \<and> link_env s' = ?e \<and> (r = 0 \<longrightarrow> rx_index s' = tx_index s'))"
    if "link_ok ?e s3" for bs msec q n s3
  proof (rule safe_bind [OF dl.wait_safe [OF that]])
    fix x :: "int option \<times> rtb_struct"
    assume x: "case x of (r, s') \<Rightarrow> link_ok ?e s' \<and>
      (case r of None \<Rightarrow> rx_index s' = tx_index s' | Some x \<Rightarrow> x < 0)"
    obtain r s4 where xs: "x = (r, s4)" by (cases x)
    have "link_ok ?e (if timerfd s4 > 0 then timeout_set 0 s4 else s4)" using x xs by simp
    moreover have "rx_index (if timerfd s4 > 0 then timeout_set 0 s4 else s4) = rx_index s4"
      "tx_index (if timerfd s4 > 0 then timeout_set 0 s4 else s4) = tx_index s4"
      by (simp_all add: timeout_set_def)
    ultimately show "safe (case x of (r, s) \<Rightarrow> case r of Some x \<Rightarrow> Ret (x, s)
          | None \<Rightarrow> Ret (0, if timerfd s > 0 then timeout_set 0 s else s))
      (\<lambda>(r, s'). h5_inv s' \<and> mem_ok s' \<and> r \<le> 0 \<and> link_env s' = ?e \<and> (r = 0 \<longrightarrow> rx_index s' = tx_index s'))"
      using x xs by (cases r) (simp_all add: link_ok_def)
  qed
  show ?thesis
    unfolding h5_download_patch_def Let_def dl_command_ok [OF assms(3,4)] rbind.simps
  proof (rule safe_bind [OF pre])
    fix x :: "sk_buff option \<times> rtb_struct"
    assume x: "case x of (k, s') \<Rightarrow> k \<noteq> None \<and> link_ok ?e s'"
    obtain k s1 where k: "x = (Some k, s1)" using x by (cases x) auto
    obtain r er s2 where w: "do_writev (skb_bytes k) s1 = (r, er, s2)"
      by (cases "do_writev (skb_bytes k) s1")
    have s2: "link_ok ?e s2" "r < 0 \<Longrightarrow> 0 < er" using do_writev_ok [OF w, of ?e] x k by auto
    obtain b s3 where f: "(if index AND 0x80 \<noteq> 0 then dl_set_flow s2 else (True, s2)) = (b, s3)"
      by (cases "if index AND 0x80 \<noteq> 0 then dl_set_flow s2 else (True, s2)")
    have s3: "link_ok ?e s3"
      using f s2 by (auto simp: dl_set_flow_def Let_def split: if_splits prod.splits dest: do_tcsetattr_ok [of _ _ _ ?e])
    have s4: "link_ok ?e (if timerfd s3 > 0 then timeout_set m s3 else s3)" for m using s3 by simp
    show "safe (case x of (nskb, s) \<Rightarrow> case nskb of None \<Rightarrow> Ret (-1, s)
       | Some k \<Rightarrow> (case do_writev (skb_bytes k) s of (ret, e, s) \<Rightarrow>
             if ret < 0 then Ret (- e, s)
             else case (if index AND 0x80 \<noteq> 0 then dl_set_flow s else (True, s)) of (ok, s) \<Rightarrow>
                 if \<not> ok then Ret (-1, s)
                 else rbind (wait_loop (dl_events dd (skb_bytes k) (if index AND 0x80 \<noteq> 0 then 1000 else 800))
                              (\<lambda>s. rx_index s = tx_index s)
                              (epoll_q (if timerfd s > 0 then timeout_set (if index AND 0x80 \<noteq> 0 then 1000 else 800) s else s)) 3
                              (if timerfd s > 0 then timeout_set (if index AND 0x80 \<noteq> 0 then 1000 else 800) s else s))
                        (\<lambda>(r, s). case r of Some x \<Rightarrow> Ret (x, s)
                                  | None \<Rightarrow> Ret (0, if timerfd s > 0 then timeout_set 0 s else s))))
      (\<lambda>(r, s'). h5_inv s' \<and> mem_ok s' \<and> r \<le> 0 \<and> link_env s' = ?e \<and> (r = 0 \<longrightarrow> rx_index s' = tx_index s'))"
      unfolding k prod.case option.case w f using s2 s3 loop [OF s4]
      by (cases "r < 0") (auto simp add: link_ok_def)
  qed
qed

lemma safe_ack:
  assumes "h5_inv s" and "mem_ok s"
  shows "safe (rtb_send_ack s) (\<lambda>s'. h5_inv s' \<and> mem_ok s' \<and> link_estab_state s' = link_estab_state s)"
proof -
  from rtb_send_ack_safe [OF assms(2)] obtain s' where r: "rtb_send_ack s = Ret s'" and f: "tx_frame s s'"
    by blast
  from f have "h5_inv s' = h5_inv s"
    by (elim tx_frameE) (simp add: h5_inv_def rx_idle_def)
  moreover from f have "mem_ok s'" using assms(2) by (simp add: tx_frame_def)
  moreover from f have "link_estab_state s' = link_estab_state s"
    by (elim tx_frameE) simp
  ultimately show ?thesis using r assms(1) by simp
qed

lemma safe_ctl:
  assumes "h5_inv s" and "mem_ok s" and "length payload < 2 ^ 30"
    and next_step: "\<And>r s'. h5_inv s' \<Longrightarrow> mem_ok s' \<Longrightarrow> r \<le> 0 \<Longrightarrow>
      (r = 0 \<Longrightarrow> stw_done op (op_opcode op) s') \<Longrightarrow> safe (f (r, s')) Q"
  shows "safe (rbind (h5_prepare_pkt s payload H5_LINK_CTL_PKT) (\<lambda>(nskb, s).
      rbind (start_transmit_wait fd nskb op msec n s) f)) Q"
proof -
  have rel: "h5_reliable H5_LINK_CTL_PKT = Some False"
    by (simp add: h5_reliable_def pkt_type_defs)
  have ok: "link_ok (link_env s) s" using assms(1,2) by (simp add: link_ok_self)
  show ?thesis
  proof (rule safe_bind [OF prepare_ok [OF ok assms(3) rel]])
    fix x :: "sk_buff option \<times> rtb_struct"
    assume x: "case x of (k, s') \<Rightarrow> k \<noteq> None \<and> link_ok (link_env (s\<lparr>msgq_txseq :=
      (if False then (msgq_txseq s + 1) AND 7 else msgq_txseq s)\<rparr>)) s'"
    obtain k s1 where k: "x = (k, s1)" by (cases x)
    with x have "link_ok (link_env s1) s1" by (simp add: link_ok_def)
    then have "safe (rbind (start_transmit_wait fd k op msec n s1) f) Q"
      by (intro safe_bind [OF stw_safe]) (auto simp: link_ok_def intro!: next_step)
    with k show "safe (case x of (nskb, s) \<Rightarrow> rbind (start_transmit_wait fd nskb op msec n s) f) Q"
      by simp
  qed
qed

section \<open>Properties\<close>

lemma init_h5_safe:
  assumes "h5_inv s" and "mem_ok s"
  shows "safe (rtb_init_h5 fd s) (\<lambda>(r, s'). h5_inv s' \<and> mem_ok s' \<and>
    (r = 0 \<longrightarrow> link_estab_state s' = H5_INIT))"
proof -
  have upd: "h5_inv (s\<lparr>ti_cflag := c\<rparr>) \<and> mem_ok (s\<lparr>ti_cflag := c\<rparr>)"
    "h5_inv (s'\<lparr>link_estab_state := l\<rparr>) = h5_inv s'" "mem_ok (s'\<lparr>link_estab_state := l\<rparr>) = mem_ok s'"
    "h5_inv (s'\<lparr>cmd_stat := x\<rparr>) = h5_inv s'" "mem_ok (s'\<lparr>cmd_stat := x\<rparr>) = mem_ok s'" for c l x s'
    using assms by (simp_all add: h5_inv_def rx_idle_def mem_ok_def)
  have tc: "h5_inv s' \<and> mem_ok s'" if "do_tcsetattr s0 = (r, s')" "h5_inv s0" "mem_ok s0" for s0 r s'
    using do_tcsetattr_ok [OF that(1), of "link_env s0"] that(2,3) by (simp add: link_ok_def)
  have fin: "safe (rbind (rtb_send_ack s) (\<lambda>s. Ret (0, s\<lparr>cmd_stat := CMD_STATE_UNKNOWN\<rparr>)))
      (\<lambda>(r, s'). h5_inv s' \<and> mem_ok s' \<and> (r = 0 \<longrightarrow> link_estab_state s' = H5_INIT))"
    if "h5_inv s" "mem_ok s" "link_estab_state s = H5_INIT" for s
    by (rule safe_bind [OF safe_ack]) (use that in \<open>auto simp: upd\<close>)
  show ?thesis
    unfolding rtb_init_h5_def Let_def
    by (auto split: prod.splits simp: upd stw_done_link dest!: tc
        intro!: safe_ctl safe_if fin)
qed

text \<open>
  Link establishment under every behaviour of the line and the controller: from a
  state satisfying the receiver's invariant and with memory available, \<open>rtb_init_h5\<close> never
  performs an invalid access, keeps the invariant, and reports success only when the link has
  really reached the state \<open>H5_INIT\<close>.
\<close>

theorem rtb_init_h5_sound:
  assumes "h5_inv s" and "mem_ok s"
  shows "safe (rtb_init_h5 fd s) (\<lambda>(r, s'). h5_inv s' \<and> mem_ok s' \<and>
    (r = 0 \<longrightarrow> link_estab_state s' = H5_INIT))"
  by (rule init_h5_safe [OF assms])

lemma rtb_init_h5_sound_witness:
  "safe (rtb_init_h5 3 (rtb_cfg\<lparr>epoll_q := [EpollEv [(0, False)], EpollErr]\<rparr>))
     (\<lambda>(r, s'). h5_inv s' \<and> mem_ok s' \<and> (r = 0 \<longrightarrow> link_estab_state s' = H5_INIT))"
  by (rule rtb_init_h5_sound) (simp_all add: h5_inv_def rx_idle_def mem_ok_def)



end
