(* ===== verification/H5_Handshake.thy ===== *)
theory H5_Handshake
  imports H5_Link
begin

text \<open>
  Link establishment over a lossy line: what \<open>rtb_init_h5\<close> of hciattach_rtk.c does when the
  controller answers the sync and the configuration message after any number of lost
  transmissions.
\<close>

section \<open>A packet that is not lost\<close>

lemma h5_hdr_type:
  assumes "t < 16"
  shows "h5_hdr ack seq rel c n t ! 1 AND 0x0f = t"
proof -
  let ?n = "of_nat n :: u32"
  have m: "bit (0x0f :: u8) k \<longleftrightarrow> k < 4" for k
  proof -
    have "(0x0f :: u8) = mask 4" by (simp add: mask_eq_exp_minus_1)
    then show ?thesis by (simp only: bit_mask_iff) auto
  qed
  have "(ucast (push_bit 4 ?n AND 0xff) OR t) AND 0x0f = t"
  proof (rule bit_eqI)
    fix k
    show "bit ((ucast (push_bit 4 ?n AND 0xff) OR t) AND 0x0f) k = bit t k"
      using u8_below_16 [OF assms, of k]
      by (simp only: bit_and_iff bit_or_iff ucast_and_ff bit_ucast_iff bit_push_bit_iff m) auto
  qed
  then show ?thesis by (simp add: h5_hdr_def Let_def)
qed

lemma nth_hdr: "length hdr = 4 \<Longrightarrow> i < 4 \<Longrightarrow> (hdr @ payload) ! i = hdr ! i"
  by (simp add: nth_append)

lemma complete_pulled:
  assumes skb: "rx_skb g = Skb k" "rx_buf k" "skb_bytes k = hdr @ payload" and "length hdr = 4"
    and handler: "hdr ! 1 AND 0x0f = H5_LINK_CTL_PKT \<and> f = h5_handle_internal_rx \<or>
      hdr ! 1 AND 0x0f = HCI_EVENT_PKT \<and> f = hci_recv_frame"
  shows "\<exists>k'. skb_wf k' \<and> skb_bytes k' = payload \<and> unat (data_len k') = length payload \<and>
    h5_complete_rx_pkt g = rbind (f ((rx_note_hdr g (hdr ! 0))\<lparr>rx_skb := Skb k'\<rparr>)) rx_finish"
proof -
  have wf: "skb_wf k" using skb(2) by (simp add: rx_bufD)
  then have len: "unat (data_len k) = 4 + length payload"
    using length_skb_bytes [OF wf] skb(3) assms(4) by simp
  have get: "sk_get k i = Ret (hdr ! i)" if "i < 4" for i
    using sk_get_bytes [OF wf, of i] len that skb(3) assms(4) by (simp add: nth_append)
  have "(4 :: u32) \<le> data_len k" using len by (simp add: word_le_nat_alt)
  from skb_pull_wf [OF wf this] obtain k' where k': "skb_pull k 4 = Ret k'" "skb_wf k'"
    "skb_bytes k' = payload" "unat (data_len k') = length payload"
    using skb(3) assms(4) len by auto
  have "h5_complete_rx_pkt g = rbind (f ((rx_note_hdr g (hdr ! 0))\<lparr>rx_skb := Skb k'\<rparr>)) rx_finish"
    using handler k'(1)
    by (auto simp: h5_complete_rx_pkt_def with_skb_def skb(1) get rx_dispatch_def Let_def
        pkt_type_defs)
  with k' show ?thesis by blast
qed

text \<open>A link-control frame, as the controller sends it.\<close>

definition ctl_frame :: "u8 \<Rightarrow> bytes \<Rightarrow> bytes" where
  "ctl_frame ack payload = h5_frame False (h5_hdr ack 0 False False (length payload) H5_LINK_CTL_PKT) payload"

lemma link_ctl_lt: "H5_LINK_CTL_PKT < 16"
  by (simp add: pkt_type_defs)

lemma rx_note_unreliable:
  "ack < 8 \<Longrightarrow> rx_note_hdr g (h5_hdr ack 0 False c n t ! 0) =
     g\<lparr>rxack := drop_bit 3 (h5_hdr ack 0 False c n t ! 0) AND 0x07\<rparr>"
proof -
  assume "ack < 8"
  then have "h5_hdr ack 0 False c n t ! 0 AND 0x80 = 0"
    using h5_hdr_flags(2) [of ack 0 False c n t] by simp
  then have "\<not> bit (h5_hdr ack 0 False c n t ! 0) 7"
    using and_bit_8(2) by blast
  then have "\<not> odd (drop_bit 7 (h5_hdr ack 0 False c n t ! 0))"
    unfolding bit_0 [symmetric] by (simp only: bit_drop_bit_eq o_apply add_0_right not_False_eq_True)
  then have "drop_bit 7 (h5_hdr ack 0 False c n t ! 0) AND 0x01 = 0"
    unfolding and_one_eq by (simp add: even_iff_mod_2_eq_zero)
  then show ?thesis by (simp add: rx_note_hdr_def Let_def)
qed

lemma recv_ctl:
  assumes idle: "h5_inv s" "rx_idle s" "mem_ok s" and ack: "ack < 8"
    and len: "length payload \<le> 4095"
  shows "\<exists>k g. skb_wf k \<and> skb_bytes k = payload \<and> unat (data_len k) = length payload \<and> mem_ok g \<and>
    rx_env g = rx_env s \<and> write_q g = write_q s \<and> tx_log g = tx_log s \<and> rx_skb g = Skb k \<and>
    rx_count g = 0 \<and> link_estab_state g = link_estab_state s \<and> is_txack_req g = is_txack_req s \<and>
    use_crc g = use_crc s \<and> rxseq_txack g = rxseq_txack s \<and>
    h5_recv s (ctl_frame ack payload) = rbind (h5_handle_internal_rx g)
      (\<lambda>h. rbind (rx_finish h) (\<lambda>h. Ret (h\<lparr>rx_state := H5_W4_PKT_START\<rparr>)))"
proof -
  let ?hdr = "h5_hdr ack 0 False False (length payload) H5_LINK_CTL_PKT"
  have ok: "h5_hdr_ok s ?hdr (length payload)"
    by (rule h5_hdr_accepted) (use ack len link_ctl_lt in auto)
  have flag: "\<not> (?hdr ! 0 AND 0x40 \<noteq> 0)"
    using h5_hdr_flags(1) [OF ack, of 0 False False] by simp
  from recv_deliver [OF idle ok] flag obtain k q st crc where
    k: "rx_buf k" "skb_bytes k = ?hdr @ payload" "list_all (\<lambda>ok. ok) q"
    and r: "h5_recv s (ctl_frame ack payload) = rbind (h5_complete_rx_pkt (rx_got s q st crc k))
      (\<lambda>h. Ret (h\<lparr>rx_state := H5_W4_PKT_START\<rparr>))"
    by (auto simp: ctl_frame_def)
  have g: "rx_skb (rx_got s q st crc k) = Skb k" by (simp add: rx_got_def)
  from complete_pulled [OF g k(1,2) length_h5_hdr, of h5_handle_internal_rx] obtain k' where
    k': "skb_wf k'" "skb_bytes k' = payload" "unat (data_len k') = length payload"
    and c: "h5_complete_rx_pkt (rx_got s q st crc k) =
      rbind (h5_handle_internal_rx ((rx_note_hdr (rx_got s q st crc k) (?hdr ! 0))\<lparr>rx_skb := Skb k'\<rparr>)) rx_finish"
    using h5_hdr_type [OF link_ctl_lt] by auto
  show ?thesis
    by (rule exI [of _ k'], rule exI [of _ "(rx_note_hdr (rx_got s q st crc k) (?hdr ! 0))\<lparr>rx_skb := Skb k'\<rparr>"])
      (use k' k r c in \<open>simp add: rx_note_unreliable [OF ack] rbind_assoc rx_got_def mem_ok_def\<close>)
qed

lemma finish_quiet:
  assumes "is_txack_req h = 0" and "rx_skb h = Skb k"
  shows "rx_finish h = Ret (h\<lparr>rx_state := H5_W4_PKT_DELIMITER, rx_skb := Null\<rparr>)"
  using assms by (simp add: rx_finish_def)

text \<open>The two answers of the controller.\<close>

definition quiet :: "rtb_struct \<Rightarrow> bool" where
  "quiet s \<longleftrightarrow> h5_inv s \<and> rx_idle s \<and> mem_ok s \<and> is_txack_req s = 0 \<and> write_q s = []"

lemma recv_sync_resp:
  assumes "quiet s" and "link_estab_state s = H5_SYNC" and "ack < 8"
  shows "\<exists>h. h5_recv s (ctl_frame ack [0x02, 0x7D]) = Ret h \<and> quiet h \<and> rx_env h = rx_env s \<and>
    tx_log h = tx_log s \<and> link_estab_state h = H5_CONFIG \<and> use_crc h = use_crc s \<and>
    rxseq_txack h = rxseq_txack s"
proof -
  from assms have q: "h5_inv s" "rx_idle s" "mem_ok s" "is_txack_req s = 0" "write_q s = []"
    by (simp_all add: quiet_def)
  from recv_ctl [OF q(1-3) assms(3), of "[0x02, 0x7D]"] obtain k g where
    k: "skb_wf k" "skb_bytes k = [0x02, 0x7D]" "unat (data_len k) = 2"
    and g: "mem_ok g" "rx_env g = rx_env s" "write_q g = write_q s" "tx_log g = tx_log s"
      "rx_skb g = Skb k" "rx_count g = 0" "link_estab_state g = H5_SYNC"
      "is_txack_req g = 0" "use_crc g = use_crc s" "rxseq_txack g = rxseq_txack s"
    and r: "h5_recv s (ctl_frame ack [0x02, 0x7D]) = rbind (h5_handle_internal_rx g)
      (\<lambda>h. rbind (rx_finish h) (\<lambda>h. Ret (h\<lparr>rx_state := H5_W4_PKT_START\<rparr>)))"
    using assms(2) q by auto
  have "h5_handle_internal_rx g = Ret (g\<lparr>link_estab_state := H5_CONFIG\<rparr>)"
    using sk_get_bytes [OF k(1), of 0] sk_get_bytes [OF k(1), of 1] k(2,3) g
    by (simp add: h5_handle_internal_rx_def with_skb_def)
  with r g show ?thesis
    by (simp add: finish_quiet quiet_def h5_inv_def rx_idle_def mem_ok_def q)
qed

lemma recv_conf_resp:
  assumes "quiet s" and "link_estab_state s = H5_CONFIG" and "ack < 8"
  shows "\<exists>h. h5_recv s (ctl_frame ack [0x04, 0x7B, cfg]) = Ret h \<and> quiet h \<and> rx_env h = rx_env s \<and>
    tx_log h = tx_log s \<and> link_estab_state h = H5_INIT \<and> use_crc h = drop_bit 4 cfg AND 0x01 \<and>
    rxseq_txack h = rxseq_txack s"
proof -
  from assms have q: "h5_inv s" "rx_idle s" "mem_ok s" "is_txack_req s = 0" "write_q s = []"
    by (simp_all add: quiet_def)
  from recv_ctl [OF q(1-3) assms(3), of "[0x04, 0x7B, cfg]"] obtain k g where
    k: "skb_wf k" "skb_bytes k = [0x04, 0x7B, cfg]" "unat (data_len k) = 3"
    and g: "mem_ok g" "rx_env g = rx_env s" "write_q g = write_q s" "tx_log g = tx_log s"
      "rx_skb g = Skb k" "rx_count g = 0" "link_estab_state g = H5_CONFIG"
      "is_txack_req g = 0" "use_crc g = use_crc s" "rxseq_txack g = rxseq_txack s"
    and r: "h5_recv s (ctl_frame ack [0x04, 0x7B, cfg]) = rbind (h5_handle_internal_rx g)
      (\<lambda>h. rbind (rx_finish h) (\<lambda>h. Ret (h\<lparr>rx_state := H5_W4_PKT_START\<rparr>)))"
    using assms(2) q by auto
  have "2 < data_len k" using k(3) by (simp add: word_less_nat_alt)
  then have "h5_handle_internal_rx g =
      Ret (g\<lparr>link_estab_state := H5_INIT, use_crc := drop_bit 4 cfg AND 0x01\<rparr>)"
    using sk_get_bytes [OF k(1), of 0] sk_get_bytes [OF k(1), of 1] sk_get_bytes [OF k(1), of 2]
      k(2,3) g
    by (simp add: h5_handle_internal_rx_def with_skb_def Let_def)
  with r g show ?thesis
    by (simp add: finish_quiet quiet_def h5_inv_def rx_idle_def mem_ok_def q)
qed

section \<open>Waiting on a lossy line\<close>

lemma stw_done_upd [simp]:
  "stw_done op oc (s\<lparr>tx_log := l\<rparr>) = stw_done op oc s"
  "stw_done op oc (s\<lparr>epoll_q := e\<rparr>) = stw_done op oc s"
  "stw_done op oc (s\<lparr>armed_msec := a\<rparr>) = stw_done op oc s"
  by (simp_all add: stw_done_def)

text \<open>\<open>k\<close> timeouts, each answered by a retransmission, use up \<open>k\<close> retries.\<close>

lemma stw_lost:
  assumes "write_q s = []" and "timer_q s = []" and "timerfd s \<noteq> serial_fd s"
    and "\<not> stw_done op oc s" and "int k \<le> n"
  shows "\<exists>a e. wait_loop (stw_events data msec) (stw_done op oc)
      (replicate k (EpollEv [(timerfd s, False)]) @ q) n s =
    wait_loop (stw_events data msec) (stw_done op oc) q (n - int k)
      (s\<lparr>tx_log := tx_log s @ replicate k data, armed_msec := a, epoll_q := e\<rparr>)"
  using assms
proof (induction k arbitrary: s n)
  case 0
  have "s\<lparr>tx_log := tx_log s @ replicate 0 data, armed_msec := armed_msec s, epoll_q := epoll_q s\<rparr> = s"
    by (cases s) simp
  then show ?case by (intro exI [of _ "armed_msec s"] exI [of _ "epoll_q s"]) simp
next
  case (Suc k)
  let ?rest = "replicate k (EpollEv [(timerfd s, False)]) @ q"
  let ?s = "s\<lparr>epoll_q := ?rest, tx_log := tx_log s @ [data], armed_msec := msec\<rparr>"
  have ev: "stw_events data msec [(timerfd s, False)] n (s\<lparr>epoll_q := ?rest\<rparr>) = Ret (None, n - 1, ?s)"
    using Suc.prems by (simp add: do_timer_read_def timeout_set_def)
  have nd: "\<not> stw_done op oc ?s" using Suc.prems(4) by simp
  from Suc.IH [of ?s "n - 1"] Suc.prems nd obtain a e where
    "wait_loop (stw_events data msec) (stw_done op oc) ?rest (n - 1) ?s =
      wait_loop (stw_events data msec) (stw_done op oc) q (n - 1 - int k)
      (?s\<lparr>tx_log := tx_log ?s @ replicate k data, armed_msec := a, epoll_q := e\<rparr>)" by auto
  with ev nd show ?case by (intro exI [of _ a] exI [of _ e]) (simp add: algebra_simps)
qed

lemma stw_exhausted:
  assumes "write_q s = []" and "timer_q s = []" and "timerfd s \<noteq> serial_fd s"
    and "\<not> stw_done op oc s"
  shows "wait_loop (stw_events data msec) (stw_done op oc)
      (replicate (Suc n) (EpollEv [(timerfd s, False)]) @ q) (int n) s = Exit 1"
proof -
  let ?t = "EpollEv [(timerfd s, False)]"
  from stw_lost [OF assms, of n "int n" data msec "?t # q"] obtain a e where
    "wait_loop (stw_events data msec) (stw_done op oc) (replicate n ?t @ ?t # q) (int n) s =
      wait_loop (stw_events data msec) (stw_done op oc) (?t # q) 0
        (s\<lparr>tx_log := tx_log s @ replicate n data, armed_msec := a, epoll_q := e\<rparr>)" by auto
  also have "\<dots> = Exit 1" using assms by (simp add: do_timer_read_def)
  finally show ?thesis by (simp add: replicate_app_Cons_same)
qed

lemma stw_lossy:
  assumes s: "write_q s = []" "timer_q s = []" "0 < timerfd s" "timerfd s \<noteq> serial_fd s"
    and fd: "fd \<noteq> -1" and op: "\<not> op_is_cmd op" "\<not> stw_done op 0 s"
    and q: "epoll_q s = replicate k (EpollEv [(timerfd s, False)]) @ EpollEv [(serial_fd s, False)] # q"
    and rq: "read_q s = Some bs # rq" "bs \<noteq> []" "length bs \<le> 128" and k: "int k \<le> n"
    and recv: "\<And>a. \<exists>h. h5_recv (s\<lparr>tx_log := tx_log s @ replicate (Suc k) (skb_bytes p), armed_msec := a,
      epoll_q := q, read_q := rq\<rparr>) bs = Ret h \<and> stw_done op 0 h \<and> P h"
  shows "\<exists>h. start_transmit_wait fd (Some p) op msec n s = Ret (0, timeout_set 0 h) \<and> P h"
proof -
  let ?d = "skb_bytes p"
  let ?s = "s\<lparr>tx_log := tx_log s @ [?d], armed_msec := msec\<rparr>"
  have nd: "\<not> stw_done op 0 ?s" using op(2) by simp
  from stw_lost [of ?s op 0 k n ?d msec "EpollEv [(serial_fd s, False)] # q"] s nd k
  obtain a e where w: "wait_loop (stw_events ?d msec) (stw_done op 0) (epoll_q s) n ?s =
      wait_loop (stw_events ?d msec) (stw_done op 0) (EpollEv [(serial_fd s, False)] # q) (n - int k)
      (?s\<lparr>tx_log := tx_log ?s @ replicate k ?d, armed_msec := a, epoll_q := e\<rparr>)" by (auto simp: q)
  let ?t = "?s\<lparr>tx_log := tx_log ?s @ replicate k ?d, armed_msec := a, epoll_q := e\<rparr>"
  from recv [of a] obtain h where
    h: "h5_recv (s\<lparr>tx_log := tx_log s @ replicate (Suc k) ?d, armed_msec := a, epoll_q := q, read_q := rq\<rparr>) bs = Ret h"
      "stw_done op 0 h" "P h" by blast
  have "?t\<lparr>epoll_q := q, read_q := rq\<rparr> =
      s\<lparr>tx_log := tx_log s @ replicate (Suc k) ?d, armed_msec := a, epoll_q := q, read_q := rq\<rparr>"
    by simp
  with h(1) have r: "h5_recv (?t\<lparr>epoll_q := q, read_q := rq\<rparr>) bs = Ret h" by (simp only:)
  have "serial_event 128 False (?t\<lparr>epoll_q := q\<rparr>) = Ret h"
    using r rq by (simp add: serial_event_def do_read_def)
  then have "wait_loop (stw_events ?d msec) (stw_done op 0) (EpollEv [(serial_fd s, False)] # q) (n - int k) ?t =
      Ret (None, h)"
    using h(2) by simp
  with w have w': "wait_loop (stw_events ?d msec) (stw_done op 0) (epoll_q s) n ?s = Ret (None, h)"
    by (simp only:)
  have "start_transmit_wait fd (Some p) op msec n s = Ret (0, timeout_set 0 h)"
    using s op fd by (simp add: start_transmit_wait_def op_opcode_def timeout_set_def Let_def w')
  with h(3) show ?thesis by blast
qed

section \<open>The handshake\<close>

lemma h5_hdr_unrel: "h5_hdr ack seq False c n t = h5_hdr ack 0 False c n t"
  by (simp add: h5_hdr_def)

lemma quiet_upd [simp]:
  "quiet (s\<lparr>tx_log := l\<rparr>) = quiet s" "quiet (s\<lparr>epoll_q := e\<rparr>) = quiet s"
  "quiet (s\<lparr>read_q := r\<rparr>) = quiet s" "quiet (s\<lparr>armed_msec := a\<rparr>) = quiet s"
  "quiet (s\<lparr>link_estab_state := ls\<rparr>) = quiet s" "quiet (s\<lparr>ti_cflag := c\<rparr>) = quiet s"
  by (simp_all add: quiet_def h5_inv_def rx_idle_def mem_ok_def)

lemma prepare_ctl:
  assumes "quiet s" and "length payload \<le> 4095" and "t = H5_LINK_CTL_PKT \<or> t = H5_ACK_PKT"
  shows "\<exists>p q. h5_prepare_pkt s payload t = Ret (Some p, s\<lparr>malloc_q := q\<rparr>) \<and> quiet (s\<lparr>malloc_q := q\<rparr>) \<and>
    skb_bytes p = h5_frame (use_crc s \<noteq> 0)
      (h5_hdr (rxseq_txack s) 0 False (use_crc s \<noteq> 0) (length payload) t) payload"
proof -
  from assms(1) have mem: "mem_ok s" by (simp add: quiet_def)
  from do_malloc_ok [OF mem] obtain q where m: "do_malloc s = (True, s\<lparr>malloc_q := q\<rparr>)"
    and q: "list_all (\<lambda>ok. ok) q" .
  have rel: "h5_reliable t = Some False" using assms(3) by (auto simp: h5_reliable_def pkt_type_defs)
  have len: "length payload < 2 ^ 30" using assms(2) by simp
  have "h5_tx_state (s\<lparr>malloc_q := q\<rparr>) False = s\<lparr>malloc_q := q\<rparr>"
    using assms(1) by (cases s) (simp add: h5_tx_state_def quiet_def)
  moreover have "quiet (s\<lparr>malloc_q := q\<rparr>)"
    using assms(1) q by (simp add: quiet_def h5_inv_def rx_idle_def mem_ok_def)
  ultimately show ?thesis
    using h5_prepare_pkt_frame [OF rel len m] by (auto simp: h5_hdr_unrel [of _ "msgq_txseq s"])
qed

lemma length_ctl_frame: "length payload \<le> 3 \<Longrightarrow> length (ctl_frame a payload) \<le> 128"
  using length_slip [of "h5_hdr a 0 False False (length payload) H5_LINK_CTL_PKT @ payload"]
  by (simp add: ctl_frame_def h5_frame_def h5_body_def)

lemma ctl_frame_ne [simp]: "ctl_frame a payload \<noteq> []"
  by (simp add: ctl_frame_def h5_frame_def)

definition lost :: "rtb_struct \<Rightarrow> nat \<Rightarrow> epoll_ans list" where
  "lost s k = replicate k (EpollEv [(timerfd s, False)])"

definition arrives :: "rtb_struct \<Rightarrow> epoll_ans" where
  "arrives s = EpollEv [(serial_fd s, False)]"

lemma stw_sync:
  assumes s: "quiet s" "timer_q s = []" "0 < timerfd s" "timerfd s \<noteq> serial_fd s" "fd \<noteq> -1"
    "link_estab_state s = H5_SYNC" "ack < 8" "k \<le> 10"
    and q: "epoll_q s = lost s k @ arrives s # q" "read_q s = Some (ctl_frame ack [0x02, 0x7D]) # rq"
  shows "\<exists>h. start_transmit_wait fd (Some p) OP_H5_SYNC msec 10 s = Ret (0, timeout_set 0 h) \<and>
    quiet h \<and> link_estab_state h = H5_CONFIG \<and> timer_q h = [] \<and> timerfd h = timerfd s \<and>
    serial_fd h = serial_fd s \<and> epoll_q h = q \<and> read_q h = rq \<and> use_crc h = use_crc s \<and>
    rxseq_txack h = rxseq_txack s \<and> tx_log h = tx_log s @ replicate (Suc k) (skb_bytes p)"
proof (rule stw_lossy)
  show "length (ctl_frame ack [0x02, 0x7D]) \<le> 128" by (rule length_ctl_frame) simp
  fix a
  let ?h = "s\<lparr>tx_log := tx_log s @ replicate (Suc k) (skb_bytes p), armed_msec := a,
      epoll_q := q, read_q := rq\<rparr>"
  have "quiet ?h" "link_estab_state ?h = H5_SYNC" using s by simp_all
  from recv_sync_resp [OF this s(7)]
  show "\<exists>h. h5_recv ?h (ctl_frame ack [0x02, 0x7D]) = Ret h \<and> stw_done OP_H5_SYNC 0 h \<and>
    (quiet h \<and> link_estab_state h = H5_CONFIG \<and> timer_q h = [] \<and> timerfd h = timerfd s \<and>
    serial_fd h = serial_fd s \<and> epoll_q h = q \<and> read_q h = rq \<and> use_crc h = use_crc s \<and>
    rxseq_txack h = rxseq_txack s \<and> tx_log h = tx_log s @ replicate (Suc k) (skb_bytes p))"
    using s(2) by (auto simp: stw_done_link rx_env_def)
qed (use s q in \<open>simp_all add: quiet_def stw_done_link lost_def arrives_def\<close>)

lemma stw_conf:
  assumes s: "quiet s" "timer_q s = []" "0 < timerfd s" "timerfd s \<noteq> serial_fd s" "fd \<noteq> -1"
    "link_estab_state s = H5_CONFIG" "ack < 8" "k \<le> 10"
    and q: "epoll_q s = lost s k @ arrives s # q" "read_q s = Some (ctl_frame ack [0x04, 0x7B, cfg]) # rq"
  shows "\<exists>h. start_transmit_wait fd (Some p) OP_H5_CONFIG msec 10 s = Ret (0, timeout_set 0 h) \<and>
    quiet h \<and> link_estab_state h = H5_INIT \<and> use_crc h = drop_bit 4 cfg AND 0x01 \<and>
    rxseq_txack h = rxseq_txack s \<and> tx_log h = tx_log s @ replicate (Suc k) (skb_bytes p)"
proof (rule stw_lossy)
  show "length (ctl_frame ack [0x04, 0x7B, cfg]) \<le> 128" by (rule length_ctl_frame) simp
  fix a
  let ?h = "s\<lparr>tx_log := tx_log s @ replicate (Suc k) (skb_bytes p), armed_msec := a,
      epoll_q := q, read_q := rq\<rparr>"
  have "quiet ?h" "link_estab_state ?h = H5_CONFIG" using s by simp_all
  from recv_conf_resp [OF this s(7), of cfg]
  show "\<exists>h. h5_recv ?h (ctl_frame ack [0x04, 0x7B, cfg]) = Ret h \<and> stw_done OP_H5_CONFIG 0 h \<and>
    (quiet h \<and> link_estab_state h = H5_INIT \<and> use_crc h = drop_bit 4 cfg AND 0x01 \<and>
    rxseq_txack h = rxseq_txack s \<and> tx_log h = tx_log s @ replicate (Suc k) (skb_bytes p))"
    by (auto simp: stw_done_link)
qed (use s q in \<open>simp_all add: quiet_def stw_done_link lost_def arrives_def\<close>)

text \<open>The frames the host sends.\<close>

definition host_frame :: "rtb_struct \<Rightarrow> u8 \<Rightarrow> u8 \<Rightarrow> bytes \<Rightarrow> bytes" where
  "host_frame s crc t payload =
     h5_frame (crc \<noteq> 0) (h5_hdr (rxseq_txack s) 0 False (crc \<noteq> 0) (length payload) t) payload"

definition init_flags :: "u32 \<Rightarrow> u32" where
  "init_flags c = ((c AND NOT CRTSCTS) OR PARENB) AND NOT PARODD"

lemma quiet_timeout [simp]: "quiet (timeout_set m s) = quiet s"
  by (simp add: timeout_set_def)

lemma timeout_fields [simp]:
  "link_estab_state (timeout_set m s) = link_estab_state s" "timer_q (timeout_set m s) = timer_q s"
  "timerfd (timeout_set m s) = timerfd s" "serial_fd (timeout_set m s) = serial_fd s"
  "epoll_q (timeout_set m s) = epoll_q s" "read_q (timeout_set m s) = read_q s"
  "use_crc (timeout_set m s) = use_crc s" "rxseq_txack (timeout_set m s) = rxseq_txack s"
  "tx_log (timeout_set m s) = tx_log s" "write_q (timeout_set m s) = write_q s"
  by (simp_all add: timeout_set_def)

lemma send_ack_quiet:
  assumes "quiet s"
  shows "\<exists>s'. rtb_send_ack s = Ret s' \<and> tx_log s' = tx_log s @ [host_frame s (use_crc s) H5_ACK_PKT []] \<and>
    link_estab_state s' = link_estab_state s \<and> use_crc s' = use_crc s \<and> armed_msec s' = armed_msec s"
proof -
  from prepare_ctl [OF assms, of "[]" H5_ACK_PKT] obtain p q where
    p: "h5_prepare_pkt s [] H5_ACK_PKT = Ret (Some p, s\<lparr>malloc_q := q\<rparr>)"
    and b: "skb_bytes p = host_frame s (use_crc s) H5_ACK_PKT []"
    by (auto simp: host_frame_def)
  have "write_q (s\<lparr>malloc_q := q\<rparr>) = []" using assms by (simp add: quiet_def)
  then show ?thesis using p b by (simp add: rtb_send_ack_def)
qed

lemma init_h5_sync:
  assumes s: "quiet s" "timer_q s = []" "tcset_q s = []" "0 < timerfd s" "timerfd s \<noteq> serial_fd s"
    "fd \<noteq> -1"
  shows "\<exists>p s1. skb_bytes p = host_frame s (use_crc s) H5_LINK_CTL_PKT [0x01, 0x7E] \<and>
    h5_prepare_pkt (s\<lparr>ti_cflag := init_flags (ti_cflag s), link_estab_state := H5_SYNC\<rparr>)
      [0x01, 0x7E] H5_LINK_CTL_PKT = Ret (Some p, s1) \<and>
    quiet s1 \<and> timer_q s1 = [] \<and> timerfd s1 = timerfd s \<and> serial_fd s1 = serial_fd s \<and>
    link_estab_state s1 = H5_SYNC \<and> epoll_q s1 = epoll_q s \<and> read_q s1 = read_q s \<and>
    use_crc s1 = use_crc s \<and> rxseq_txack s1 = rxseq_txack s \<and> tx_log s1 = tx_log s"
proof -
  let ?s = "s\<lparr>ti_cflag := init_flags (ti_cflag s), link_estab_state := H5_SYNC\<rparr>"
  have "quiet ?s" using s by simp
  from prepare_ctl [OF this, of "[0x01, 0x7E]" H5_LINK_CTL_PKT] obtain p q where
    "h5_prepare_pkt ?s [0x01, 0x7E] H5_LINK_CTL_PKT = Ret (Some p, ?s\<lparr>malloc_q := q\<rparr>)"
    "quiet (?s\<lparr>malloc_q := q\<rparr>)" "skb_bytes p = host_frame s (use_crc s) H5_LINK_CTL_PKT [0x01, 0x7E]"
    by (auto simp: host_frame_def)
  then show ?thesis using s by (intro exI [of _ p] exI [of _ "?s\<lparr>malloc_q := q\<rparr>"]) simp
qed

lemma rtb_init_h5_eq:
  assumes "tcset_q s = []"
    and "h5_prepare_pkt (s\<lparr>ti_cflag := init_flags (ti_cflag s), link_estab_state := H5_SYNC\<rparr>)
      [0x01, 0x7E] H5_LINK_CTL_PKT = Ret (Some p, s1)"
  shows "rtb_init_h5 fd s =
     rbind (start_transmit_wait fd (Some p) OP_H5_SYNC 500 10 s1) (\<lambda>(result, s).
       if result < 0 then Ret (-1, s)
       else
         rbind (h5_prepare_pkt s [0x03, 0xFC, 0x14] H5_LINK_CTL_PKT) (\<lambda>(nskb, s).
         rbind (start_transmit_wait fd nskb OP_H5_CONFIG 500 10 s) (\<lambda>(result, s).
         if result < 0 then Ret (-1, s)
         else
           rbind (rtb_send_ack s) (\<lambda>s. Ret (0, s\<lparr>cmd_stat := CMD_STATE_UNKNOWN\<rparr>)))))"
  using assms by (simp add: rtb_init_h5_def do_tcsetattr_def Let_def init_flags_def)

section \<open>Properties\<close>

text \<open>
  Claim C3. Link establishment tolerates losses: if up to ten sync messages and up to ten
  configuration messages go unanswered (each noticed as a timeout) before the controller's
  responses arrive, \<open>rtb_init_h5\<close> returns 0 in the state \<open>H5_INIT\<close> with the timer disarmed, has
  taken over the controller's choice of CRC, and has sent exactly the sync message once more
  than it was lost, then the configuration message once more than it was lost, then one
  acknowledgement in the negotiated format.
\<close>

theorem rtb_init_h5_establishes_link:
  assumes "quiet s" and "timer_q s = []" and "tcset_q s = []" and "0 < timerfd s"
    and "timerfd s \<noteq> serial_fd s" and "fd \<noteq> -1" and "a1 < 8" and "a2 < 8" and "k1 \<le> 10" and "k2 \<le> 10"
    and "epoll_q s = lost s k1 @ arrives s # lost s k2 @ arrives s # q"
    and "read_q s = Some (ctl_frame a1 [0x02, 0x7D]) # Some (ctl_frame a2 [0x04, 0x7B, cfg]) # rq"
  shows "\<exists>s'. rtb_init_h5 fd s = Ret (0, s') \<and> link_estab_state s' = H5_INIT \<and> armed_msec s' = 0 \<and>
    use_crc s' = drop_bit 4 cfg AND 0x01 \<and>
    tx_log s' = tx_log s @
      replicate (k1 + 1) (host_frame s (use_crc s) H5_LINK_CTL_PKT [0x01, 0x7E]) @
      replicate (k2 + 1) (host_frame s (use_crc s) H5_LINK_CTL_PKT [0x03, 0xFC, 0x14]) @
      [host_frame s (drop_bit 4 cfg AND 0x01) H5_ACK_PKT []]"
proof -
  from init_h5_sync [OF assms(1-6)] obtain p s1 where
    p: "skb_bytes p = host_frame s (use_crc s) H5_LINK_CTL_PKT [0x01, 0x7E]"
    and s1: "h5_prepare_pkt (s\<lparr>ti_cflag := init_flags (ti_cflag s), link_estab_state := H5_SYNC\<rparr>)
      [0x01, 0x7E] H5_LINK_CTL_PKT = Ret (Some p, s1)" "quiet s1" "timer_q s1 = []"
      "timerfd s1 = timerfd s" "serial_fd s1 = serial_fd s" "link_estab_state s1 = H5_SYNC"
      "epoll_q s1 = epoll_q s" "read_q s1 = read_q s" "use_crc s1 = use_crc s"
      "rxseq_txack s1 = rxseq_txack s" "tx_log s1 = tx_log s" by blast
  have q1: "epoll_q s1 = lost s1 k1 @ arrives s1 # lost s k2 @ arrives s # q"
    using s1 assms(11) by (simp add: lost_def arrives_def)
  have r1: "read_q s1 = Some (ctl_frame a1 [0x02, 0x7D]) # Some (ctl_frame a2 [0x04, 0x7B, cfg]) # rq"
    using s1 assms(12) by simp
  from stw_sync [OF s1(2,3) _ _ assms(6) s1(6) assms(7,9) q1 r1] s1 assms(4,5) obtain h where
    w1: "start_transmit_wait fd (Some p) OP_H5_SYNC 500 10 s1 = Ret (0, timeout_set 0 h)"
    and h: "quiet h" "link_estab_state h = H5_CONFIG" "timer_q h = []" "timerfd h = timerfd s"
      "serial_fd h = serial_fd s" "epoll_q h = lost s k2 @ arrives s # q"
      "read_q h = Some (ctl_frame a2 [0x04, 0x7B, cfg]) # rq" "use_crc h = use_crc s"
      "rxseq_txack h = rxseq_txack s" "tx_log h = tx_log s @ replicate (Suc k1) (skb_bytes p)"
    by auto
  have "quiet (timeout_set 0 h)" using h by simp
  from prepare_ctl [OF this, of "[0x03, 0xFC, 0x14]" H5_LINK_CTL_PKT] h obtain p2 mq where
    p2: "h5_prepare_pkt (timeout_set 0 h) [0x03, 0xFC, 0x14] H5_LINK_CTL_PKT =
        Ret (Some p2, (timeout_set 0 h)\<lparr>malloc_q := mq\<rparr>)" "quiet ((timeout_set 0 h)\<lparr>malloc_q := mq\<rparr>)"
      "skb_bytes p2 = host_frame s (use_crc s) H5_LINK_CTL_PKT [0x03, 0xFC, 0x14]"
    by (auto simp: host_frame_def)
  let ?h = "(timeout_set 0 h)\<lparr>malloc_q := mq\<rparr>"
  have "timer_q ?h = []" "0 < timerfd ?h" "timerfd ?h \<noteq> serial_fd ?h" "link_estab_state ?h = H5_CONFIG"
    "epoll_q ?h = lost ?h k2 @ arrives ?h # q" "read_q ?h = Some (ctl_frame a2 [0x04, 0x7B, cfg]) # rq"
    using h assms(4,5) by (simp_all add: lost_def arrives_def)
  from stw_conf [OF p2(2) this(1-3) assms(6) this(4) assms(8,10) this(5,6), of p2 500] obtain g where
    w2: "start_transmit_wait fd (Some p2) OP_H5_CONFIG 500 10 ?h = Ret (0, timeout_set 0 g)"
    and g: "quiet g" "link_estab_state g = H5_INIT" "use_crc g = drop_bit 4 cfg AND 0x01"
      "rxseq_txack g = rxseq_txack s" "tx_log g = tx_log h @ replicate (Suc k2) (skb_bytes p2)"
    using h by auto
  have "quiet (timeout_set 0 g)" using g by simp
  from send_ack_quiet [OF this] g obtain f where
    f: "rtb_send_ack (timeout_set 0 g) = Ret f"
      "tx_log f = tx_log g @ [host_frame s (drop_bit 4 cfg AND 0x01) H5_ACK_PKT []]"
      "link_estab_state f = H5_INIT" "use_crc f = drop_bit 4 cfg AND 0x01" "armed_msec f = 0"
    by (auto simp: host_frame_def timeout_set_def)
  have "rtb_init_h5 fd s = Ret (0, f\<lparr>cmd_stat := CMD_STATE_UNKNOWN\<rparr>)"
    unfolding rtb_init_h5_eq [OF assms(3) s1(1)] by (simp add: w1 p2 w2 f)
  with f g h p p2 show ?thesis by simp
qed

definition line_up :: "epoll_ans list \<Rightarrow> bytes option list \<Rightarrow> rtb_struct" where
  "line_up evs rds = rtb_cfg\<lparr>serial_fd := 3, timerfd := 5, epoll_q := evs, read_q := rds\<rparr>"

lemma line_up_simps [simp]:
  "quiet (line_up evs rds)" "timer_q (line_up evs rds) = []" "tcset_q (line_up evs rds) = []"
  "timerfd (line_up evs rds) = 5" "serial_fd (line_up evs rds) = 3"
  "epoll_q (line_up evs rds) = evs" "read_q (line_up evs rds) = rds" "tx_log (line_up evs rds) = []"
  "use_crc (line_up evs rds) = 0" "rxseq_txack (line_up evs rds) = 0"
  by (simp_all add: line_up_def quiet_def h5_inv_def rx_idle_def mem_ok_def)
    (simp_all add: rtb_cfg_def)

lemma rtb_init_h5_establishes_link_witness:
  "\<exists>s'. rtb_init_h5 3 (line_up
        [EpollEv [(5, False)], EpollEv [(5, False)], EpollEv [(3, False)], EpollEv [(3, False)]]
        [Some (ctl_frame 0 [0x02, 0x7D]), Some (ctl_frame 0 [0x04, 0x7B, 0x10])]) = Ret (0, s') \<and>
     link_estab_state s' = H5_INIT \<and> use_crc s' = 1 \<and> length (tx_log s') = 5"
  using rtb_init_h5_establishes_link [of "line_up
        [EpollEv [(5, False)], EpollEv [(5, False)], EpollEv [(3, False)], EpollEv [(3, False)]]
        [Some (ctl_frame 0 [0x02, 0x7D]), Some (ctl_frame 0 [0x04, 0x7B, 0x10])]"
      3 0 0 "Suc (Suc 0)" 0 "[]" "0x10" "[]"]
  by (auto simp: lost_def arrives_def)

text \<open>
  Claim C23. The number of retransmissions is bounded: a controller that never answers makes
  \<open>rtb_init_h5\<close> leave the program with the failure status at the eleventh timeout.
\<close>

theorem rtb_init_h5_gives_up:
  assumes "quiet s" and "timer_q s = []" and "tcset_q s = []" and "0 < timerfd s"
    and "timerfd s \<noteq> serial_fd s" and "fd \<noteq> -1" and "epoll_q s = lost s 11 @ q"
  shows "rtb_init_h5 fd s = Exit 1"
proof -
  from init_h5_sync [OF assms(1-6)] obtain p s1 where
    s1: "h5_prepare_pkt (s\<lparr>ti_cflag := init_flags (ti_cflag s), link_estab_state := H5_SYNC\<rparr>)
      [0x01, 0x7E] H5_LINK_CTL_PKT = Ret (Some p, s1)" "quiet s1" "timer_q s1 = []"
      "timerfd s1 = timerfd s" "serial_fd s1 = serial_fd s" "link_estab_state s1 = H5_SYNC"
      "epoll_q s1 = epoll_q s" by blast
  let ?s = "s1\<lparr>tx_log := tx_log s1 @ [skb_bytes p], armed_msec := 500\<rparr>"
  have "wait_loop (stw_events (skb_bytes p) 500) (stw_done OP_H5_SYNC 0)
      (replicate (Suc 10) (EpollEv [(timerfd ?s, False)]) @ q) (int 10) ?s = Exit 1"
    by (rule stw_exhausted) (use s1 assms(5) in \<open>simp_all add: quiet_def stw_done_link\<close>)
  then have "start_transmit_wait fd (Some p) OP_H5_SYNC 500 10 s1 = Exit 1"
    using s1 assms(4-7)
    by (simp add: start_transmit_wait_def op_opcode_def Let_def quiet_def timeout_set_def lost_def)
  then show ?thesis
    unfolding rtb_init_h5_eq [OF assms(3) s1(1)] by simp
qed

lemma rtb_init_h5_gives_up_witness:
  "rtb_init_h5 3 (line_up (replicate 11 (EpollEv [(5, False)])) []) = Exit 1"
  by (rule rtb_init_h5_gives_up [where q = "[]"]) (simp_all add: lost_def)

end
