(* ===== verification/H4.thy ===== *)
theory H4
  imports Machine
begin

text \<open>
  The plain-UART protocol of hciattach_h4.c: one command, one command-complete event. The
  event is read in three stages (packet type, event header, parameters) with a \<open>poll\<close> before
  each read.
\<close>

section \<open>Receiving one event\<close>

text \<open>The local variables of the receive loop; \<open>buf\<close> has 64 bytes.\<close>

record h4_rx =
  xs_state :: nat
  xs_buf :: bytes
  xs_count :: nat
  xs_params :: nat

definition xfer_start :: h4_rx where
  "xfer_start = \<lparr>xs_state = 1, xs_buf = replicate 64 0, xs_count = 0, xs_params = 0\<rparr>"

text \<open>
  The read at the end of one iteration: \<open>Some result\<close> leaves the loop with that value of
  \<open>result\<close>.
\<close>

definition xfer_read :: "h4_rx \<Rightarrow> 'a world_scheme \<Rightarrow> (int option \<times> h4_rx \<times> 'a world_scheme) res" where
  "xfer_read x s =
     (if xs_state x = 1 then
        rbind (do_read 1 s) (\<lambda>(result, bs, s).
        if result \<noteq> 1 then Ret (Some (-1), x, s)
        else rbind (arr_put (xs_buf x) 0 bs) (\<lambda>buf.
          let x = x\<lparr>xs_buf := buf\<rparr>
          in rbind (arr_get buf 0) (\<lambda>b0.
             Ret (None, if b0 = 0x04 then x\<lparr>xs_count := 1, xs_state := 2\<rparr> else x, s))))
      else if xs_state x = 2 then
        rbind (do_read 2 s) (\<lambda>(result, bs, s).
        rbind (arr_put (xs_buf x) (xs_count x) bs) (\<lambda>buf.
          let x = x\<lparr>xs_buf := buf\<rparr>
          in if result \<noteq> 2 then Ret (Some result, x, s)
             else rbind (arr_get buf 2) (\<lambda>b2.
               let x = x\<lparr>xs_count := xs_count x + 2, xs_state := 3, xs_params := unat b2\<rparr>
               in Ret (if xs_params x + 3 > 64 then Some (-1) else None, x, s))))
      else
        rbind (do_read (xs_params x) s) (\<lambda>(result, bs, s).
        if result = -1 then Ret (Some (-1), x, s)
        else rbind (arr_put (xs_buf x) (xs_count x) bs) (\<lambda>buf.
          let x = x\<lparr>xs_buf := buf, xs_count := xs_count x + nat result,
                    xs_params := xs_params x - nat result\<rparr>
          in Ret (if xs_params x = 0 then Some result else None, x, s))))"

text \<open>What the caller gets: the return value and the bytes copied to \<open>resp\<close>.\<close>

type_synonym xfer_result = "int \<times> bytes"

text \<open>
  The decision after a complete event; \<open>None\<close> is the jump to \<open>start_recv\<close>. \<open>cap\<close> is
  \<open>*resp_len\<close>, \<open>None\<close> for a null \<open>resp\<close>.
\<close>

definition xfer_judge :: "u16 \<Rightarrow> nat option \<Rightarrow> h4_rx \<Rightarrow> xfer_result option res" where
  "xfer_judge opcode cap x =
     rbind (arr_get (xs_buf x) 1) (\<lambda>b1.
     if b1 = 0x0e then
       rbind (arr_get (xs_buf x) 4) (\<lambda>b4. rbind (arr_get (xs_buf x) 5) (\<lambda>b5.
       if ucast b4 OR push_bit 8 (ucast b5) = opcode then
         rbind (arr_get (xs_buf x) 6) (\<lambda>b6.
         if b6 \<noteq> 0 then Ret (Some (-1, []))
         else
           case cap of
             None \<Rightarrow> Ret (Some (0, []))
           | Some n \<Rightarrow> rbind (arr_slice (xs_buf x) 0 (min n (xs_count x))) (\<lambda>r. Ret (Some (0, r))))
       else Ret (Some (-1, []))))
     else Ret None)"

section \<open>The transfer\<close>

fun xfer_loop ::
  "bytes \<Rightarrow> u16 \<Rightarrow> nat option \<Rightarrow> poll_ans list \<Rightarrow> int \<Rightarrow> h4_rx \<Rightarrow> 'a world_scheme \<Rightarrow>
   (xfer_result \<times> 'a world_scheme) res" where
  "xfer_loop cmd opcode cap [] retry x s = Blocked"
| "xfer_loop cmd opcode cap (p # q) retry x s =
     (let s = s\<lparr>poll_q := q\<rparr> in
      case p of
        PollErr \<Rightarrow> Ret ((-1, []), s)
      | PollTimeout \<Rightarrow>
          (if retry \<le> 0 then Exit 1
           else case do_write cmd s of (r, e, s) \<Rightarrow>
             if r \<noteq> int (length cmd) then Ret ((-1, []), s)
             else xfer_loop cmd opcode cap q (retry - 1) xfer_start s)
      | PollEv hup \<Rightarrow>
          (if hup then Ret ((-1, []), s)
           else
             rbind (xfer_read x s) (\<lambda>(result, x, s).
               case result of
                 None \<Rightarrow> xfer_loop cmd opcode cap q retry x s
               | Some r \<Rightarrow>
                   if r < 0 then Ret ((r, []), s)
                   else rbind (xfer_judge opcode cap x) (\<lambda>v.
                     case v of
                       Some res \<Rightarrow> Ret (res, s)
                     | None \<Rightarrow> xfer_loop cmd opcode cap q retry xfer_start s))))"

text \<open>
  \<open>msec\<close> only reaches \<open>poll\<close>, whose answers are scripted, so it is no argument here.
\<close>

definition start_xfer_wait ::
  "int \<Rightarrow> bytes \<Rightarrow> int \<Rightarrow> nat option \<Rightarrow> 'a world_scheme \<Rightarrow> (xfer_result \<times> 'a world_scheme) res" where
  "start_xfer_wait fd cmd retry cap s =
     (if fd = -1 \<or> length cmd < 4 then Ret ((-1, []), s)
      else
        let opcode = push_bit 8 (ucast (cmd ! 2)) + ucast (cmd ! 1)
        in case do_write cmd s of (r, e, s) \<Rightarrow>
             if r \<noteq> int (length cmd) then Ret ((-1, []), s)
             else xfer_loop cmd opcode cap (poll_q s) retry xfer_start s)"

section \<open>Commands\<close>

definition h4_download_patch ::
  "int \<Rightarrow> u8 \<Rightarrow> bytes option \<Rightarrow> nat \<Rightarrow> rtb_struct \<Rightarrow> (int \<times> rtb_struct) res" where
  "h4_download_patch fd index data len s =
     rbind (case data of
              None \<Rightarrow> check (len = 0) (Ret [])
            | Some d \<Rightarrow> check (len + 5 \<le> 257) (arr_slice d 0 len)) (\<lambda>p.
     rbind (start_xfer_wait fd ([0x01, 0x20, 0xfc, of_nat (len + 1), index] @ p) 0 (Some 8) s)
       (\<lambda>((result, resp), s).
       if result < 0 then Ret (-1, s)
       else if length resp \<noteq> 8 then Ret (-1, s)
       else rbind (arr_get resp 7) (\<lambda>b. Ret (int (unat b), s))))"

text \<open>
  \<open>BAUDRATE_4BYTES\<close> is defined in rtb_fwc.h only, which this file does not include: the low
  half of the rate is sent, followed by two zero bytes.
\<close>

definition h4_speed_cmd :: "u32 \<Rightarrow> bytes" where
  "h4_speed_cmd baudrate = [1, 0x17, 0xfc, 4, byte 0 baudrate, byte 1 baudrate, 0, 0]"

definition h4_vendor_change_speed :: "int \<Rightarrow> u32 \<Rightarrow> rtb_struct \<Rightarrow> (int \<times> rtb_struct) res" where
  "h4_vendor_change_speed fd baudrate s =
     rbind (start_xfer_wait fd (h4_speed_cmd baudrate) 0 None s) (\<lambda>((result, resp), s). Ret (result, s))"

definition h4_hci_reset :: "int \<Rightarrow> rtb_struct \<Rightarrow> (int \<times> rtb_struct) res" where
  "h4_hci_reset fd s =
     rbind (start_xfer_wait fd [0x01, 0x03, 0x0c, 0x00] 0 None s) (\<lambda>((result, resp), s).
       Ret (if result < 0 then -1 else 0, s))"

definition h4_read_local_ver :: "int \<Rightarrow> rtb_struct \<Rightarrow> (int \<times> rtb_struct) res" where
  "h4_read_local_ver fd s =
     rbind (start_xfer_wait fd [0x01, 0x01, 0x10, 0x00] 0 (Some 16) s) (\<lambda>((result, resp), s).
       if result < 0 then Ret (-1, s)
       else if length resp \<noteq> 15 then Ret (-1, s)
       else
         rbind (arr_get resp 7) (\<lambda>b7. rbind (arr_get resp 8) (\<lambda>b8. rbind (arr_get resp 9) (\<lambda>b9.
         rbind (arr_get resp 13) (\<lambda>b13. rbind (arr_get resp 14) (\<lambda>b14.
           Ret (0, s\<lparr>hci_ver := b7, hci_rev := push_bit 8 (ucast b9) OR ucast b8,
                     lmp_subver := push_bit 8 (ucast b14) OR ucast b13\<rparr>)))))))"

definition h4_vendor_read_rom_ver :: "int \<Rightarrow> rtb_struct \<Rightarrow> (int \<times> rtb_struct) res" where
  "h4_vendor_read_rom_ver fd s =
     rbind (start_xfer_wait fd [0x01, 0x6d, 0xfc, 0x00] 0 (Some 16) s) (\<lambda>((result, resp), s).
       if result < 0 then Ret (-1, s)
       else if length resp \<noteq> 8 then Ret (-1, s)
       else rbind (arr_get resp 7) (\<lambda>b. Ret (0, s\<lparr>eversion := b\<rparr>)))"

section \<open>Every access stays inside the buffer\<close>

definition xfer_inv :: "h4_rx \<Rightarrow> bool" where
  "xfer_inv x \<longleftrightarrow> length (xs_buf x) = 64 \<and> (xs_state x = 1 \<and> xs_count x = 0 \<or>
     xs_state x = 2 \<and> xs_count x = 1 \<or>
     xs_state x = 3 \<and> xs_count x + xs_params x \<le> 64)"

lemma xfer_inv_start [simp]: "xfer_inv xfer_start"
  by (simp add: xfer_inv_def xfer_start_def)

lemma do_read_len: "safe (do_read n s) (\<lambda>(r, bs, s').
    length bs \<le> n \<and> (r = int (length bs) \<or> r = -1 \<and> bs = []))"
  by (auto simp: do_read_def split: list.splits option.splits)

lemma arr_put_safe:
  "i + length ys \<le> length xs \<Longrightarrow> safe (arr_put xs i ys) (\<lambda>zs. length zs = length xs)"
  by simp

lemma xfer_read_safe:
  assumes "xfer_inv x"
  shows "safe (xfer_read x s) (\<lambda>(r, x', s'). length (xs_buf x') = 64 \<and> xs_count x' \<le> 64 \<and>
    (case r of None \<Rightarrow> xfer_inv x' | Some n \<Rightarrow> -1 \<le> n))"
proof -
  consider "xs_state x = 1" | "xs_state x = 2" | "xs_state x = 3"
    using assms by (auto simp: xfer_inv_def)
  then show ?thesis
  proof cases
    case 1
    then show ?thesis using assms unfolding xfer_read_def
      by (auto simp: xfer_inv_def Let_def intro!: safe_bind [OF do_read_len] safe_bind [OF arr_put_safe])
  next
    case 2
    then show ?thesis using assms unfolding xfer_read_def
      by (auto simp: xfer_inv_def Let_def intro!: safe_bind [OF do_read_len] safe_bind [OF arr_put_safe])
  next
    case 3
    then show ?thesis using assms unfolding xfer_read_def
      by (auto simp: xfer_inv_def Let_def intro!: safe_bind [OF do_read_len] safe_bind [OF arr_put_safe])
  qed
qed

text \<open>
  What a successful transfer hands to the caller: at most \<open>cap\<close> bytes, the beginning of a
  buffer that holds the command-complete event of this command with status zero.
\<close>

definition xfer_reply :: "u16 \<Rightarrow> nat option \<Rightarrow> bytes \<Rightarrow> bool" where
  "xfer_reply opcode cap resp \<longleftrightarrow>
     (case cap of None \<Rightarrow> resp = [] | Some n \<Rightarrow> length resp \<le> n) \<and>
     (\<exists>buf. length buf = 64 \<and> resp = take (length resp) buf \<and> buf ! 1 = 0x0e \<and>
        ucast (buf ! 4) OR push_bit 8 (ucast (buf ! 5)) = opcode \<and> buf ! 6 = 0)"

definition xfer_ok :: "u16 \<Rightarrow> nat option \<Rightarrow> xfer_result \<Rightarrow> bool" where
  "xfer_ok opcode cap = (\<lambda>(r, resp). r = -1 \<and> resp = [] \<or> r = 0 \<and> xfer_reply opcode cap resp)"

lemma xfer_judge_safe:
  assumes "length (xs_buf x) = 64" and "xs_count x \<le> 64"
  shows "safe (xfer_judge opcode cap x)
    (\<lambda>v. case v of None \<Rightarrow> True | Some res \<Rightarrow> xfer_ok opcode cap res)"
  using assms unfolding xfer_judge_def
  by (auto simp: xfer_ok_def xfer_reply_def split: option.splits intro!: exI [of _ "xs_buf x"])

lemma xfer_loop_safe:
  "xfer_inv x \<Longrightarrow> safe (xfer_loop cmd opcode cap q retry x s) (\<lambda>(res, s'). xfer_ok opcode cap res)"
proof (induction q arbitrary: retry x s)
  case Nil
  then show ?case by simp
next
  case (Cons p q)
  have stop: "xfer_ok opcode cap (-1, [])" by (simp add: xfer_ok_def)
  show ?case
  proof (cases p)
    case PollErr
    then show ?thesis using stop by simp
  next
    case PollTimeout
    then show ?thesis
      using stop Cons.IH [OF xfer_inv_start] by (auto split: prod.splits)
  next
    case (PollEv hup)
    have "safe (rbind (xfer_read x (s\<lparr>poll_q := q\<rparr>)) (\<lambda>(result, x, s).
               case result of
                 None \<Rightarrow> xfer_loop cmd opcode cap q retry x s
               | Some r \<Rightarrow>
                   if r < 0 then Ret ((r, []), s)
                   else rbind (xfer_judge opcode cap x) (\<lambda>v.
                     case v of
                       Some res \<Rightarrow> Ret (res, s)
                     | None \<Rightarrow> xfer_loop cmd opcode cap q retry xfer_start s)))
      (\<lambda>(res, s'). xfer_ok opcode cap res)"
    proof (rule safe_bind [OF xfer_read_safe [OF Cons.prems]])
      fix y :: "int option \<times> h4_rx \<times> 'a world_scheme"
      assume y: "case y of (r, x', s') \<Rightarrow> length (xs_buf x') = 64 \<and> xs_count x' \<le> 64 \<and>
        (case r of None \<Rightarrow> xfer_inv x' | Some n \<Rightarrow> -1 \<le> n)"
      obtain r x' s' where ys: "y = (r, x', s')" by (cases y)
      have judged: "safe (rbind (xfer_judge opcode cap x') (\<lambda>v. case v of Some res \<Rightarrow> Ret (res, s')
          | None \<Rightarrow> xfer_loop cmd opcode cap q retry xfer_start s')) (\<lambda>(res, s'). xfer_ok opcode cap res)"
        using y ys
        by (intro safe_bind [OF xfer_judge_safe]) (auto intro: Cons.IH split: option.splits)
      show "safe (case y of (result, x, s) \<Rightarrow> case result of
                 None \<Rightarrow> xfer_loop cmd opcode cap q retry x s
               | Some r \<Rightarrow>
                   if r < 0 then Ret ((r, []), s)
                   else rbind (xfer_judge opcode cap x) (\<lambda>v.
                     case v of
                       Some res \<Rightarrow> Ret (res, s)
                     | None \<Rightarrow> xfer_loop cmd opcode cap q retry xfer_start s))
        (\<lambda>(res, s'). xfer_ok opcode cap res)"
        using y ys judged Cons.IH [of x'] by (cases r) (auto simp: xfer_ok_def)
    qed
    with PollEv stop show ?thesis by (simp add: Let_def)
  qed
qed

lemma xfer_safe:
  "safe (start_xfer_wait fd cmd retry cap s) (\<lambda>(res, s').
     xfer_ok (push_bit 8 (ucast (cmd ! 2)) + ucast (cmd ! 1)) cap res)"
proof -
  have stop: "xfer_ok opcode cap (-1, [])" for opcode by (simp add: xfer_ok_def)
  show ?thesis
    unfolding start_xfer_wait_def Let_def
    by (auto split: prod.splits simp: stop intro!: xfer_loop_safe)
qed

section \<open>A reply that arrives\<close>

text \<open>The parameter bytes may come in any number of pieces.\<close>

lemma xfer_params:
  assumes "xs_state x = 3" and "length (xs_buf x) = 64" and "concat cs \<noteq> []" and "[] \<notin> set cs"
    and "xs_params x = length (concat cs)" and "xs_count x + xs_params x \<le> 64"
    and "read_q s = map Some cs @ rq"
  shows "\<exists>x' s' e. xs_buf x' = take (xs_count x) (xs_buf x) @ concat cs @
      drop (xs_count x + length (concat cs)) (xs_buf x) \<and>
    xs_count x' = xs_count x + length (concat cs) \<and> s' = s\<lparr>read_q := rq, poll_q := e\<rparr> \<and>
    xfer_loop cmd opcode cap (replicate (length cs) (PollEv False) @ q) retry x s =
      rbind (xfer_judge opcode cap x') (\<lambda>v. case v of Some res \<Rightarrow> Ret (res, s')
        | None \<Rightarrow> xfer_loop cmd opcode cap q retry xfer_start s')"
  using assms
proof (induction cs arbitrary: x s)
  case Nil
  then show ?case by simp
next
  case (Cons c cs)
  let ?q = "replicate (length cs) (PollEv False) @ q"
  let ?s = "s\<lparr>poll_q := ?q, read_q := map Some cs @ rq\<rparr>"
  let ?x = "x\<lparr>xs_buf := take (xs_count x) (xs_buf x) @ c @ drop (xs_count x + length c) (xs_buf x),
    xs_count := xs_count x + length c, xs_params := length (concat cs)\<rparr>"
  have c: "0 < length c" "length c \<le> xs_params x" using Cons.prems(4,5) by auto
  have nz: "xs_params x \<noteq> 0" and lt: "xs_count x < 64" using c Cons.prems(6) by linarith+
  have "do_read (xs_params x) (s\<lparr>poll_q := ?q\<rparr>) = Ret (int (length c), c, ?s)"
    using c nz Cons.prems(7) by (simp add: do_read_def)
  then have rd: "xfer_read x (s\<lparr>poll_q := ?q\<rparr>) =
      Ret (if concat cs = [] then Some (int (length c)) else None, ?x, ?s)"
    using Cons.prems(1,2,5,6) by (simp add: xfer_read_def Let_def)
  show ?case
  proof (cases "concat cs = []")
    case True
    then have cs: "cs = []" using Cons.prems(4) by (cases cs) auto
    have rd': "xfer_read x (s\<lparr>poll_q := q\<rparr>) = Ret (Some (int (length c)),
        ?x, s\<lparr>poll_q := q, read_q := rq\<rparr>)"
      using rd by (simp add: cs)
    show ?thesis
      by (intro exI [of _ ?x] exI [of _ "s\<lparr>poll_q := q, read_q := rq\<rparr>"] exI [of _ q])
        (simp add: Let_def cs rd' [unfolded cs, simplified])
  next
    case False
    have "take (xs_count ?x) (xs_buf ?x) @ concat cs @ drop (xs_count ?x + length (concat cs)) (xs_buf ?x) =
        take (xs_count x) (xs_buf x) @ concat (c # cs) @ drop (xs_count x + length (concat (c # cs))) (xs_buf x)"
    proof -
      have "length (take (xs_count x) (xs_buf x)) = xs_count x"
        using lt Cons.prems(2) by simp
      then show ?thesis
        using c(1) Cons.prems(2,5,6) lt
        by (simp only: h4_rx.simps h4_rx.update_convs h4_rx.select_convs) (simp add: ac_simps)
    qed
    moreover have "length (xs_buf ?x) = 64" "[] \<notin> set cs" "xs_count ?x + xs_params ?x \<le> 64"
      using lt c Cons.prems(2,4,5,6) by auto
    ultimately show ?thesis
      using Cons.IH [of ?x ?s] Cons.prems(1) False rd by (auto simp add: Let_def add.assoc)
  qed
qed

lemma xfer_timeouts:
  assumes "write_q s = []" and "int k \<le> retry"
  shows "\<exists>e. xfer_loop cmd opcode cap (replicate k PollTimeout @ q) retry xfer_start s =
    xfer_loop cmd opcode cap q (retry - int k) xfer_start
      (s\<lparr>poll_q := e, tx_log := tx_log s @ replicate k cmd\<rparr>)"
  using assms
proof (induction k arbitrary: retry s)
  case 0
  have "s\<lparr>poll_q := poll_q s, tx_log := tx_log s @ replicate 0 cmd\<rparr> = s" by (cases s) simp
  then show ?case by (intro exI [of _ "poll_q s"]) simp
next
  case (Suc k)
  let ?s = "s\<lparr>poll_q := replicate k PollTimeout @ q, tx_log := tx_log s @ [cmd]\<rparr>"
  from Suc.IH [of ?s "retry - 1"] Suc.prems obtain e where
    "xfer_loop cmd opcode cap (replicate k PollTimeout @ q) (retry - 1) xfer_start ?s =
      xfer_loop cmd opcode cap q (retry - 1 - int k) xfer_start
      (?s\<lparr>poll_q := e, tx_log := tx_log ?s @ replicate k cmd\<rparr>)" by auto
  then show ?case using Suc.prems by (intro exI [of _ e]) (simp add: Let_def algebra_simps)
qed

definition cc_event :: "bytes \<Rightarrow> bytes" where
  "cc_event params = [0x04, 0x0e, of_nat (length params)] @ params"

lemma list_ge_4: "4 \<le> length xs \<Longrightarrow> \<exists>a b c d ys. xs = a # b # c # d # ys"
  by (cases xs; cases "tl xs"; cases "tl (tl xs)"; cases "tl (tl (tl xs))") auto

lemma drop_3: "drop (3 + n) (a # b # c # xs) = drop n xs"
  by (simp add: numeral_3_eq_3)

lemma xfer_event:
  assumes "concat cs = params" and "[] \<notin> set cs" and "4 \<le> length params" and "length params \<le> 61"
    and "le16 (params ! 1) (params ! 2) = opcode" and "params ! 3 = 0"
    and "read_q s = Some [0x04] # Some [0x0e, of_nat (length params)] # map Some cs @ rq"
  shows "\<exists>e. xfer_loop cmd opcode cap (replicate (2 + length cs) (PollEv False) @ q) retry xfer_start s =
    Ret ((0, case cap of None \<Rightarrow> [] | Some n \<Rightarrow> take n (cc_event params)), s\<lparr>read_q := rq, poll_q := e\<rparr>)"
proof -
  let ?n = "of_nat (length params) :: u8"
  let ?q2 = "replicate (length cs) (PollEv False) @ q"
  let ?q1 = "PollEv False # ?q2"
  let ?x1 = "xfer_start\<lparr>xs_buf := 0x04 # replicate 63 0, xs_count := 1, xs_state := 2\<rparr>"
  let ?s1 = "s\<lparr>poll_q := ?q1, read_q := Some [0x0e, ?n] # map Some cs @ rq\<rparr>"
  let ?x2 = "?x1\<lparr>xs_buf := [0x04, 0x0e, ?n] @ replicate 61 0, xs_count := 3, xs_state := 3,
    xs_params := length params\<rparr>"
  let ?s2 = "?s1\<lparr>poll_q := ?q2, read_q := map Some cs @ rq\<rparr>"
  have n: "unat ?n = length params" by (rule unat_of_nat_small) (use assms(4) in simp)
  have r1: "xfer_read xfer_start (s\<lparr>poll_q := ?q1\<rparr>) = Ret (None, ?x1, ?s1)"
    using assms(7) by (simp add: xfer_read_def xfer_start_def do_read_def Let_def drop_replicate)
  have r2: "xfer_read ?x1 (?s1\<lparr>poll_q := ?q2\<rparr>) = Ret (None, ?x2, ?s2)"
    using assms(4) n
    by (simp add: xfer_read_def xfer_start_def do_read_def Let_def drop_replicate take_Cons' drop_Cons')
  have loop: "xfer_loop cmd opcode cap (replicate (2 + length cs) (PollEv False) @ q) retry xfer_start s =
      xfer_loop cmd opcode cap ?q2 retry ?x2 ?s2"
    using r1 r2 by (simp add: Let_def)
  have "concat cs \<noteq> []" using assms(1,3) by auto
  then have "\<exists>x' s' e. xs_buf x' = take (xs_count ?x2) (xs_buf ?x2) @ concat cs @
      drop (xs_count ?x2 + length (concat cs)) (xs_buf ?x2) \<and>
    xs_count x' = xs_count ?x2 + length (concat cs) \<and> s' = ?s2\<lparr>read_q := rq, poll_q := e\<rparr> \<and>
    xfer_loop cmd opcode cap ?q2 retry ?x2 ?s2 =
      rbind (xfer_judge opcode cap x') (\<lambda>v. case v of Some res \<Rightarrow> Ret (res, s')
        | None \<Rightarrow> xfer_loop cmd opcode cap q retry xfer_start s')"
    by (intro xfer_params) (use assms(1,2,4) in simp_all)
  then obtain x' s' e where x': "xs_buf x' = cc_event params @ replicate (61 - length params) 0"
      "xs_count x' = 3 + length params" and s': "s' = ?s2\<lparr>read_q := rq, poll_q := e\<rparr>"
    and l2: "xfer_loop cmd opcode cap ?q2 retry ?x2 ?s2 =
      rbind (xfer_judge opcode cap x') (\<lambda>v. case v of Some res \<Rightarrow> Ret (res, s')
        | None \<Rightarrow> xfer_loop cmd opcode cap q retry xfer_start s')"
    using assms(1,4) by (auto simp: cc_event_def drop_replicate drop_3)
  obtain p0 p1 p2 p3 ps where ps: "params = p0 # p1 # p2 # p3 # ps"
    using list_ge_4 [OF assms(3)] by blast
  have i: "xs_buf x' ! 1 = 0x0e" "xs_buf x' ! 4 = params ! 1" "xs_buf x' ! 5 = params ! 2"
    "xs_buf x' ! 6 = params ! 3"
    unfolding x'(1) by (simp_all add: cc_event_def ps)
  have len: "length (xs_buf x') = 64" using x'(1) assms(4) by (simp add: cc_event_def)
  have t: "take (min m (3 + length params)) (xs_buf x') = take m (cc_event params)" for m
  proof -
    have l: "3 + length params = length (cc_event params)" by (simp add: cc_event_def)
    show ?thesis unfolding x'(1) l by (simp add: min_def)
  qed
  have "xfer_judge opcode cap x' =
      Ret (Some (0, case cap of None \<Rightarrow> [] | Some n \<Rightarrow> take n (cc_event params)))"
    using i len x'(2) assms(4-6)
    by (cases cap) (simp_all add: xfer_judge_def t flip: le16_or)
  with loop l2 s' show ?thesis by (intro exI [of _ e]) simp
qed

lemma xfer_answered:
  assumes "fd \<noteq> -1" and "4 \<le> length cmd" and "write_q s = []" and "int k \<le> retry"
    and "poll_q s = replicate k PollTimeout @ replicate (2 + length cs) (PollEv False) @ q"
    and "read_q s = Some [0x04] # Some [0x0e, of_nat (length params)] # map Some cs @ rq"
    and "concat cs = params" and "[] \<notin> set cs" and "4 \<le> length params" and "length params \<le> 61"
    and "params ! 1 = cmd ! 1" and "params ! 2 = cmd ! 2" and "params ! 3 = 0"
  shows "\<exists>e. start_xfer_wait fd cmd retry cap s =
    Ret ((0, case cap of None \<Rightarrow> [] | Some n \<Rightarrow> take n (cc_event params)),
      s\<lparr>read_q := rq, poll_q := e, tx_log := tx_log s @ replicate (Suc k) cmd\<rparr>)"
proof -
  let ?oc = "push_bit 8 (ucast (cmd ! 2)) + ucast (cmd ! 1) :: u16"
  let ?q = "replicate (2 + length cs) (PollEv False) @ q"
  let ?s = "s\<lparr>tx_log := tx_log s @ [cmd]\<rparr>"
  have oc: "le16 (params ! 1) (params ! 2) = ?oc"
    using assms(11,12) by (simp add: le16_def add.commute)
  have "start_xfer_wait fd cmd retry cap s = xfer_loop cmd ?oc cap (replicate k PollTimeout @ ?q) retry xfer_start ?s"
    using assms(1-3,5) by (simp add: start_xfer_wait_def)
  moreover from xfer_timeouts [of ?s k retry cmd ?oc cap ?q] assms(3,4) obtain e where
    "xfer_loop cmd ?oc cap (replicate k PollTimeout @ ?q) retry xfer_start ?s =
      xfer_loop cmd ?oc cap ?q (retry - int k) xfer_start
        (?s\<lparr>poll_q := e, tx_log := tx_log ?s @ replicate k cmd\<rparr>)" by auto
  moreover from xfer_event [OF assms(7-10) oc assms(13),
      of "?s\<lparr>poll_q := e, tx_log := tx_log ?s @ replicate k cmd\<rparr>" rq cmd cap q "retry - int k"] assms(6)
  obtain e2 where "xfer_loop cmd ?oc cap ?q (retry - int k) xfer_start
        (?s\<lparr>poll_q := e, tx_log := tx_log ?s @ replicate k cmd\<rparr>) =
      Ret ((0, case cap of None \<Rightarrow> [] | Some n \<Rightarrow> take n (cc_event params)),
        ?s\<lparr>poll_q := e, tx_log := tx_log ?s @ replicate k cmd\<rparr>\<lparr>read_q := rq, poll_q := e2\<rparr>)" by auto
  moreover have "?s\<lparr>poll_q := e, tx_log := tx_log ?s @ replicate k cmd\<rparr>\<lparr>read_q := rq, poll_q := e2\<rparr> =
      s\<lparr>read_q := rq, poll_q := e2, tx_log := tx_log s @ replicate (Suc k) cmd\<rparr>" by simp
  ultimately show ?thesis by (simp only:) blast
qed

section \<open>Properties\<close>


text \<open>
  Claim C26. A reply is received however the line delivers it: after any number of timeouts
  within the retry budget, a command-complete event for the command, with its parameters cut
  into any non-empty pieces, makes \<open>start_xfer_wait\<close> return 0 with the event (cut to the
  caller's array), having written the command exactly once more than it timed out.
\<close>

theorem start_xfer_wait_delivers:
  assumes "fd \<noteq> -1" and "4 \<le> length cmd" and "write_q s = []" and "int k \<le> retry"
    and "poll_q s = replicate k PollTimeout @ replicate (2 + length cs) (PollEv False) @ q"
    and "read_q s = Some [0x04] # Some [0x0e, of_nat (length params)] # map Some cs @ rq"
    and "concat cs = params" and "[] \<notin> set cs" and "4 \<le> length params" and "length params \<le> 61"
    and "params ! 1 = cmd ! 1" and "params ! 2 = cmd ! 2" and "params ! 3 = 0"
  shows "\<exists>e. start_xfer_wait fd cmd retry cap s =
    Ret ((0, case cap of None \<Rightarrow> [] | Some n \<Rightarrow> take n (cc_event params)),
      s\<lparr>read_q := rq, poll_q := e, tx_log := tx_log s @ replicate (k + 1) cmd\<rparr>)"
  using xfer_answered [OF assms] by simp

lemma start_xfer_wait_delivers_witness:
  "\<exists>e. start_xfer_wait 3 [0x01, 0x03, 0x0c, 0x00] 1 (Some 8)
     (rtb_cfg\<lparr>poll_q := [PollTimeout, PollEv False, PollEv False, PollEv False, PollEv False],
       read_q := [Some [0x04], Some [0x0e, 4], Some [0x01], Some [0x03, 0x0c, 0x00]]\<rparr>) =
    Ret ((0, [0x04, 0x0e, 4, 0x01, 0x03, 0x0c, 0x00]),
      rtb_cfg\<lparr>read_q := [], poll_q := e,
        tx_log := [[0x01, 0x03, 0x0c, 0x00], [0x01, 0x03, 0x0c, 0x00]]\<rparr>)"
  using start_xfer_wait_delivers [of 3 "[0x01, 0x03, 0x0c, 0x00]"
      "rtb_cfg\<lparr>poll_q := [PollTimeout, PollEv False, PollEv False, PollEv False, PollEv False],
       read_q := [Some [0x04], Some [0x0e, 4], Some [0x01], Some [0x03, 0x0c, 0x00]]\<rparr>"
      1 1 "[[0x01], [0x03, 0x0c, 0x00]]" "[]" "[0x01, 0x03, 0x0c, 0x00]" "[]" "Some 8"]
  by (simp add: cc_event_def eval_nat_numeral)

end
