(* ===== verification/Download.thy ===== *)
theory Download
  imports H5_Link H4
begin

text \<open>
  The firmware download of hciattach_rtk.c (\<open>rtb_download_fwc\<close>): cutting the patch into
  fragments, numbering them, the additional empty packets that align the sequence numbers,
  and the loop that sends them over either protocol.
\<close>

section \<open>The loop\<close>

definition frag_index :: "u16 \<Rightarrow> u16" where
  "frag_index i = (if i > 0x7f then (i AND 0x7f) + 1 else i)"

text \<open>
  \<open>curr_idx\<close>, \<open>pkt_buf\<close> and \<open>curr_len\<close> of one iteration. \<open>pkt_buf\<close> is the offset into the
  patch buffer, \<open>None\<close> the null pointer.
\<close>

definition dl_select ::
  "u16 \<Rightarrow> u16 \<Rightarrow> nat \<Rightarrow> u16 \<Rightarrow> nat option \<Rightarrow> u8 \<times> nat option \<times> nat" where
  "dl_select end_idx total_idx lp_len i pkt =
     (let j = frag_index i in
      if i < end_idx then (ucast j, pkt, PATCH_DATA_FIELD_MAX_SIZE)
      else if i = end_idx then (if i = total_idx then ucast (j OR 0x80) else ucast j, pkt, lp_len)
      else if i < total_idx then (ucast j, None, 0)
      else (ucast (j OR 0x80), None, 0))"

text \<open>
  Sending one fragment: the index as the loop goes on with it, or \<open>None\<close> for the early return
  of -1. The H4 reply is stored in the 8-bit \<open>curr_idx\<close>, so an error becomes 0xff.
\<close>

definition dl_send ::
  "int \<Rightarrow> int \<Rightarrow> u16 \<Rightarrow> u16 \<Rightarrow> u8 \<Rightarrow> bytes option \<Rightarrow> nat \<Rightarrow> rtb_struct \<Rightarrow> (u8 option \<times> rtb_struct) res" where
  "dl_send fd prot total_idx i curr_idx data len s =
     (if prot = HCI_UART_H4 then
        rbind (h4_download_patch fd curr_idx data len s) (\<lambda>(r, s).
          let curr_idx = of_int r :: u8
          in if ucast curr_idx \<noteq> frag_index i \<and> i \<noteq> total_idx then Ret (None, s)
             else Ret (Some curr_idx, s))
      else if prot = HCI_UART_3WIRE then
        rbind (h5_download_patch fd curr_idx data len s) (\<lambda>(r, s).
          if r < 0 then Ret (None, s) else Ret (Some curr_idx, s))
      else Ret (Some curr_idx, s))"

text \<open>
  The loop over \<open>i = 0 .. total_idx\<close>; the list holds the values of \<open>i\<close> still to come. Moving a
  null \<open>pkt_buf\<close> forward gives a pointer that is not used before it is set to null again.
\<close>

fun dl_loop ::
  "int \<Rightarrow> bytes \<Rightarrow> int \<Rightarrow> u16 \<Rightarrow> u16 \<Rightarrow> nat \<Rightarrow> u16 list \<Rightarrow> nat option \<Rightarrow> rtb_struct \<Rightarrow> (int \<times> rtb_struct) res" where
  "dl_loop fd buf prot end_idx total_idx lp_len [] pkt s = Ret (0, s)"
| "dl_loop fd buf prot end_idx total_idx lp_len (i # is) pkt s =
     (case dl_select end_idx total_idx lp_len i pkt of (curr_idx, pkt, curr_len) \<Rightarrow>
        rbind (dl_send fd prot total_idx i curr_idx (map_option (\<lambda>off. drop off buf) pkt) curr_len s)
          (\<lambda>(c, s). case c of
             None \<Rightarrow> Ret (-1, s)
           | Some curr_idx \<Rightarrow>
               dl_loop fd buf prot end_idx total_idx lp_len is
                 (if ucast curr_idx < end_idx
                  then map_option (\<lambda>off. off + PATCH_DATA_FIELD_MAX_SIZE) pkt else pkt) s))"

definition dl_end_idx :: "int \<Rightarrow> u16" where
  "dl_end_idx siz = of_int ((siz - 1) div 252)"

definition dl_lp_len :: "int \<Rightarrow> nat" where
  "dl_lp_len siz = (let lp_len = nat (siz mod 252)
     in if lp_len = 0 then PATCH_DATA_FIELD_MAX_SIZE else lp_len)"

text \<open>
  How many empty packets follow the data. The parameter is \<open>num\<close>: the commands sent so far
  and the data packets, in 16 bits.
\<close>

definition dl_add_pkts :: "int \<Rightarrow> u16 \<Rightarrow> u16" where
  "dl_add_pkts prot num =
     (let add_pkts = (if num mod 8 \<noteq> 0 then 8 - num mod 8 else 0)
      in if prot = HCI_UART_3WIRE then (if add_pkts \<noteq> 0 then add_pkts - 1 else add_pkts + 7)
         else 0)"

text \<open>For \<open>0 < siz\<close> (\<open>size\<close> in the code); the caller checks this.\<close>

definition rtb_download_fwc ::
  "int \<Rightarrow> bytes \<Rightarrow> int \<Rightarrow> int \<Rightarrow> rtb_struct \<Rightarrow> (int \<times> rtb_struct) res" where
  "rtb_download_fwc fd buf siz prot s =
     (let end_idx = dl_end_idx siz;
          num = num_of_cmd_sent s + (end_idx + 1);
          total_idx = dl_add_pkts prot num + end_idx;
          s = s\<lparr>total_num := int (unat total_idx)\<rparr>
      in rbind (dl_loop fd buf prot end_idx total_idx (dl_lp_len siz)
                  (map of_nat [0..<Suc (unat total_idx)]) (Some 0) s) (\<lambda>(r, s).
         if r < 0 then Ret (r, s)
         else if prot = HCI_UART_H4 then h4_hci_reset fd s
         else h5_hci_reset fd s))"

section \<open>The plan of a download\<close>

text \<open>
  What the loop is specified to send, independent of the link: the index and the data of each
  packet.
\<close>

definition dl_item :: "bytes \<Rightarrow> u16 \<Rightarrow> u16 \<Rightarrow> nat \<Rightarrow> nat \<Rightarrow> u8 \<times> bytes" where
  "dl_item buf end_idx total_idx lp_len n =
     (let i = of_nat n :: u16;
          flag = (if n = unat total_idx then 0x80 else 0)
      in (ucast (frag_index i OR flag),
          if n < unat end_idx then take 252 (drop (252 * n) buf)
          else if n = unat end_idx then take lp_len (drop (252 * n) buf)
          else []))"

definition dl_plan :: "bytes \<Rightarrow> u16 \<Rightarrow> u16 \<Rightarrow> nat \<Rightarrow> (u8 \<times> bytes) list" where
  "dl_plan buf end_idx total_idx lp_len =
     map (dl_item buf end_idx total_idx lp_len) [0..<Suc (unat total_idx)]"

lemma concat_blocks:
  "n * b \<le> length xs \<Longrightarrow> concat (map (\<lambda>k. take b (drop (b * k) xs)) [0..<n]) = take (b * n) xs"
proof (induction n)
  case 0
  then show ?case by simp
next
  case (Suc n)
  then have "concat (map (\<lambda>k. take b (drop (b * k) xs)) [0..<n]) = take (b * n) xs" by simp
  then show ?case by (simp add: take_add [symmetric] add.commute)
qed

lemma dl_end_lp:
  assumes "0 < siz" and "siz \<le> 65536 * 252"
  shows "int (unat (dl_end_idx siz)) = (siz - 1) div 252"
    and "252 * int (unat (dl_end_idx siz)) + int (dl_lp_len siz) = siz"
    and "0 < dl_lp_len siz" and "dl_lp_len siz \<le> 252"
proof -
  let ?q = "(siz - 1) div 252"
  have q: "0 \<le> ?q" "?q < 65536" using assms by auto
  have "unat (dl_end_idx siz) = nat ?q"
  proof -
    have "dl_end_idx siz = of_nat (nat ?q)" using q by (simp add: dl_end_idx_def)
    moreover have "nat ?q < 2 ^ LENGTH(16)" using q by auto
    ultimately show ?thesis by (simp only: unat_of_nat_small)
  qed
  then show e: "int (unat (dl_end_idx siz)) = ?q" using q by simp
  define q where "q = (siz - 1) div 252"
  define r where "r = (siz - 1) mod 252"
  have s: "siz = 252 * q + (r + 1)"
    using mult_div_mod_eq [of 252 "siz - 1"] unfolding q_def r_def by simp
  have r: "0 \<le> r" "r < 252" unfolding r_def by simp_all
  have lp: "int (dl_lp_len siz) = r + 1"
  proof (cases "r = 251")
    case True
    then have "siz = 252 * (q + 1)" using s by (simp add: algebra_simps)
    then have "siz mod 252 = 0" by (metis mod_mult_self1_is_0)
    with True show ?thesis by (simp add: dl_lp_len_def PATCH_DATA_FIELD_MAX_SIZE_def)
  next
    case False
    have "siz mod 252 = (r + 1) mod 252" unfolding s by (simp only: mod_mult_self4)
    also have "\<dots> = r + 1" using r False by simp
    finally show ?thesis using r by (simp add: dl_lp_len_def Let_def)
  qed
  with e [folded q_def] s
  show "252 * int (unat (dl_end_idx siz)) + int (dl_lp_len siz) = siz" by linarith
  from lp r show "0 < dl_lp_len siz" "dl_lp_len siz \<le> 252" by linarith+
qed

lemma dl_plan_split:
  assumes "unat end_idx \<le> unat total_idx"
  shows "[0..<Suc (unat total_idx)] = [0..<unat end_idx] @ [unat end_idx] @ [Suc (unat end_idx)..<Suc (unat total_idx)]"
proof -
  obtain d where "unat total_idx = unat end_idx + d" using assms nat_le_iff_add by blast
  then show ?thesis using upt_add_eq_append [of 0 "Suc (unat end_idx)" d] by simp
qed

lemma dl_plan_data:
  assumes "0 < siz" and "siz \<le> int (length buf)" and "siz \<le> 65536 * 252"
    and "unat (dl_end_idx siz) \<le> unat total_idx"
  shows "concat (map snd (dl_plan buf (dl_end_idx siz) total_idx (dl_lp_len siz))) = take (nat siz) buf"
proof -
  let ?e = "unat (dl_end_idx siz)" and ?lp = "dl_lp_len siz"
  let ?f = "dl_item buf (dl_end_idx siz) total_idx ?lp"
  note d = dl_end_lp [OF assms(1,3)]
  have sz: "nat siz = 252 * ?e + ?lp" using d(2) by linarith
  have "concat (map (snd \<circ> ?f) [0..<?e]) = concat (map (\<lambda>k. take 252 (drop (252 * k) buf)) [0..<?e])"
    by (intro arg_cong [of _ _ concat]) (simp add: dl_item_def Let_def)
  also have "\<dots> = take (252 * ?e) buf"
    by (rule concat_blocks) (use sz assms(1,2) in linarith)
  finally have data: "concat (map (snd \<circ> ?f) [0..<?e]) = take (252 * ?e) buf" .
  have "map (snd \<circ> ?f) [Suc ?e..<Suc (unat total_idx)] = map (\<lambda>_. []) [Suc ?e..<Suc (unat total_idx)]"
    by (rule map_cong) (auto simp: dl_item_def Let_def)
  then have "concat (map (snd \<circ> ?f) [Suc ?e..<Suc (unat total_idx)]) = []"
    by (simp only: concat_eq_Nil_conv) simp
  moreover have "snd (?f ?e) = take ?lp (drop (252 * ?e) buf)"
    by (simp add: dl_item_def Let_def)
  ultimately show ?thesis
    unfolding dl_plan_def map_map dl_plan_split [OF assms(4)] map_append concat_append data sz
    by (simp add: take_add)
qed

section \<open>The loop follows the plan\<close>

lemma unat_and_7f: "unat ((i :: u16) AND 0x7f) = unat i mod 128"
proof -
  have "(0x7f :: u16) = mask 7" by (simp add: mask_eq_exp_minus_1)
  then have "i AND 0x7f = take_bit 7 i" by (simp only: take_bit_eq_mask)
  then show ?thesis by (simp only: unsigned_take_bit_eq) (simp add: take_bit_eq_mod)
qed

lemma unat_frag_index:
  "unat (frag_index i) = (if unat i > 127 then unat i mod 128 + 1 else unat i)"
proof (cases "unat i > 127")
  case True
  have "unat ((i AND 0x7f) + 1) = unat (i AND 0x7f) + 1"
  proof -
    have "unat (i AND 0x7f) + unat (1 :: u16) < 2 ^ LENGTH(16)"
      by (simp add: unat_and_7f)
    then show ?thesis by (subst unat_word_ariths) (simp add: unat_and_7f)
  qed
  then have "unat ((i AND 0x7f) + 1) = unat i mod 128 + 1" by (simp add: unat_and_7f)
  with True show ?thesis by (simp add: frag_index_def word_less_nat_alt)
qed (simp add: frag_index_def word_less_nat_alt)

lemma frag_index_le: "unat (frag_index i) \<le> unat i" "unat (frag_index i) \<le> 128"
  by (auto simp: unat_frag_index)

lemma frag_index_u8: "ucast (ucast (frag_index i) :: u8) = frag_index i"
proof -
  define y where "y = (ucast (frag_index i) :: u8)"
  have "unat y = take_bit 8 (unat (frag_index i))"
    unfolding y_def by (simp only: unsigned_ucast_eq) simp
  then have y: "unat y = unat (frag_index i)"
    using frag_index_le(2) [of i] by (simp add: take_bit_nat_eq_self)
  have "unat (ucast y :: u16) = take_bit 16 (unat y)"
    by (simp only: unsigned_ucast_eq) simp
  also have "\<dots> = unat y"
    using unat_u8_lt [of y] by (simp add: take_bit_nat_eq_self)
  finally show ?thesis unfolding y_def [symmetric] y by (rule unat_inj)
qed

text \<open>Sending a plan over the link, packet by packet.\<close>

fun dl_run :: "int \<Rightarrow> int \<Rightarrow> u16 \<Rightarrow> (u8 \<times> bytes) list \<Rightarrow> nat \<Rightarrow> rtb_struct \<Rightarrow> (int \<times> rtb_struct) res" where
  "dl_run fd prot total_idx [] n s = Ret (0, s)"
| "dl_run fd prot total_idx ((c, d) # ps) n s =
     rbind (dl_send fd prot total_idx (of_nat n) c (Some d) (length d) s) (\<lambda>(r, s).
       case r of None \<Rightarrow> Ret (-1, s) | Some x \<Rightarrow> dl_run fd prot total_idx ps (Suc n) s)"

lemma dl_send_data:
  assumes "len \<le> 252" and "len \<le> length d"
  shows "dl_send fd prot t i c (Some d) len s = dl_send fd prot t i c (Some (take len d)) len s"
  using assms
  by (simp add: dl_send_def h4_download_patch_def h5_download_patch_def dl_command_def)

lemma dl_send_null: "dl_send fd prot t i c None 0 s = dl_send fd prot t i c (Some []) 0 s"
  by (simp add: dl_send_def h4_download_patch_def h5_download_patch_def dl_command_def)

lemma dl_send_idx:
  assumes "dl_send fd prot t i (ucast (frag_index i)) data len s = Ret (Some c, s')" and "i \<noteq> t"
  shows "ucast c = frag_index i"
  using assms frag_index_u8 [of i]
  by (auto simp: dl_send_def Let_def split: if_splits prod.splits)

lemma dl_loop_run:
  assumes e: "unat end_idx \<le> unat total_idx" and lp: "lp \<le> 252"
    and buf: "252 * unat end_idx + lp \<le> length buf"
    and n: "n + k = Suc (unat total_idx)" and pkt: "n \<le> unat end_idx \<Longrightarrow> pkt = Some (252 * n)"
  shows "dl_loop fd buf prot end_idx total_idx lp (map of_nat [n..<n + k]) pkt s =
    dl_run fd prot total_idx (map (dl_item buf end_idx total_idx lp) [n..<n + k]) n s"
  using n pkt
proof (induction k arbitrary: n pkt s)
  case 0
  then show ?case by simp
next
  case (Suc k)
  let ?i = "of_nat n :: u16" and ?E = "unat end_idx" and ?T = "unat total_idx"
  have T: "?T < 65536" using unsigned_less [of total_idx, where ?'a = nat] by simp
  have i: "unat ?i = n" by (rule unat_of_nat_small) (use Suc.prems(1) T in simp)
  have cmp: "?i < end_idx \<longleftrightarrow> n < ?E" "?i = end_idx \<longleftrightarrow> n = ?E" "?i < total_idx \<longleftrightarrow> n < ?T"
    "?i = total_idx \<longleftrightarrow> n = ?T"
    using i unat_inj by (auto simp: word_less_nat_alt)
  obtain c0 d0 where item: "dl_item buf end_idx total_idx lp n = (c0, d0)"
    by (cases "dl_item buf end_idx total_idx lp n")
  have cd: "c0 = fst (dl_item buf end_idx total_idx lp n)" "d0 = snd (dl_item buf end_idx total_idx lp n)"
    by (simp_all add: item)
  obtain pkt' len where sel: "dl_select end_idx total_idx lp ?i pkt = (c0, pkt', len)"
    and snd: "\<And>s. dl_send fd prot total_idx ?i c0 (map_option (\<lambda>off. drop off buf) pkt') len s =
      dl_send fd prot total_idx ?i c0 (Some d0) (length d0) s"
    and keep: "n < ?E \<Longrightarrow> pkt' = Some (252 * n)"
  proof -
    consider (data) "n < ?E" | (last) "n = ?E" | (fill) "?E < n" "n < ?T" | (final) "?E < n" "n = ?T"
      using Suc.prems(1) by linarith
    then show ?thesis
    proof cases
      case data
      then have b: "252 * n + 252 \<le> length buf" using buf by linarith
      show ?thesis
      proof (rule that [of "Some (252 * n)" 252])
        show "dl_select end_idx total_idx lp ?i pkt = (c0, Some (252 * n), 252)"
          using data e Suc.prems(2) cmp
          by (simp add: dl_select_def cd dl_item_def Let_def PATCH_DATA_FIELD_MAX_SIZE_def)
        show "dl_send fd prot total_idx ?i c0 (map_option (\<lambda>off. drop off buf) (Some (252 * n))) 252 s =
            dl_send fd prot total_idx ?i c0 (Some d0) (length d0) s" for s
          using data b dl_send_data [of 252 "drop (252 * n) buf"]
          by (simp add: cd dl_item_def Let_def)
      qed simp
    next
      case last
      then have b: "252 * n + lp \<le> length buf" using buf by linarith
      show ?thesis
      proof (rule that [of "Some (252 * n)" lp])
        show "dl_select end_idx total_idx lp ?i pkt = (c0, Some (252 * n), lp)"
          using last Suc.prems(2) cmp by (simp add: dl_select_def cd dl_item_def Let_def)
        show "dl_send fd prot total_idx ?i c0 (map_option (\<lambda>off. drop off buf) (Some (252 * n))) lp s =
            dl_send fd prot total_idx ?i c0 (Some d0) (length d0) s" for s
          using last b lp dl_send_data [of lp "drop (252 * n) buf"]
          by (simp add: cd dl_item_def Let_def)
      qed simp
    next
      case fill
      then show ?thesis using cmp dl_send_null
        by (intro that [of None 0]) (simp_all add: dl_select_def cd dl_item_def Let_def)
    next
      case final
      then show ?thesis using cmp dl_send_null
        by (intro that [of None 0]) (simp_all add: dl_select_def cd dl_item_def Let_def)
    qed
  qed
  have next_pkt: "(if ucast x < end_idx then map_option (\<lambda>off. off + PATCH_DATA_FIELD_MAX_SIZE) pkt' else pkt') =
      Some (252 * Suc n)"
    if r: "dl_send fd prot total_idx ?i c0 (Some d0) (length d0) s = Ret (Some x, s')" and le: "Suc n \<le> ?E" for x s'
  proof -
    have c: "c0 = ucast (frag_index ?i)" using le e by (simp add: cd dl_item_def Let_def)
    have "?i \<noteq> total_idx" using cmp(4) le e by simp
    with r have "ucast x = frag_index ?i" unfolding c by (rule dl_send_idx)
    then have "ucast x < end_idx"
      using frag_index_le(1) [of ?i] i le by (simp add: word_less_nat_alt)
    with keep le show ?thesis by (simp add: PATCH_DATA_FIELD_MAX_SIZE_def)
  qed
  have upt: "[n..<n + Suc k] = n # [Suc n..<Suc n + k]" by (simp add: upt_conv_Cons)
  show ?case
    unfolding upt list.map dl_loop.simps sel prod.case snd item dl_run.simps
  proof (rule rbind_cong [OF refl])
    fix y
    assume y: "dl_send fd prot total_idx ?i c0 (Some d0) (length d0) s = Ret y"
    obtain c s' where ys: "y = (c, s')" by (cases y)
    show "(case y of (c, s) \<Rightarrow> case c of None \<Rightarrow> Ret (-1, s)
       | Some curr_idx \<Rightarrow> dl_loop fd buf prot end_idx total_idx lp (map of_nat [Suc n..<Suc n + k])
           (if ucast curr_idx < end_idx then map_option (\<lambda>off. off + PATCH_DATA_FIELD_MAX_SIZE) pkt' else pkt') s) =
      (case y of (r, s) \<Rightarrow> case r of None \<Rightarrow> Ret (-1, s)
       | Some x \<Rightarrow> dl_run fd prot total_idx (map (dl_item buf end_idx total_idx lp) [Suc n..<Suc n + k]) (Suc n) s)"
    proof (cases c)
      case (Some x)
      have "dl_loop fd buf prot end_idx total_idx lp (map of_nat [Suc n..<Suc n + k])
           (if ucast x < end_idx then map_option (\<lambda>off. off + PATCH_DATA_FIELD_MAX_SIZE) pkt' else pkt') s' =
         dl_run fd prot total_idx (map (dl_item buf end_idx total_idx lp) [Suc n..<Suc n + k]) (Suc n) s'"
      proof (rule Suc.IH)
        show "Suc n + k = Suc ?T" using Suc.prems(1) by simp
        show "(if ucast x < end_idx then map_option (\<lambda>off. off + PATCH_DATA_FIELD_MAX_SIZE) pkt' else pkt') =
          Some (252 * Suc n)" if "Suc n \<le> ?E"
          using next_pkt [OF y [unfolded ys Some] that] .
      qed
      with ys Some show ?thesis by simp
    qed (simp add: ys)
  qed
qed

section \<open>Counting packets\<close>

definition dl_total_idx :: "int \<Rightarrow> int \<Rightarrow> rtb_struct \<Rightarrow> u16" where
  "dl_total_idx prot siz s =
     dl_add_pkts prot (num_of_cmd_sent s + (dl_end_idx siz + 1)) + dl_end_idx siz"

lemma u16_mod_8: "unat ((x :: u16) mod 8) = unat x mod 8" "unat (x mod 8) < 8"
  by (simp_all add: unat_mod_distrib)

lemma u16_mod_8_zero: "(x :: u16) mod 8 = 0 \<longleftrightarrow> unat x mod 8 = 0"
  using u16_mod_8(1) [of x] by (metis unat_0 unat_inj)

lemma unat_8_minus: "unat (8 - (x :: u16) mod 8) = 8 - unat x mod 8"
proof -
  have "x mod 8 \<le> 8" using u16_mod_8(2) [of x] by (simp add: word_le_nat_alt)
  then show ?thesis by (simp add: unat_sub u16_mod_8)
qed

lemma unat_dl_add:
  "unat (dl_add_pkts prot num) =
     (if prot = HCI_UART_3WIRE then (7 - unat num mod 8) mod 8 else 0)"
proof (cases "unat num mod 8 = 0")
  case True
  then show ?thesis by (simp add: dl_add_pkts_def u16_mod_8_zero)
next
  case False
  have lt: "unat num mod 8 < 8" by simp
  have nz: "8 - num mod 8 \<noteq> 0"
    using unat_8_minus [of num] lt by (metis less_numeral_extra(3) unat_0 zero_less_diff)
  have "unat (8 - num mod 8 - 1) = 8 - unat num mod 8 - 1"
    using unat_word_dec [OF nz] by (simp only: unat_8_minus)
  moreover have "7 - unat num mod 8 < (8 :: nat)" by linarith
  ultimately show ?thesis using False nz by (simp add: dl_add_pkts_def u16_mod_8_zero Let_def)
qed

lemma dl_total:
  assumes "0 < siz" and "siz \<le> 65520 * 252"
  shows "unat (dl_total_idx prot siz s) =
    unat (dl_add_pkts prot (num_of_cmd_sent s + (dl_end_idx siz + 1))) + unat (dl_end_idx siz)"
    and "unat (dl_end_idx siz) < 65520"
proof -
  have "siz \<le> 65536 * 252" using assms(2) by simp
  have "(siz - 1) div 252 \<le> (65520 * 252 - 1) div 252"
    by (rule zdiv_mono1) (use assms(2) in simp_all)
  also have "\<dots> < 65520" by simp
  finally have "int (unat (dl_end_idx siz)) < 65520"
    by (simp only: dl_end_lp(1) [OF assms(1) \<open>siz \<le> 65536 * 252\<close>])
  then show e: "unat (dl_end_idx siz) < 65520" by (simp only: of_nat_less_numeral_iff)
  have a: "unat (dl_add_pkts prot num) < 8" for num
    unfolding unat_dl_add by (cases "prot = HCI_UART_3WIRE") (simp_all only: if_True if_False, simp_all)
  from add_strict_mono [OF a e]
  have "unat (dl_add_pkts prot (num_of_cmd_sent s + (dl_end_idx siz + 1))) + unat (dl_end_idx siz) < 65536"
    by (rule less_le_trans) simp
  then show "unat (dl_total_idx prot siz s) =
    unat (dl_add_pkts prot (num_of_cmd_sent s + (dl_end_idx siz + 1))) + unat (dl_end_idx siz)"
    unfolding dl_total_idx_def by (subst unat_word_ariths) simp
qed

lemma align_8: "((x :: nat) + (7 - x mod 8) mod 8 + 1) mod 8 = 0"
proof -
  define m q where "m = x mod 8" and "q = x div 8"
  have x: "x = 8 * q + m" and m: "m < 8" by (simp_all add: m_def q_def)
  have r: "(7 - m) mod 8 = 7 - m" by simp
  have "x + (7 - m) + 1 = 8 * (q + 1)" using x m by simp
  then have "x + (7 - x mod 8) mod 8 + 1 = 8 * (q + 1)"
    unfolding m_def [symmetric] r .
  then show ?thesis by (simp only: mod_mult_self1_is_0)
qed

lemma dl_align:
  assumes "0 < siz" and "siz \<le> 65520 * 252"
  shows "(unat (num_of_cmd_sent s) + Suc (unat (dl_total_idx HCI_UART_3WIRE siz s)) + 1) mod 8 = 0"
proof -
  let ?e = "unat (dl_end_idx siz)" and ?c = "unat (num_of_cmd_sent s)"
  have "unat (num_of_cmd_sent s + (dl_end_idx siz + 1)) = (?c + ?e + 1) mod 65536"
    by (simp add: unat_word_ariths(1) mod_add_right_eq add.assoc)
  then have m: "unat (num_of_cmd_sent s + (dl_end_idx siz + 1)) mod 8 = (?c + ?e + 1) mod 8"
    by (simp add: mod_mod_cancel)
  have t: "unat (dl_total_idx HCI_UART_3WIRE siz s) = (7 - (?c + ?e + 1) mod 8) mod 8 + ?e"
    unfolding dl_total(1) [OF assms] by (simp add: unat_dl_add m)
  have "?c + Suc ((7 - (?c + ?e + 1) mod 8) mod 8 + ?e) + 1 =
      (?c + ?e + 1) + (7 - (?c + ?e + 1) mod 8) mod 8 + 1" by simp
  then show ?thesis unfolding t by (simp only: align_8)
qed

lemma download_run:
  assumes "0 < siz" and "siz \<le> int (length buf)" and "siz \<le> 65520 * 252"
  shows "rtb_download_fwc fd buf siz prot s =
    rbind (dl_run fd prot (dl_total_idx prot siz s)
        (dl_plan buf (dl_end_idx siz) (dl_total_idx prot siz s) (dl_lp_len siz)) 0
        (s\<lparr>total_num := int (unat (dl_total_idx prot siz s))\<rparr>)) (\<lambda>(r, s).
      if r < 0 then Ret (r, s)
      else if prot = HCI_UART_H4 then h4_hci_reset fd s else h5_hci_reset fd s)"
proof -
  let ?t = "dl_total_idx prot siz s" and ?e = "dl_end_idx siz" and ?lp = "dl_lp_len siz"
  have siz: "siz \<le> 65536 * 252" using assms(3) by simp
  note d = dl_end_lp [OF assms(1) siz]
  have e: "unat ?e \<le> unat ?t" using dl_total(1) [OF assms(1,3), of prot s] by simp
  have "252 * unat ?e + ?lp \<le> length buf" using d(2) assms(2) by linarith
  from dl_loop_run [OF e d(4) this, of 0 "Suc (unat ?t)" "Some 0" fd prot]
  show ?thesis
    unfolding rtb_download_fwc_def Let_def dl_total_idx_def [symmetric] dl_plan_def by simp
qed

lemma unat_seq_next: "unat (x :: u8) < 8 \<Longrightarrow> unat ((x + 1) AND 7) = (unat x + 1) mod 8"
proof -
  assume x: "unat x < 8"
  have "(7 :: u8) = mask 3" by (simp add: mask_eq_exp_minus_1)
  then have "(x + 1) AND 7 = take_bit 3 (x + 1)" by (simp only: take_bit_eq_mask)
  then have "unat ((x + 1) AND 7) = take_bit 3 (unat (x + 1))" by (simp only: unsigned_take_bit_eq)
  moreover have "unat (x + 1) = unat x + 1" using x by (subst unat_word_ariths(1)) simp
  ultimately show ?thesis by (simp add: take_bit_eq_mod)
qed

lemma mem_upd_total [simp]:
  "h5_inv (s\<lparr>total_num := n\<rparr>) = h5_inv s" "mem_ok (s\<lparr>total_num := n\<rparr>) = mem_ok s"
  by (simp_all add: h5_inv_def rx_idle_def mem_ok_def)

lemma dl_run_3wire:
  assumes "h5_inv s" and "mem_ok s" and "\<forall>(c, d) \<in> set ps. length d \<le> 252" and "unat (msgq_txseq s) < 8"
  shows "safe (dl_run fd HCI_UART_3WIRE t ps n s) (\<lambda>(r, s'). h5_inv s' \<and> mem_ok s' \<and>
    unat (msgq_txseq s') < 8 \<and>
    (r = 0 \<and> unat (msgq_txseq s') = (unat (msgq_txseq s) + length ps) mod 8 \<or> r = -1))"
  using assms
proof (induction ps arbitrary: n s)
  case Nil
  then show ?case by simp
next
  case (Cons p ps)
  obtain c d where p: "p = (c, d)" by (cases p)
  have ne: "HCI_UART_3WIRE \<noteq> HCI_UART_H4" by (simp add: HCI_UART_3WIRE_def HCI_UART_H4_def)
  have send: "safe (dl_send fd HCI_UART_3WIRE t (of_nat n) c (Some d) (length d) s) (\<lambda>(r, s').
      h5_inv s' \<and> mem_ok s' \<and> unat (msgq_txseq s') = (unat (msgq_txseq s) + 1) mod 8)"
    unfolding dl_send_def using ne Cons.prems(3,4) p
    by (auto simp: link_env_def dl_env_def unat_seq_next
        intro!: safe_bind [OF download_patch_ok [OF Cons.prems(1,2)]])
  show ?case
    unfolding p dl_run.simps
  proof (rule safe_bind [OF send])
    fix y :: "u8 option \<times> rtb_struct"
    assume y: "case y of (r, s') \<Rightarrow> h5_inv s' \<and> mem_ok s' \<and>
      unat (msgq_txseq s') = (unat (msgq_txseq s) + 1) mod 8"
    obtain r s' where ys: "y = (r, s')" by (cases y)
    have "safe (dl_run fd HCI_UART_3WIRE t ps (Suc n) s') (\<lambda>(r, s''). h5_inv s'' \<and> mem_ok s'' \<and>
      unat (msgq_txseq s'') < 8 \<and>
      (r = 0 \<and> unat (msgq_txseq s'') = (unat (msgq_txseq s') + length ps) mod 8 \<or> r = -1))"
      by (rule Cons.IH) (use y ys Cons.prems(3) in auto)
    then show "safe (case y of (r, s) \<Rightarrow> case r of None \<Rightarrow> Ret (- 1, s)
        | Some x \<Rightarrow> dl_run fd HCI_UART_3WIRE t ps (Suc n) s)
      (\<lambda>(r, s'). h5_inv s' \<and> mem_ok s' \<and> unat (msgq_txseq s') < 8 \<and>
        (r = 0 \<and> unat (msgq_txseq s') = (unat (msgq_txseq s) + length ((c, d) # ps)) mod 8 \<or> r = -1))"
      using y ys by (cases r) (auto simp: mod_simps elim!: safe_weaken)
  qed
qed

lemma dl_plan_len: "lp \<le> 252 \<Longrightarrow> \<forall>(c, d) \<in> set (dl_plan buf e t lp). length d \<le> 252"
  by (auto simp: dl_plan_def dl_item_def Let_def)

lemma download_safe:
  assumes "h5_inv s" and "mem_ok s" and "0 < siz" and "siz \<le> int (length buf)" and "siz \<le> 65520 * 252"
    and "unat (msgq_txseq s) < 8"
  shows "safe (rtb_download_fwc fd buf siz HCI_UART_3WIRE s) (\<lambda>(r, s'). h5_inv s' \<and> mem_ok s')"
proof -
  let ?s = "s\<lparr>total_num := int (unat (dl_total_idx HCI_UART_3WIRE siz s))\<rparr>"
  have siz: "siz \<le> 65536 * 252" using assms(5) by simp
  have ne: "HCI_UART_3WIRE \<noteq> HCI_UART_H4" by (simp add: HCI_UART_3WIRE_def HCI_UART_H4_def)
  have s: "h5_inv ?s" "mem_ok ?s" "unat (msgq_txseq ?s) < 8" using assms(1,2,6) by simp_all
  have reset: "safe (h5_hci_reset fd s') (\<lambda>(r, s'). h5_inv s' \<and> mem_ok s')" if "h5_inv s'" "mem_ok s'" for s'
    by (rule safe_weaken [OF hci_reset_ok [OF that]]) auto
  show ?thesis
    unfolding download_run [OF assms(3-5)]
    by (rule safe_bind [OF dl_run_3wire [OF s(1,2) dl_plan_len [OF dl_end_lp(4) [OF assms(3) siz]] s(3)]])
      (use reset ne in auto)
qed

section \<open>The last-packet bit\<close>

lemma frag_index_flag: "frag_index i AND 0x80 \<noteq> 0 \<longleftrightarrow> unat (frag_index i) = 128"
proof -
  have "(0x80 :: u16) = 2 ^ 7" by simp
  then have "frag_index i AND 0x80 \<noteq> 0 \<longleftrightarrow> bit (frag_index i) 7"
    using and_exp_eq_0_iff_not_bit [of "frag_index i" 7] by simp
  also have "\<dots> \<longleftrightarrow> bit (unat (frag_index i)) 7" by (simp add: bit_unsigned_iff)
  also have "\<dots> \<longleftrightarrow> odd (unat (frag_index i) div 128)" by (simp add: bit_iff_odd)
  also have "\<dots> \<longleftrightarrow> unat (frag_index i) = 128"
    using frag_index_le(2) [of i] by (cases "unat (frag_index i) = 128") (auto simp: not_less)
  finally show ?thesis .
qed

lemma dl_item_flag:
  assumes "n \<le> unat total_idx"
  shows "fst (dl_item buf end_idx total_idx lp n) AND 0x80 \<noteq> 0 \<longleftrightarrow>
    n = unat total_idx \<or> 127 < n \<and> n mod 128 = 127"
proof -
  let ?i = "of_nat n :: u16"
  have "n < 2 ^ LENGTH(16)" using assms unsigned_less [of total_idx, where ?'a = nat] by simp
  then have i: "unat ?i = n" by (rule unat_of_nat_small)
  have bit7: "bit (ucast (x :: u16) :: u8) 7 = bit x 7" for x by (simp add: bit_ucast_iff)
  have "fst (dl_item buf end_idx total_idx lp n) AND 0x80 \<noteq> 0 \<longleftrightarrow>
      bit (frag_index ?i OR (if n = unat total_idx then 0x80 else 0)) 7"
    unfolding and_bit_8 dl_item_def Let_def fst_conv bit7 ..
  also have "\<dots> \<longleftrightarrow> n = unat total_idx \<or> bit (frag_index ?i) 7"
    by (simp add: bit_or_iff)
  also have "bit (frag_index ?i) 7 \<longleftrightarrow> frag_index ?i AND 0x80 \<noteq> 0"
    using and_exp_eq_0_iff_not_bit [of "frag_index ?i" 7] by simp
  also have "\<dots> \<longleftrightarrow> 127 < n \<and> n mod 128 = 127"
    unfolding frag_index_flag unat_frag_index i by auto
  finally show ?thesis .
qed

text \<open>
  Over H4 the reply to the fragment with the last index is stored and ignored: whatever
  \<open>h4_download_patch\<close> returned for it, -1 included, the loop goes on to the reset.
\<close>

lemma h4_last_fragment_unchecked:
  "dl_send fd HCI_UART_H4 total_idx total_idx c data len s \<noteq> Ret (None, s')"
  by (auto simp: dl_send_def Let_def)

section \<open>Properties\<close>

text \<open>
  Claim C4. The download sends the patch, the whole patch and nothing but the patch: over
  either protocol the loop with its moving pointer, its rolling index and its early exits does
  exactly what sending the planned packets in order and then resetting the controller does, and
  the data of the planned packets, concatenated, is the patch.
\<close>

theorem rtb_download_fwc_follows_plan:
  assumes "0 < siz" and "siz \<le> int (length buf)" and "siz \<le> 65520 * 252"
  shows "rtb_download_fwc fd buf siz prot s =
    rbind (dl_run fd prot (dl_total_idx prot siz s)
        (dl_plan buf (dl_end_idx siz) (dl_total_idx prot siz s) (dl_lp_len siz)) 0
        (s\<lparr>total_num := int (unat (dl_total_idx prot siz s))\<rparr>)) (\<lambda>(r, s).
      if r < 0 then Ret (r, s)
      else if prot = HCI_UART_H4 then h4_hci_reset fd s else h5_hci_reset fd s) \<and>
    concat (map snd (dl_plan buf (dl_end_idx siz) (dl_total_idx prot siz s) (dl_lp_len siz))) =
      take (nat siz) buf"
proof (rule conjI [OF download_run [OF assms] dl_plan_data [OF assms(1,2)]])
  show "siz \<le> 65536 * 252" using assms(3) by simp
  show "unat (dl_end_idx siz) \<le> unat (dl_total_idx prot siz s)"
    using dl_total(1) [OF assms(1,3), of prot s] by simp
qed

lemma rtb_download_fwc_follows_plan_witness:
  "concat (map snd (dl_plan (replicate 300 7) (dl_end_idx 300) (dl_total_idx HCI_UART_3WIRE 300 rtb_cfg)
     (dl_lp_len 300))) = replicate 300 7"
  using rtb_download_fwc_follows_plan [of 300 "replicate 300 7" 3 HCI_UART_3WIRE rtb_cfg] by simp

text \<open>
  Claim C10. Sequence numbers are aligned: over the three-wire link, if the send sequence number
  agrees with the number of commands sent so far, then whatever the line and the controller do
  the download is memory safe, and when it succeeds the empty packets it added have brought the
  send sequence number to zero, as the code's comment demands of the next packet.
\<close>

theorem rtb_download_fwc_aligns_seq:
  assumes "h5_inv s" and "mem_ok s" and "0 < siz" and "siz \<le> int (length buf)" and "siz \<le> 65520 * 252"
    and "unat (msgq_txseq s) = unat (num_of_cmd_sent s) mod 8"
  shows "safe (rtb_download_fwc fd buf siz HCI_UART_3WIRE s) (\<lambda>(r, s'). h5_inv s' \<and> mem_ok s' \<and>
    (r = 0 \<longrightarrow> msgq_txseq s' = 0))"
proof -
  let ?t = "dl_total_idx HCI_UART_3WIRE siz s"
  let ?plan = "dl_plan buf (dl_end_idx siz) ?t (dl_lp_len siz)"
  let ?s = "s\<lparr>total_num := int (unat ?t)\<rparr>"
  have siz: "siz \<le> 65536 * 252" using assms(5) by simp
  have ne: "HCI_UART_3WIRE \<noteq> HCI_UART_H4" by (simp add: HCI_UART_3WIRE_def HCI_UART_H4_def)
  have s: "h5_inv ?s" "mem_ok ?s" "unat (msgq_txseq ?s) < 8" using assms(1,2,6) by simp_all
  note run = dl_run_3wire [OF s(1,2) dl_plan_len [OF dl_end_lp(4) [OF assms(3) siz]] s(3)]
  show ?thesis
    unfolding download_run [OF assms(3-5)]
  proof (rule safe_bind [OF run])
    fix y :: "int \<times> rtb_struct"
    assume y: "case y of (r, s') \<Rightarrow> h5_inv s' \<and> mem_ok s' \<and> unat (msgq_txseq s') < 8 \<and>
      (r = 0 \<and> unat (msgq_txseq s') = (unat (msgq_txseq ?s) + length ?plan) mod 8 \<or> r = -1)"
    obtain r s' where ys: "y = (r, s')" by (cases y)
    have zero: "msgq_txseq s2 = 0" if "link_env s2 = link_env (s'\<lparr>msgq_txseq := (msgq_txseq s' + 1) AND 7,
        cmd_opcode := HCI_CMD_RESET\<rparr>)" and "r = 0" for s2
    proof -
      have "msgq_txseq s2 = (msgq_txseq s' + 1) AND 7" using that(1) by (simp add: link_env_def)
      then have "unat (msgq_txseq s2) = (unat (msgq_txseq s') + 1) mod 8"
        using y ys unat_seq_next by auto
      also have "\<dots> = (unat (num_of_cmd_sent s) + Suc (unat ?t) + 1) mod 8"
      proof -
        have "unat (msgq_txseq s') = (unat (num_of_cmd_sent s) mod 8 + Suc (unat ?t)) mod 8"
          using y ys that(2) assms(6) by (auto simp: dl_plan_def simp del: upt_Suc)
        then show ?thesis by (simp only: mod_add_left_eq)
      qed
      also have "\<dots> = 0" by (rule dl_align [OF assms(3,5)])
      finally show ?thesis by (simp add: unat_eq_0)
    qed
    have "safe (h5_hci_reset fd s') (\<lambda>(r, s'). h5_inv s' \<and> mem_ok s' \<and> (r = 0 \<longrightarrow> msgq_txseq s' = 0))"
      if "r = 0"
      by (rule safe_weaken [OF hci_reset_ok]) (use y ys zero that in auto)
    with y ys ne show "safe (case y of (r, s) \<Rightarrow> if r < 0 then Ret (r, s)
        else if HCI_UART_3WIRE = HCI_UART_H4 then h4_hci_reset fd s else h5_hci_reset fd s)
      (\<lambda>(r, s'). h5_inv s' \<and> mem_ok s' \<and> (r = 0 \<longrightarrow> msgq_txseq s' = 0))" by auto
  qed
qed

lemma rtb_download_fwc_aligns_seq_witness:
  "safe (rtb_download_fwc 3 (replicate 300 7) 300 HCI_UART_3WIRE rtb_cfg)
     (\<lambda>(r, s'). h5_inv s' \<and> mem_ok s' \<and> (r = 0 \<longrightarrow> msgq_txseq s' = 0))"
  by (rule rtb_download_fwc_aligns_seq [OF h5_inv_rtb_cfg(1,3)]) (simp_all add: rtb_cfg_def)



end
