(* ===== verification/Patch_Db.thy ===== *)
theory Patch_Db
  imports Machine
begin

text \<open>
  The tables of rtk_hciattach: LMP subversions and chip types (rtb_fwc.h), project identifiers
  and patch entries (rtb_fwc.c), vendor and standard line speeds (hciattach_rtk.c), and the
  scans over them. \<open>RTL_8703A_SUPPORT\<close> is not defined by the build, \<open>BAUDRATE_4BYTES\<close> is
  (by rtb_fwc.h).
\<close>

section \<open>Identifiers\<close>

definition ROM_LMP_NONE :: u16 where "ROM_LMP_NONE = 0x0000"
definition ROM_LMP_8723a :: u16 where "ROM_LMP_8723a = 0x1200"
definition ROM_LMP_8723b :: u16 where "ROM_LMP_8723b = 0x8723"
definition ROM_LMP_8821a :: u16 where "ROM_LMP_8821a = 0x8821"
definition ROM_LMP_8761a :: u16 where "ROM_LMP_8761a = 0x8761"
definition ROM_LMP_8761btc :: u16 where "ROM_LMP_8761btc = 0x8763"
definition ROM_LMP_8703a :: u16 where "ROM_LMP_8703a = 0x87b3"
definition ROM_LMP_8763a :: u16 where "ROM_LMP_8763a = 0x8763"
definition ROM_LMP_8703b :: u16 where "ROM_LMP_8703b = 0x8703"
definition ROM_LMP_8723c :: u16 where "ROM_LMP_8723c = 0x87c3"
definition ROM_LMP_8822b :: u16 where "ROM_LMP_8822b = 0x8822"
definition ROM_LMP_8822c :: u16 where "ROM_LMP_8822c = 0x8822"
definition ROM_LMP_8852a :: u16 where "ROM_LMP_8852a = 0x8852"
definition ROM_LMP_8723cs_xx :: u16 where "ROM_LMP_8723cs_xx = 0x8704"
definition ROM_LMP_8723cs_cg :: u16 where "ROM_LMP_8723cs_cg = 0x8705"
definition ROM_LMP_8723cs_vf :: u16 where "ROM_LMP_8723cs_vf = 0x8706"
definition CHIP_8852BS :: u8 where "CHIP_8852BS = 0"
definition CHIP_8703AS :: u8 where "CHIP_8703AS = 1"
definition CHIP_8723CS_CG :: u8 where "CHIP_8723CS_CG = 3"
definition CHIP_8723CS_VF :: u8 where "CHIP_8723CS_VF = 4"
definition CHIP_8723CS_XX :: u8 where "CHIP_8723CS_XX = 5"
definition CHIP_8703BS :: u8 where "CHIP_8703BS = 7"
definition CHIP_8725AS :: u8 where "CHIP_8725AS = 0x05"
definition CHIP_8852BPE_VR :: u8 where "CHIP_8852BPE_VR = 0x06"
definition CHIP_8852BPS :: u8 where "CHIP_8852BPS = 0x0A"
definition CHIP_UNKNOWN :: u8 where "CHIP_UNKNOWN = 0x00"
definition CHIP_8761AT :: u8 where "CHIP_8761AT = 0x1F"
definition CHIP_8761ATF :: u8 where "CHIP_8761ATF = 0x2F"
definition CHIP_8761BTC :: u8 where "CHIP_8761BTC = 0x3F"
definition CHIP_8761BH4 :: u8 where "CHIP_8761BH4 = 0x4F"
definition CHIP_8723BS :: u8 where "CHIP_8723BS = 0x5F"
definition CHIP_BEFORE :: u8 where "CHIP_BEFORE = 0x6F"
definition CHIP_8822BS :: u8 where "CHIP_8822BS = 0x70"
definition CHIP_8723DS :: u8 where "CHIP_8723DS = 0x71"
definition CHIP_8821CS :: u8 where "CHIP_8821CS = 0x72"
definition CHIP_8822CS :: u8 where "CHIP_8822CS = 0x73"
definition CHIP_8761B :: u8 where "CHIP_8761B = 0x74"
definition CHIP_8852AS :: u8 where "CHIP_8852AS = 0x75"
definition CHIP_8723FS :: u8 where "CHIP_8723FS = 0x76"
definition CHIP_8852CS :: u8 where "CHIP_8852CS = 0x77"
definition CHIP_8852BP :: u8 where "CHIP_8852BP = 0x78"

definition RTL_FW_MATCH_CHIP_TYPE :: u32 where "RTL_FW_MATCH_CHIP_TYPE = push_bit 0 1"
definition RTL_FW_MATCH_HCI_VER :: u32 where "RTL_FW_MATCH_HCI_VER = push_bit 1 1"
definition RTL_FW_MATCH_HCI_REV :: u32 where "RTL_FW_MATCH_HCI_REV = push_bit 2 1"

named_theorems db_consts \<open>the values of the identifiers\<close>

lemmas rom_lmp_defs =
  ROM_LMP_NONE_def
  ROM_LMP_8723a_def
  ROM_LMP_8723b_def
  ROM_LMP_8821a_def
  ROM_LMP_8761a_def
  ROM_LMP_8761btc_def
  ROM_LMP_8703a_def
  ROM_LMP_8763a_def
  ROM_LMP_8703b_def
  ROM_LMP_8723c_def
  ROM_LMP_8822b_def
  ROM_LMP_8822c_def
  ROM_LMP_8852a_def
  ROM_LMP_8723cs_xx_def
  ROM_LMP_8723cs_cg_def
  ROM_LMP_8723cs_vf_def

lemmas chip_defs =
  CHIP_8852BS_def
  CHIP_8703AS_def
  CHIP_8723CS_CG_def
  CHIP_8723CS_VF_def
  CHIP_8723CS_XX_def
  CHIP_8703BS_def
  CHIP_8725AS_def
  CHIP_8852BPE_VR_def
  CHIP_8852BPS_def
  CHIP_UNKNOWN_def
  CHIP_8761AT_def
  CHIP_8761ATF_def
  CHIP_8761BTC_def
  CHIP_8761BH4_def
  CHIP_8723BS_def
  CHIP_BEFORE_def
  CHIP_8822BS_def
  CHIP_8723DS_def
  CHIP_8821CS_def
  CHIP_8822CS_def
  CHIP_8761B_def
  CHIP_8852AS_def
  CHIP_8723FS_def
  CHIP_8852CS_def
  CHIP_8852BP_def

declare rom_lmp_defs [db_consts] chip_defs [db_consts]
declare RTL_FW_MATCH_CHIP_TYPE_def [db_consts] RTL_FW_MATCH_HCI_VER_def [db_consts]
  RTL_FW_MATCH_HCI_REV_def [db_consts]

definition project_id :: "u16 list" where
  "project_id =
    [ROM_LMP_8723a, ROM_LMP_8723b, ROM_LMP_8821a, ROM_LMP_8761a, ROM_LMP_8703a, ROM_LMP_8763a,
      ROM_LMP_8703b, ROM_LMP_8723c, ROM_LMP_8822b, ROM_LMP_8723b, ROM_LMP_8821a, ROM_LMP_NONE,
      ROM_LMP_NONE, ROM_LMP_8822c, ROM_LMP_8761a, ROM_LMP_NONE, ROM_LMP_NONE, ROM_LMP_NONE,
      ROM_LMP_8852a, ROM_LMP_8723b, ROM_LMP_8852a, ROM_LMP_NONE, ROM_LMP_NONE, ROM_LMP_NONE,
      ROM_LMP_NONE, ROM_LMP_8852a, ROM_LMP_NONE, ROM_LMP_NONE, ROM_LMP_NONE, ROM_LMP_NONE,
      ROM_LMP_NONE, ROM_LMP_NONE, ROM_LMP_NONE, ROM_LMP_NONE, ROM_LMP_8852a]"

section \<open>The patch tables\<close>

definition patch_entry ::
  "u32 \<Rightarrow> u8 \<Rightarrow> u16 \<Rightarrow> u16 \<Rightarrow> u8 \<Rightarrow> u16 \<Rightarrow> string \<Rightarrow> string \<Rightarrow> string \<Rightarrow> patch_info" where
  "patch_entry flags chip lmp proj hver hrev fw cfg nm =
     \<lparr>match_flags = flags, pi_chip_type = chip, pi_lmp_subver = lmp, proj_id = proj,
      pi_hci_ver = hver, pi_hci_rev = hrev, patch_file = fw, config_file = cfg, ic_name = nm\<rparr>"

definition h4_patch_table :: "patch_info list" where
  "h4_patch_table = [
     patch_entry RTL_FW_MATCH_CHIP_TYPE CHIP_8761AT 0x8761 0xffff 0 0x000a
       ''rtl8761at_fw'' ''rtl8761at_config'' ''RTL8761AT'',
     patch_entry RTL_FW_MATCH_CHIP_TYPE CHIP_8761ATF 0x8761 0xffff 0 0x000a
       ''rtl8761atf_fw'' ''rtl8761atf_config'' ''RTL8761ATF'',
     patch_entry RTL_FW_MATCH_CHIP_TYPE CHIP_8761BTC 0x8763 0xffff 0 0x000b
       ''rtl8761btc_fw'' ''rtl8761btc_config'' ''RTL8761BTC'',
     patch_entry RTL_FW_MATCH_CHIP_TYPE CHIP_8761BH4 0x8761 0xffff 0 0x000b
       ''rtl8761bh4_fw'' ''rtl8761bh4_config'' ''RTL8761BH4'',
     patch_entry (RTL_FW_MATCH_HCI_VER OR RTL_FW_MATCH_HCI_REV)
       CHIP_8723DS ROM_LMP_8723b ROM_LMP_8723b 8 0x000d
       ''rtl8723dsh4_fw'' ''rtl8723dsh4_config'' ''RTL8723DSH4'',
     patch_entry 0 0 0 ROM_LMP_NONE 0 0
       ''rtl_none_fw'' ''rtl_none_config'' ''NONE'']"

definition patch_table :: "patch_info list" where
  "patch_table = [
     patch_entry 0 0 ROM_LMP_8723a ROM_LMP_8723a 0 0
       ''rtl8723a_fw'' ''rtl8723a_config'' ''RTL8723AS'',
     patch_entry RTL_FW_MATCH_HCI_REV CHIP_8821CS ROM_LMP_8821a ROM_LMP_8821a 0 0x000c
       ''rtl8821c_fw'' ''rtl8821c_config'' ''RTL8821CS'',
     patch_entry 0 0 ROM_LMP_8821a ROM_LMP_8821a 0 0
       ''rtl8821a_fw'' ''rtl8821a_config'' ''RTL8821AS'',
     patch_entry (RTL_FW_MATCH_HCI_VER OR RTL_FW_MATCH_HCI_REV)
       0 ROM_LMP_8761a ROM_LMP_8761a 0x06 0x000a
       ''rtl8761a_fw'' ''rtl8761a_config'' ''RTL8761ATV'',
     patch_entry (RTL_FW_MATCH_CHIP_TYPE OR RTL_FW_MATCH_HCI_VER OR RTL_FW_MATCH_HCI_REV)
       CHIP_8725AS ROM_LMP_8761a ROM_LMP_8761a 0x0a 0x000b
       ''rtl8725as_fw'' ''rtl8725as_config'' ''RTL8725AS'',
     patch_entry (RTL_FW_MATCH_HCI_VER OR RTL_FW_MATCH_HCI_REV)
       CHIP_8761B ROM_LMP_8761a ROM_LMP_8761a 0x0a 0x000b
       ''rtl8761b_fw'' ''rtl8761b_config'' ''RTL8761BTV'',
     patch_entry RTL_FW_MATCH_HCI_REV CHIP_8822BS ROM_LMP_8822b ROM_LMP_8822b 0 0x000b
       ''rtl8822b_fw'' ''rtl8822b_config'' ''RTL8822BS'',
     patch_entry RTL_FW_MATCH_HCI_REV CHIP_8822CS ROM_LMP_8822c ROM_LMP_8822c 0 0x000c
       ''rtl8822cs_fw'' ''rtl8822cs_config'' ''RTL8822CS'',
     patch_entry RTL_FW_MATCH_HCI_REV CHIP_8852AS ROM_LMP_8852a ROM_LMP_8852a 11 0x000a
       ''rtl8852as_fw'' ''rtl8852as_config'' ''RTL8852AS'',
     patch_entry (RTL_FW_MATCH_CHIP_TYPE OR RTL_FW_MATCH_HCI_VER OR RTL_FW_MATCH_HCI_REV)
       CHIP_8852BS ROM_LMP_8852a ROM_LMP_8852a 11 0x000b
       ''rtl8852bs_fw'' ''rtl8852bs_config'' ''RTL8852BS'',
     patch_entry (RTL_FW_MATCH_CHIP_TYPE OR RTL_FW_MATCH_HCI_VER OR RTL_FW_MATCH_HCI_REV)
       CHIP_8852BP ROM_LMP_8852a ROM_LMP_8852a 11 0x000b
       ''rtl8852bps_fw'' ''rtl8852bps_config'' ''RTL8852BP'',
     patch_entry (RTL_FW_MATCH_CHIP_TYPE OR RTL_FW_MATCH_HCI_VER OR RTL_FW_MATCH_HCI_REV)
       CHIP_8852CS ROM_LMP_8852a ROM_LMP_8852a 11 0x000c
       ''rtl8852cs_fw'' ''rtl8852cs_config'' ''RTL8852CS'',
     patch_entry RTL_FW_MATCH_CHIP_TYPE CHIP_8703BS ROM_LMP_8703b ROM_LMP_8703b 0 0
       ''rtl8703b_fw'' ''rtl8703b_config'' ''RTL8703BS'',
     patch_entry RTL_FW_MATCH_CHIP_TYPE CHIP_8723CS_XX ROM_LMP_8703b ROM_LMP_8723cs_xx 0 0
       ''rtl8723cs_fw'' ''rtl8723cs_config'' ''RTL8723CS_XX'',
     patch_entry RTL_FW_MATCH_CHIP_TYPE CHIP_8723CS_CG ROM_LMP_8703b ROM_LMP_8723cs_cg 0 0
       ''rtl8723cs_fw'' ''rtl8723cs_config'' ''RTL8723CS_CG'',
     patch_entry RTL_FW_MATCH_CHIP_TYPE CHIP_8723CS_VF ROM_LMP_8703b ROM_LMP_8723cs_vf 0 0
       ''rtl8723cs_fw'' ''rtl8723cs_config'' ''RTL8723CS_VF'',
     patch_entry (RTL_FW_MATCH_HCI_VER OR RTL_FW_MATCH_HCI_REV)
       0 ROM_LMP_8723b ROM_LMP_8723b 6 0x000b
       ''rtl8723b_fw'' ''rtl8723b_config'' ''RTL8723BS'',
     patch_entry (RTL_FW_MATCH_HCI_VER OR RTL_FW_MATCH_HCI_REV)
       CHIP_8723DS ROM_LMP_8723b ROM_LMP_8723b 8 0x000d
       ''rtl8723d_fw'' ''rtl8723d_config'' ''RTL8723DS'',
     patch_entry (RTL_FW_MATCH_HCI_VER OR RTL_FW_MATCH_HCI_REV)
       CHIP_8723FS ROM_LMP_8723b ROM_LMP_8723b 11 0x000f
       ''rtl8723fs_fw'' ''rtl8723fs_config'' ''RTL8723FS'',
     patch_entry 0 0 0 ROM_LMP_NONE 0 0
       ''rtl_none_fw'' ''rtl_none_config'' ''NONE'']"

section \<open>Scanning the patch tables\<close>

text \<open>
  The loop of \<open>get_patch_entry\<close>: it stops at the first entry without a subversion, or at the
  first entry none of whose flagged fields differs. It has no other bound.
\<close>

fun patch_scan :: "rtb_struct \<Rightarrow> patch_info list \<Rightarrow> patch_info res" where
  "patch_scan s [] = Fault"
| "patch_scan s (n # ns) =
     (if pi_lmp_subver n = 0 then Ret n
      else if match_flags n AND RTL_FW_MATCH_CHIP_TYPE \<noteq> 0 \<and> pi_chip_type n \<noteq> chip_type s
        then patch_scan s ns
      else if match_flags n AND RTL_FW_MATCH_HCI_VER \<noteq> 0 \<and> pi_hci_ver n \<noteq> hci_ver s
        then patch_scan s ns
      else if match_flags n AND RTL_FW_MATCH_HCI_REV \<noteq> 0 \<and> pi_hci_rev n \<noteq> hci_rev s
        then patch_scan s ns
      else if pi_lmp_subver n \<noteq> lmp_subver s then patch_scan s ns
      else Ret n)"

definition get_patch_entry :: "rtb_struct \<Rightarrow> patch_info res" where
  "get_patch_entry s =
     patch_scan s (if proto s = HCI_UART_3WIRE then patch_table else h4_patch_table)"

section \<open>The place of the device address\<close>

definition is_mac :: "u8 \<Rightarrow> u16 \<Rightarrow> bool" where
  "is_mac chip ofs =
     (if chip \<in> {CHIP_8822BS, CHIP_8723DS, CHIP_8821CS, CHIP_8723CS_XX, CHIP_8723CS_CG,
                 CHIP_8723CS_VF} then ofs = 0x0044
      else if chip \<in> {CHIP_8822CS, CHIP_8761B, CHIP_8852AS, CHIP_8723FS, CHIP_8852BS,
                      CHIP_8852CS} then ofs = 0x0030
      else if chip \<in> {CHIP_8761AT, CHIP_8761ATF, CHIP_8761BTC, CHIP_8723BS} then ofs = 0x003c
      else False)"

definition get_mac_offset :: "u8 \<Rightarrow> u16" where
  "get_mac_offset chip =
     (if chip \<in> {CHIP_8822BS, CHIP_8723DS, CHIP_8821CS} then 0x0044
      else if chip \<in> {CHIP_8822CS, CHIP_8761B, CHIP_8852AS, CHIP_8723FS, CHIP_8852BS,
                      CHIP_8852CS} then 0x0030
      else 0x003c)"

section \<open>Line speeds\<close>

record rtb_baud =
  rtb_speed :: u32
  uart_speed :: int

definition baudrates :: "rtb_baud list" where
  "baudrates =
     map (\<lambda>(v, u). \<lparr>rtb_speed = v, uart_speed = u\<rparr>)
      [(0x0252C014, 115200), (0x0252C00A, 230400), (0x05F75004, 921600), (0x00005004, 1000000),
       (0x04928002, 1500000), (0x01128002, 1500000), (0x00005002, 2000000),
       (0x0000B001, 2500000), (0x04928001, 3000000), (0x052A6001, 3500000),
       (0x00005001, 4000000)]"

fun vendor_scan :: "u32 \<Rightarrow> rtb_baud list \<Rightarrow> u32" where
  "vendor_scan v [] = 115200"
| "vendor_scan v (b # bs) = (if rtb_speed b = v then of_int (uart_speed b) else vendor_scan v bs)"

definition vendor_speed_to_std :: "u32 \<Rightarrow> u32" where
  "vendor_speed_to_std v = vendor_scan v baudrates"

fun std_scan :: "int \<Rightarrow> rtb_baud list \<Rightarrow> u32" where
  "std_scan u [] = 0x701D"
| "std_scan u (b # bs) = (if uart_speed b = u then rtb_speed b else std_scan u bs)"

definition std_speed_to_vendor :: "int \<Rightarrow> u32" where
  "std_speed_to_vendor u = std_scan u baudrates"

section \<open>First-match scans\<close>

text \<open>
  What the three scans share: each walks a table until an entry fits the key, and answers with
  that entry or, at the end of the table, with a fixed answer.
\<close>

locale first_match =
  fixes scan :: "'k \<Rightarrow> 'e list \<Rightarrow> 'r"
    and fits :: "'k \<Rightarrow> 'e \<Rightarrow> bool"
    and answer :: "'e \<Rightarrow> 'r"
    and miss :: 'r
  assumes scan_end: "scan k [] = miss"
    and scan_hit: "fits k e \<Longrightarrow> scan k (e # es) = answer e"
    and scan_skip: "\<not> fits k e \<Longrightarrow> scan k (e # es) = scan k es"
begin

lemma scan_find: "scan k es = (case find (fits k) es of None \<Rightarrow> miss | Some e \<Rightarrow> answer e)"
  by (induction es) (simp_all add: scan_end scan_hit scan_skip)

lemma scan_miss: "(\<And>e. e \<in> set es \<Longrightarrow> \<not> fits k e) \<Longrightarrow> scan k es = miss"
  by (induction es) (simp_all add: scan_end scan_skip)

end

definition entry_fits :: "rtb_struct \<Rightarrow> patch_info \<Rightarrow> bool" where
  "entry_fits s n \<longleftrightarrow>
     (match_flags n AND RTL_FW_MATCH_CHIP_TYPE \<noteq> 0 \<longrightarrow> pi_chip_type n = chip_type s) \<and>
     (match_flags n AND RTL_FW_MATCH_HCI_VER \<noteq> 0 \<longrightarrow> pi_hci_ver n = hci_ver s) \<and>
     (match_flags n AND RTL_FW_MATCH_HCI_REV \<noteq> 0 \<longrightarrow> pi_hci_rev n = hci_rev s) \<and>
     pi_lmp_subver n = lmp_subver s"

interpretation patch: first_match "\<lambda>s es. patch_scan s (es @ [last patch_table])"
  "\<lambda>s n. pi_lmp_subver n = 0 \<or> entry_fits s n" Ret "Ret (last patch_table)"
  by unfold_locales (auto simp: patch_table_def patch_entry_def entry_fits_def)

interpretation to_std: first_match vendor_scan "\<lambda>v b. rtb_speed b = v" "\<lambda>b. of_int (uart_speed b)"
  "115200"
  by unfold_locales simp_all

interpretation to_vendor: first_match std_scan "\<lambda>u b. uart_speed b = u" rtb_speed "0x701D"
  by unfold_locales simp_all

section \<open>What the scans find\<close>

definition entries :: "rtb_struct \<Rightarrow> patch_info list" where
  "entries s = butlast (if proto s = HCI_UART_3WIRE then patch_table else h4_patch_table)"

lemma entries_subver: "e \<in> set (entries s) \<Longrightarrow> pi_lmp_subver e \<noteq> 0"
  by (auto simp: entries_def patch_table_def h4_patch_table_def patch_entry_def db_consts
      split: if_splits)

lemma get_patch_entry_scan:
  "get_patch_entry s = patch_scan s (entries s @ [last patch_table])"
  by (simp add: get_patch_entry_def entries_def patch_table_def h4_patch_table_def)

lemma last_patch_table: "ic_name (last patch_table) = ''NONE''" "pi_lmp_subver (last patch_table) = 0"
  by (simp_all add: patch_table_def patch_entry_def)

lemma get_patch_entry_find:
  "get_patch_entry s =
     Ret (case find (entry_fits s) (entries s) of None \<Rightarrow> last patch_table | Some e \<Rightarrow> e)"
proof -
  have "find (\<lambda>n. pi_lmp_subver n = 0 \<or> entry_fits s n) (entries s) = find (entry_fits s) (entries s)"
    using entries_subver by (intro find_cong) auto
  then show ?thesis
    by (simp add: get_patch_entry_scan patch.scan_find split: option.split)
qed

lemma get_patch_entry_mem:
  "\<exists>e \<in> set (patch_table @ h4_patch_table). get_patch_entry s = Ret e"
proof -
  have "set (entries s) \<subseteq> set (patch_table @ h4_patch_table)"
    by (auto simp: entries_def dest: in_set_butlastD)
  moreover have "last patch_table \<in> set (patch_table @ h4_patch_table)"
    by (simp add: patch_table_def)
  moreover have "e \<in> set (entries s)" if "find (entry_fits s) (entries s) = Some e" for e
    using that by (auto simp: find_Some_iff)
  ultimately show ?thesis
    unfolding get_patch_entry_find by (cases "find (entry_fits s) (entries s)") (auto simp: subset_eq)
qed

text \<open>
  \<open>get_patch_entry\<close> never runs past its table and never answers with a null pointer:
  the result is the first entry of the table of the protocol whose flagged fields and LMP
  subversion are those the controller reported, and the entry named NONE when there is none.
\<close>
theorem get_patch_entry_first:
  "get_patch_entry s =
     Ret (case find (entry_fits s) (entries s) of None \<Rightarrow> last patch_table | Some e \<Rightarrow> e)"
  by (rule get_patch_entry_find)

definition identify :: "int \<Rightarrow> patch_info \<Rightarrow> rtb_struct" where
  "identify prot e = rtb_cfg\<lparr>proto := prot, chip_type := pi_chip_type e, hci_ver := pi_hci_ver e,
     hci_rev := pi_hci_rev e, lmp_subver := pi_lmp_subver e\<rparr>"

text \<open>
  No entry of a patch table is hidden by an earlier one: a controller that reports
  exactly the fields of an entry is given that entry, over either protocol.
\<close>
theorem patch_tables_unshadowed:
  "list_all (\<lambda>e. get_patch_entry (identify HCI_UART_3WIRE e) = Ret e) (butlast patch_table) \<and>
   list_all (\<lambda>e. get_patch_entry (identify HCI_UART_H4 e) = Ret e) (butlast h4_patch_table)"
  by code_simp

text \<open>
  The offset at which the device address is added (\<open>get_mac_offset\<close>) and the offset
  at which it is recognised (\<open>is_mac\<close>) agree, except for the three RTL8723CS chip types:
  there the address is recognised at 0x44 only but would be added at 0x3c.
\<close>
theorem mac_offsets_agree:
  "is_mac chip ofs \<and> ofs \<noteq> get_mac_offset chip \<longleftrightarrow>
     chip \<in> {CHIP_8723CS_XX, CHIP_8723CS_CG, CHIP_8723CS_VF} \<and> ofs = 0x0044"
  by (auto simp: is_mac_def get_mac_offset_def db_consts)

text \<open>
  Translating a standard speed to its vendor code and back gives the speed again when
  the table lists it and 115200 otherwise.
\<close>
theorem speed_round_trip:
  "vendor_speed_to_std (std_speed_to_vendor u) =
     (if u \<in> uart_speed ` set baudrates then of_int u else 115200)"
  by (auto simp: vendor_speed_to_std_def std_speed_to_vendor_def baudrates_def)

text \<open>
  Translating a vendor code to its speed and back gives the code again when the table
  lists it, save for the second code of 1500000, which turns into the first; an unknown code
  turns into that of 115200.
\<close>
theorem vendor_round_trip:
  "std_speed_to_vendor (uint (vendor_speed_to_std v)) =
     (if v \<in> rtb_speed ` set baudrates then if v = 0x01128002 then 0x04928002 else v
      else 0x0252C014)"
  by (auto simp: vendor_speed_to_std_def std_speed_to_vendor_def baudrates_def)

end
