(* ===== verification/Cfg_Text.thy ===== *)
theory Cfg_Text
  imports Patch_Db
begin

text \<open>
  The two text files rtb_fwc.c reads: the extra configuration (\<open>parse_extra_config\<close>,
  \<open>config_process\<close>, \<open>line_process\<close>) and the device address (\<open>bachk\<close> and the conversion in
  \<open>rtb_read_config\<close>), with the functions of the C library they rest on. Characters are bytes in
  ASCII, as the program reads them from the files.
\<close>

section \<open>Configuration items\<close>

text \<open>
  A \<open>struct cfg_list_item\<close> without its links: \<open>ci_data\<close> is the memory allocated behind it.
\<close>

record cfg_item =
  ci_offset :: u16
  ci_len :: u8
  ci_data :: bytes

definition item_ok :: "cfg_item \<Rightarrow> bool" where
  "item_ok n \<longleftrightarrow> length (ci_data n) = unat (ci_len n)"

section \<open>Files\<close>

text \<open>
  What a path leads to: the size \<open>stat\<close> reports, whether \<open>open\<close> succeeds, and the contents, or
  \<open>None\<close> when \<open>read\<close> fails. A file system is a map from paths; a path outside it can be neither
  inspected nor opened.
\<close>

record os_file =
  f_size :: nat
  f_open :: bool
  f_data :: "bytes option"

type_synonym file_system = "string \<Rightarrow> os_file option"

section \<open>The C library\<close>

definition isspace :: "u8 \<Rightarrow> bool" where
  "isspace c \<longleftrightarrow> c \<in> {32, 9, 10, 11, 12, 13}"

definition hex_val :: "u8 \<Rightarrow> nat option" where
  "hex_val c =
     (if 48 \<le> c \<and> c \<le> 57 then Some (unat c - 48)
      else if 65 \<le> c \<and> c \<le> 70 then Some (unat c - 55)
      else if 97 \<le> c \<and> c \<le> 102 then Some (unat c - 87)
      else None)"

definition isxdigit :: "u8 \<Rightarrow> bool" where
  "isxdigit c \<longleftrightarrow> hex_val c \<noteq> None"

fun hex_run :: "nat \<Rightarrow> bytes \<Rightarrow> nat" where
  "hex_run acc [] = acc"
| "hex_run acc (c # cs) = (case hex_val c of None \<Rightarrow> acc | Some d \<Rightarrow> hex_run (16 * acc + d) cs)"

text \<open>
  \<open>strtoul (s, NULL, 16)\<close> with a \<open>long\<close> of 64 bits: white space, a sign, an optional \<open>0x\<close> in
  front of a digit, and digits up to the first other character; a value that does not fit is the
  largest one.
\<close>

definition strip_0x :: "bytes \<Rightarrow> bytes" where
  "strip_0x s =
     (case s of
        z # x # d # r \<Rightarrow> if z = 48 \<and> x \<in> {120, 88} \<and> isxdigit d then d # r else s
      | _ \<Rightarrow> s)"

definition strtoul16 :: "bytes \<Rightarrow> u64" where
  "strtoul16 str =
     (let s = dropWhile isspace str;
          neg = (s \<noteq> [] \<and> hd s = 45);
          s = (if s \<noteq> [] \<and> hd s \<in> {43, 45} then tl s else s);
          v = hex_run 0 (strip_0x s)
      in if v \<ge> 2 ^ 64 then - 1 else if neg then - of_nat v else of_nat v)"

text \<open>All the tokens a loop over \<open>strsep\<close> returns, the empty ones included.\<close>

fun strsep_all :: "(u8 \<Rightarrow> bool) \<Rightarrow> bytes \<Rightarrow> bytes list" where
  "strsep_all p [] = [[]]"
| "strsep_all p (c # cs) =
     (if p c then [] # strsep_all p cs
      else (case strsep_all p cs of [] \<Rightarrow> [[c]] | t # ts \<Rightarrow> (c # t) # ts))"

text \<open>The C string that starts at the first byte of a buffer.\<close>

definition c_str :: "bytes \<Rightarrow> bytes" where
  "c_str buf = takeWhile (\<lambda>c. c \<noteq> 0) buf"

section \<open>The extra configuration\<close>

text \<open>The loop that fills \<open>argv\<close>: it stops after 32 tokens.\<close>

fun line_args :: "bytes list \<Rightarrow> bytes list \<Rightarrow> bytes list" where
  "line_args argv [] = argv"
| "line_args argv (ptr # ptrs) =
     (if ptr = [] then line_args argv ptrs
      else if length (argv @ [ptr]) \<ge> 32 then argv @ [ptr]
      else line_args (argv @ [ptr]) ptrs)"

definition line_process ::
  "bytes \<Rightarrow> cfg_item list \<Rightarrow> 'a world_scheme \<Rightarrow> cfg_item list \<times> 'a world_scheme" where
  "line_process buf extracfgs s =
     (let argv = line_args [] (strsep_all (\<lambda>c. c \<in> {44, 32, 9}) buf) in
      if length argv < 4 then (extracfgs, s) else
      let ofs = strtoul16 (argv ! 0) OR push_bit 8 (strtoul16 (argv ! 1));
          l = ucast (strtoul16 (argv ! 2)) :: u8 in
      if l \<noteq> of_nat (length argv - 3) then (extracfgs, s) else
      case do_malloc s of (ok, s) \<Rightarrow>
        if \<not> ok then (extracfgs, s)
        else (extracfgs @ [\<lparr>ci_offset = ucast ofs, ci_len = l,
                ci_data = map (\<lambda>i. ucast (strtoul16 (argv ! (3 + i)))) [0..<unat l]\<rparr>], s))"

fun config_lines ::
  "bytes list \<Rightarrow> cfg_item list \<Rightarrow> 'a world_scheme \<Rightarrow> cfg_item list \<times> 'a world_scheme" where
  "config_lines [] extracfgs s = (extracfgs, s)"
| "config_lines (ptr # ptrs) extracfgs s =
     (if ptr = [] then config_lines ptrs extracfgs s
      else case line_process ptr extracfgs s of (extracfgs, s) \<Rightarrow> config_lines ptrs extracfgs s)"

definition config_process ::
  "bytes \<Rightarrow> cfg_item list \<Rightarrow> 'a world_scheme \<Rightarrow> cfg_item list \<times> 'a world_scheme" where
  "config_process buf extracfgs s =
     config_lines (strsep_all (\<lambda>c. c \<in> {10, 13}) (c_str buf)) extracfgs s"

text \<open>
  \<open>parse_extra_config\<close>: the buffer has 256 bytes, of which the last two are kept for the end of
  the last line and of the string.
\<close>

definition parse_extra_config ::
  "file_system \<Rightarrow> string \<Rightarrow> cfg_item list \<Rightarrow> 'a world_scheme \<Rightarrow> cfg_item list \<times> 'a world_scheme" where
  "parse_extra_config fs path extracfgs s =
     (case fs path of
        None \<Rightarrow> (extracfgs, s)
      | Some f \<Rightarrow>
          if \<not> f_open f then (extracfgs, s) else
          case f_data f of
            None \<Rightarrow> (extracfgs, s)
          | Some d \<Rightarrow>
              let buf = take 256 d in
              if buf = [] then (extracfgs, s)
              else if length buf > 254 then (extracfgs, s)
              else config_process (buf @ [10, 0]) extracfgs s)"

section \<open>The device address\<close>

fun bachk_loop :: "bytes \<Rightarrow> int" where
  "bachk_loop [] = 0"
| "bachk_loop (a # s) =
     (if \<not> isxdigit a then -1 else
      case s of
        [] \<Rightarrow> -1
      | b # s \<Rightarrow>
          if \<not> isxdigit b then -1 else
          case s of [] \<Rightarrow> 0 | c # s \<Rightarrow> if c \<noteq> 58 then -1 else bachk_loop s)"

definition bachk :: "bytes option \<Rightarrow> int" where
  "bachk str =
     (case str of
        None \<Rightarrow> -1
      | Some s \<Rightarrow> if length s \<noteq> 17 then -1 else bachk_loop s)"

text \<open>
  \<open>bdaddr[5]\<close> is the first pair of digits of the text. \<open>bdaddr_lap\<close> is the replacement of
  the reserved addresses.
\<close>

definition bdaddr_read :: "bytes \<Rightarrow> bytes" where
  "bdaddr_read tbuf = rev (map (\<lambda>k. ucast (strtoul16 (drop (3 * k) tbuf))) [0..<6])"

definition bdaddr_lap :: "bytes \<Rightarrow> bytes" where
  "bdaddr_lap a = (if a ! 3 = 0x9e \<and> a ! 4 = 0x8b \<and> a ! 5 \<le> 0x3f then a[3 := 0x00] else a)"

section \<open>Digits\<close>

definition hexd :: "nat \<Rightarrow> u8" where
  "hexd n = (if n < 10 then of_nat (48 + n) else of_nat (55 + n))"

definition hex2 :: "u8 \<Rightarrow> bytes" where
  "hex2 b = [hexd (unat b div 16), hexd (unat b mod 16)]"

lemma hex_val_hexd: "n < 16 \<Longrightarrow> hex_val (hexd n) = Some n"
proof -
  have "list_all (\<lambda>n. hex_val (hexd n) = Some n) [0..<16]" by code_simp
  then show "n < 16 \<Longrightarrow> hex_val (hexd n) = Some n" by (simp add: list_all_iff)
qed

lemma hex_val_digit:
  assumes "hex_val c = Some d"
  shows "d < 16" "\<not> isspace c" "c \<noteq> 43" "c \<noteq> 45" "c \<noteq> 120" "c \<noteq> 88" "c \<noteq> 58" "c \<noteq> 0"
    "c \<notin> {44, 32, 9}" "c \<notin> {10, 13}"
  using assms by (auto simp: hex_val_def isspace_def word_le_nat_alt split: if_splits)

lemma hex_val_sep [simp]: "hex_val 58 = None"
  by (simp add: hex_val_def)

lemma hex_run_stop: "r = [] \<or> hex_val (hd r) = None \<Longrightarrow> hex_run acc r = acc"
  by (cases r) auto

lemma strtoul16_pair:
  assumes "hex_val a = Some h" and "hex_val b = Some l" and "r = [] \<or> hex_val (hd r) = None"
  shows "strtoul16 (a # b # r) = of_nat (16 * h + l)"
proof -
  note A = hex_val_digit [OF assms(1)] and B = hex_val_digit [OF assms(2)]
  have "strip_0x (a # b # r) = a # b # r"
    using B by (simp add: strip_0x_def split: list.split)
  moreover have "hex_run 0 (a # b # r) = 16 * h + l"
    using assms hex_run_stop by (simp add: mult.commute)
  moreover have "dropWhile isspace (a # b # r) = a # b # r" using A by simp
  moreover have "16 * h + l < 2 ^ 64" using A(1) B(1) by simp
  ultimately show ?thesis
    using A unfolding strtoul16_def by (simp add: Let_def)
qed

lemma hex2_digits: "hex_val (hexd (unat b div 16)) = Some (unat b div 16)"
    "hex_val (hexd (unat b mod 16)) = Some (unat b mod 16)"
  for b :: u8
  using unat_u8_lt [of b] by (simp_all add: hex_val_hexd)

lemma strtoul16_hex2: "strtoul16 (hex2 b) = ucast b"
  by (simp add: hex2_def strtoul16_pair [OF hex2_digits] unsigned_of_nat)

section \<open>Tokens\<close>

fun joined :: "u8 \<Rightarrow> bytes list \<Rightarrow> bytes" where
  "joined c [] = []"
| "joined c [t] = t"
| "joined c (t # ts) = t @ c # joined c ts"

lemma strsep_all_plain: "(\<And>x. x \<in> set t \<Longrightarrow> \<not> p x) \<Longrightarrow> strsep_all p t = [t]"
  by (induction t) auto

lemma strsep_all_sep:
  "(\<And>x. x \<in> set t \<Longrightarrow> \<not> p x) \<Longrightarrow> p c \<Longrightarrow> strsep_all p (t @ c # r) = t # strsep_all p r"
  by (induction t) auto

lemma strsep_all_joined:
  "(\<And>t x. t \<in> set ts \<Longrightarrow> x \<in> set t \<Longrightarrow> \<not> p x) \<Longrightarrow> p c \<Longrightarrow> ts \<noteq> [] \<Longrightarrow>
     strsep_all p (joined c ts) = ts"
proof (induction c ts rule: joined.induct)
  case (2 c t)
  then show ?case by (auto intro: strsep_all_plain)
next
  case (3 c t u us)
  have "strsep_all p (joined c (u # us)) = u # us" by (rule "3.IH") (use "3.prems" in auto)
  moreover have "strsep_all p (t @ c # joined c (u # us)) = t # strsep_all p (joined c (u # us))"
    by (rule strsep_all_sep) (use "3.prems" in auto)
  ultimately show ?case by simp
qed simp

lemma line_args_all:
  "[] \<notin> set ts \<Longrightarrow> length argv + length ts \<le> 32 \<Longrightarrow> line_args argv ts = argv @ ts"
proof (induction ts arbitrary: argv)
  case (Cons t ts)
  have "ts = []" if "31 \<le> length argv" using Cons.prems(2) that by (cases ts) auto
  with Cons show ?case by auto
qed simp

section \<open>Printing and reading an item\<close>

text \<open>
  The text of an item as the manual of the file asks for it: the low and the high byte of the
  offset, the length and the data, two digits each, with blanks between.
\<close>

definition item_bytes :: "cfg_item \<Rightarrow> bytes" where
  "item_bytes n = [byte 0 (ci_offset n), byte 1 (ci_offset n), ci_len n] @ ci_data n"

definition item_text :: "cfg_item \<Rightarrow> bytes" where
  "item_text n = joined 32 (map hex2 (item_bytes n))"

lemma hex2_chars: "x \<in> set (hex2 b) \<Longrightarrow> x \<notin> {44, 32, 9}" "x \<in> set (hex2 b) \<Longrightarrow> x \<notin> {10, 13}"
    "x \<in> set (hex2 b) \<Longrightarrow> x \<noteq> 0" "x \<in> set (hex2 b) \<Longrightarrow> isxdigit x"
  using hex_val_digit [OF hex2_digits(1)] hex_val_digit [OF hex2_digits(2)] hex2_digits [of b]
  by (auto simp: hex2_def isxdigit_def)

lemma hex2_nonempty [simp]: "hex2 b \<noteq> []" "[] \<noteq> hex2 b"
  by (simp_all add: hex2_def)

lemma ofs_bytes: "ucast ((ucast a :: u64) OR push_bit 8 (ucast b)) = le16 a b"
  by (rule bit_eqI)
    (auto simp: bit_le16 bit_ucast_iff bit_or_iff bit_push_bit_iff dest: u8_bit_range)

lemma ucast_ucast_u8: "ucast (ucast (b :: u8) :: u64) = b"
  by (rule bit_eqI) (auto simp: bit_ucast_iff dest: u8_bit_range)

lemma item_text_args:
  assumes "item_ok n" and "unat (ci_len n) \<le> 29"
  shows "line_args [] (strsep_all (\<lambda>c. c \<in> {44, 32, 9}) (item_text n)) = map hex2 (item_bytes n)"
proof -
  have "strsep_all (\<lambda>c. c \<in> {44, 32, 9}) (item_text n) = map hex2 (item_bytes n)"
    unfolding item_text_def
    by (rule strsep_all_joined) (use hex2_chars(1) in \<open>auto simp: item_bytes_def\<close>)
  moreover have "line_args [] (map hex2 (item_bytes n)) = [] @ map hex2 (item_bytes n)"
    by (rule line_args_all) (use assms in \<open>auto simp: item_bytes_def item_ok_def\<close>)
  ultimately show ?thesis by simp
qed

lemma line_process_item:
  assumes "item_ok n" and "0 < unat (ci_len n)" and "unat (ci_len n) \<le> 29" and "mem_ok s"
  shows "\<exists>q. line_process (item_text n) xs s = (xs @ [n], s\<lparr>malloc_q := q\<rparr>) \<and> mem_ok (s\<lparr>malloc_q := q\<rparr>)"
proof -
  define argv where "argv = map hex2 (item_bytes n)"
  have argv: "line_args [] (strsep_all (\<lambda>c. c \<in> {44, 32, 9}) (item_text n)) = argv"
    using item_text_args assms argv_def by simp
  have l: "length argv = 3 + unat (ci_len n)"
    using assms(1) by (simp add: argv_def item_bytes_def item_ok_def)
  have head: "argv ! 0 = hex2 (byte 0 (ci_offset n))" "argv ! 1 = hex2 (byte 1 (ci_offset n))"
      "argv ! 2 = hex2 (ci_len n)"
    by (simp_all add: argv_def item_bytes_def)
  have data: "map (\<lambda>i. ucast (strtoul16 (argv ! (3 + i)))) [0..<unat (ci_len n)] = ci_data n"
    using assms(1)
    by (intro nth_equalityI)
      (simp_all add: argv_def item_bytes_def item_ok_def strtoul16_hex2 ucast_ucast_u8)
  obtain q where q: "do_malloc s = (True, s\<lparr>malloc_q := q\<rparr>)" "list_all (\<lambda>ok. ok) q"
    using do_malloc_ok [OF assms(4)] .
  have n: "\<lparr>ci_offset = le16 (byte 0 (ci_offset n)) (byte 1 (ci_offset n)), ci_len = ci_len n,
      ci_data = ci_data n\<rparr> = n"
    by (cases n) (simp add: le16_bytes del: One_nat_def)
  show ?thesis
    using assms(2) q n
    by (intro exI [of _ q])
      (simp only: line_process_def argv Let_def head strtoul16_hex2 ofs_bytes ucast_ucast_u8 l data,
       simp add: mem_ok_def)
qed

text \<open>The file with one item per line.\<close>

definition items_text :: "cfg_item list \<Rightarrow> bytes" where
  "items_text ns = concat (map (\<lambda>n. item_text n @ [10]) ns)"

lemma config_lines_items:
  assumes "list_all (\<lambda>n. item_ok n \<and> 0 < unat (ci_len n) \<and> unat (ci_len n) \<le> 29) ns" and "mem_ok s"
    and "set blanks \<subseteq> {[]}"
  shows "\<exists>q. config_lines (map item_text ns @ blanks) xs s = (xs @ ns, s\<lparr>malloc_q := q\<rparr>) \<and>
     mem_ok (s\<lparr>malloc_q := q\<rparr>)"
  using assms
proof (induction ns arbitrary: xs s)
  case Nil
  have "config_lines blanks xs s = (xs, s)" using Nil.prems(3) by (induction blanks) auto
  then show ?case using Nil.prems(2) by (intro exI [of _ "malloc_q s"]) simp
next
  case (Cons n ns)
  have "item_text n \<noteq> []" by (simp add: item_text_def item_bytes_def)
  moreover obtain q where q: "line_process (item_text n) xs s = (xs @ [n], s\<lparr>malloc_q := q\<rparr>)"
      "mem_ok (s\<lparr>malloc_q := q\<rparr>)"
    using line_process_item [of n s xs] Cons.prems by auto
  moreover obtain q' where
    "config_lines (map item_text ns @ blanks) (xs @ [n]) (s\<lparr>malloc_q := q\<rparr>)
       = ((xs @ [n]) @ ns, s\<lparr>malloc_q := q\<rparr>\<lparr>malloc_q := q'\<rparr>)"
    "mem_ok (s\<lparr>malloc_q := q\<rparr>\<lparr>malloc_q := q'\<rparr>)"
    using Cons.IH [OF _ q(2) Cons.prems(3), of "xs @ [n]"] Cons.prems(1) by auto
  ultimately show ?case by auto
qed

lemma set_joined: "set (joined c ts) \<subseteq> insert c (\<Union> (set ` set ts))"
  by (induction c ts rule: joined.induct) auto

lemma item_text_chars: "x \<in> set (item_text n) \<Longrightarrow> x \<noteq> 0 \<and> x \<notin> {10, 13}"
  using set_joined [of 32 "map hex2 (item_bytes n)"] hex2_chars(2,3) by (fastforce simp: item_text_def)

lemma strsep_all_items:
  "strsep_all (\<lambda>c. c \<in> {10, 13}) (items_text ns @ [10]) = map item_text ns @ [[], []]"
proof (induction ns)
  case (Cons n ns)
  have "strsep_all (\<lambda>c. c \<in> {10, 13}) (item_text n @ 10 # items_text ns @ [10])
      = item_text n # strsep_all (\<lambda>c. c \<in> {10, 13}) (items_text ns @ [10])"
    by (rule strsep_all_sep) (use item_text_chars in auto)
  with Cons.IH show ?case by (simp add: items_text_def)
qed (simp add: items_text_def)

lemma c_str_items: "c_str (items_text ns @ [10, 0]) = items_text ns @ [10]"
proof -
  have "x \<noteq> 0" if "x \<in> set (items_text ns @ [10])" for x
    using that item_text_chars by (auto simp: items_text_def split: if_splits)
  then show ?thesis
    using takeWhile_append2 [of "items_text ns @ [10]" "\<lambda>c. c \<noteq> 0" "[0]"] by (simp add: c_str_def)
qed

lemma extra_config_items:
  assumes "fs path = Some f" and "f_open f" and "f_data f = Some (items_text ns)"
    and "ns \<noteq> []" and "length (items_text ns) \<le> 254"
    and "list_all (\<lambda>n. item_ok n \<and> 0 < unat (ci_len n) \<and> unat (ci_len n) \<le> 29) ns"
    and "mem_ok s"
  shows "\<exists>q. parse_extra_config fs path xs s = (xs @ ns, s\<lparr>malloc_q := q\<rparr>) \<and>
     mem_ok (s\<lparr>malloc_q := q\<rparr>)"
proof -
  have "items_text ns \<noteq> []" using assms(4) by (cases ns) (simp_all add: items_text_def)
  moreover have "take 256 (items_text ns) = items_text ns" using assms(5) by simp
  ultimately have "parse_extra_config fs path xs s = config_process (items_text ns @ [10, 0]) xs s"
    using assms(1-3,5) by (simp add: parse_extra_config_def Let_def)
  also have "\<dots> = config_lines (map item_text ns @ [[], []]) xs s"
    by (simp only: config_process_def c_str_items strsep_all_items)
  finally show ?thesis using config_lines_items [OF assms(6,7), of "[[], []]" xs] by auto
qed

text \<open>
  Claim C34. Writing configuration items to the text file, one item per line in hexadecimal, and
  reading the file with \<open>parse_extra_config\<close> appends exactly these items to the list, as long
  as the file has at most 254 bytes, each item has 1 to 29 data bytes, and memory is available.
\<close>
theorem extra_config_round_trip:
  assumes "fs path = Some f" and "f_open f" and "f_data f = Some (items_text ns)"
    and "ns \<noteq> []" and "length (items_text ns) \<le> 254"
    and "list_all (\<lambda>n. item_ok n \<and> 0 < unat (ci_len n) \<and> unat (ci_len n) \<le> 29) ns"
    and "mem_ok s"
  shows "\<exists>q. parse_extra_config fs path xs s = (xs @ ns, s\<lparr>malloc_q := q\<rparr>)"
  using extra_config_items [of fs path f ns s xs] assms by blast

lemma extra_config_round_trip_witness:
  "\<exists>q. parse_extra_config
     [''/opt/rtk_btconfig.txt'' \<mapsto> \<lparr>f_size = 18, f_open = True,
        f_data = Some (items_text [\<lparr>ci_offset = 0xc, ci_len = 2, ci_data = [0xab, 0x14]\<rparr>])\<rparr>]
     ''/opt/rtk_btconfig.txt'' [] rtb_cfg
     = ([] @ [\<lparr>ci_offset = 0xc, ci_len = 2, ci_data = [0xab, 0x14]\<rparr>], rtb_cfg\<lparr>malloc_q := q\<rparr>)"
  by (rule extra_config_round_trip [OF _ _ _ _ _ _ , of _ _ "\<lparr>f_size = 18, f_open = True,
        f_data = Some (items_text [\<lparr>ci_offset = 0xc, ci_len = 2, ci_data = [0xab, 0x14]\<rparr>])\<rparr>"])
    (simp_all add: items_text_def item_text_def item_bytes_def hex2_def item_ok_def mem_ok_def)

section \<open>The address text\<close>

definition pairs_text :: "(u8 \<times> u8) list \<Rightarrow> bytes" where
  "pairs_text ps = joined 58 (map (\<lambda>(a, b). [a, b]) ps)"

lemma pairs_text_Cons:
  "pairs_text [(a, b)] = [a, b]" "ps \<noteq> [] \<Longrightarrow> pairs_text ((a, b) # ps) = a # b # 58 # pairs_text ps"
  by (cases ps; simp add: pairs_text_def)+

lemma length_pairs_text: "length ps = Suc k \<Longrightarrow> length (pairs_text ps) = 3 * k + 2"
proof (induction k arbitrary: ps)
  case 0
  then obtain a b where "ps = [(a, b)]" by (metis length_0_conv length_Suc_conv surj_pair)
  then show ?case by (simp add: pairs_text_Cons)
next
  case (Suc k)
  then obtain a b qs where "ps = (a, b) # qs" "length qs = Suc k"
    by (metis length_Suc_conv surj_pair)
  moreover from this have "qs \<noteq> []" by auto
  ultimately show ?case using Suc.IH [of qs] by (simp add: pairs_text_Cons(2))
qed

lemma bachk_loop_pairs:
  "list_all (\<lambda>(a, b). isxdigit a \<and> isxdigit b) ps \<Longrightarrow> ps \<noteq> [] \<Longrightarrow> bachk_loop (pairs_text ps) = 0"
proof (induction ps)
  case (Cons p ps)
  then show ?case by (cases p; cases "ps = []") (simp_all add: pairs_text_Cons)
qed simp

lemma bachk_loop_inv:
  "bachk_loop s = 0 \<Longrightarrow> length s = 3 * k + 2 \<Longrightarrow>
     \<exists>ps. length ps = Suc k \<and> list_all (\<lambda>(a, b). isxdigit a \<and> isxdigit b) ps \<and> s = pairs_text ps"
proof (induction k arbitrary: s)
  case 0
  then obtain a b where s: "s = [a, b]" by (auto simp: length_Suc_conv eval_nat_numeral)
  with 0 show ?case
    by (intro exI [of _ "[(a, b)]"]) (auto simp: pairs_text_Cons split: if_splits)
next
  case (Suc k)
  then obtain a b c r where s: "s = a # b # c # r" and l: "length r = 3 * k + 2"
    by (auto simp: length_Suc_conv eval_nat_numeral)
  with Suc.prems have *: "isxdigit a" "isxdigit b" "c = 58" "bachk_loop r = 0"
    by (auto split: if_splits)
  from Suc.IH [OF *(4) l] obtain ps where
    "length ps = Suc k" "list_all (\<lambda>(a, b). isxdigit a \<and> isxdigit b) ps" "r = pairs_text ps" by blast
  moreover from this have "ps \<noteq> []" by auto
  ultimately show ?case
    using s * by (intro exI [of _ "(a, b) # ps"]) (simp add: pairs_text_Cons(2))
qed

lemma bachk_pairs:
  "bachk (Some s) = 0 \<longleftrightarrow>
     (\<exists>ps. length ps = 6 \<and> list_all (\<lambda>(a, b). isxdigit a \<and> isxdigit b) ps \<and> s = pairs_text ps)"
  (is "_ \<longleftrightarrow> ?R")
proof
  assume "bachk (Some s) = 0"
  then have "length s = 3 * 5 + 2" "bachk_loop s = 0" by (auto simp: bachk_def split: if_splits)
  from bachk_loop_inv [OF this(2,1)] show ?R by (simp add: eval_nat_numeral)
next
  assume ?R
  then obtain ps where ps: "length ps = 6" "list_all (\<lambda>(a, b). isxdigit a \<and> isxdigit b) ps"
    "s = pairs_text ps" by blast
  from ps have "bachk_loop s = 0" by (cases ps) (auto intro: bachk_loop_pairs)
  moreover have "length s = 17" using length_pairs_text [of ps 5] ps by (simp add: eval_nat_numeral)
  ultimately show "bachk (Some s) = 0" by (simp add: bachk_def)
qed

text \<open>
  \<open>bachk\<close> accepts exactly the texts made of six pairs of hexadecimal digits with
  colons between them.
\<close>
theorem bachk_exact:
  "bachk (Some s) = 0 \<longleftrightarrow>
     (\<exists>ps. length ps = 6 \<and> list_all (\<lambda>(a, b). isxdigit a \<and> isxdigit b) ps \<and> s = pairs_text ps)"
  by (rule bachk_pairs)

text \<open>The text of an address held as the program holds it, last octet first.\<close>

definition addr_text :: "bytes \<Rightarrow> bytes" where
  "addr_text a = joined 58 (map hex2 (rev a))"

lemma addr_text_pairs:
  "addr_text a = pairs_text (map (\<lambda>b. (hexd (unat b div 16), hexd (unat b mod 16))) (rev a))"
  by (simp add: addr_text_def pairs_text_def hex2_def [abs_def] comp_def)

lemma bdaddr_read_text: "bdaddr_read (addr_text [a, b, c, d, e, f] @ [0]) = [a, b, c, d, e, f]"
  by (simp add: bdaddr_read_def addr_text_def hex2_def strtoul16_pair [OF hex2_digits]
      upt_rec unsigned_of_nat hex_val_def ucast_ucast_u8)

lemma bachk_addr_text: "bachk (Some (addr_text [a, b, c, d, e, f])) = 0"
  unfolding bachk_pairs addr_text_pairs
  by (intro exI conjI) (auto simp: isxdigit_def hex2_digits)

text \<open>
  Six octets written as an address are accepted by \<open>bachk\<close> and read back by the
  conversion of \<open>rtb_read_config\<close>, the first pair of digits into the last octet.
\<close>
theorem bdaddr_round_trip:
  "bachk (Some (addr_text [a, b, c, d, e, f])) = 0 \<and>
   bdaddr_read (addr_text [a, b, c, d, e, f] @ [0]) = [a, b, c, d, e, f]"
  using bachk_addr_text bdaddr_read_text by blast

text \<open>
  The replacement of the reserved addresses looks at the wrong end: an address whose
  last three octets are 9E:8B:00 to 9E:8B:3F, the range the comment reserves, is kept as it is
  unless its first three octets are of the form 00:8B:9E to 3F:8B:9E as well.
\<close>
theorem reserved_lap_kept:
  "bdaddr_lap (bdaddr_read (addr_text [x, 0x8b, 0x9e, u, v, w] @ [0])) =
     (if u = 0x9e \<and> v = 0x8b \<and> w \<le> 0x3f then [x, 0x8b, 0x9e, 0x00, v, w]
      else [x, 0x8b, 0x9e, u, v, w])"
  unfolding bdaddr_read_text by (simp add: bdaddr_lap_def)

end
