(* ===== verification/Cfg_Merge.thy ===== *)
theory Cfg_Merge
  imports Cfg_Text
begin

text \<open>
  The merge of the extra configuration into the configuration of the file
  (\<open>merge_configs\<close> of rtb_fwc.c). The two lists are sequences of items; the theory
  \<open>Cfg_Links\<close> relates the operations on the links to these sequences.
\<close>

section \<open>The code\<close>

text \<open>
  Where the extra item is while the inner loop runs: still in its own list, in the other list
  at an index among the nodes already passed, or freed.
\<close>

datatype extra_place = Own | Placed nat | Freed

definition del_placed :: "extra_place \<Rightarrow> cfg_item list \<Rightarrow> cfg_item list" where
  "del_placed st passed =
     (case st of Placed k \<Rightarrow> take k passed @ drop (Suc k) passed | _ \<Rightarrow> passed)"

text \<open>
  The inner loop. It reads \<open>extra->offset\<close> for every node, also after the branch that frees
  \<open>extra\<close>, and \<open>list_del (epos)\<close> removes the extra item from whichever list it is in.
\<close>

fun merge_scan ::
  "cfg_item \<Rightarrow> extra_place \<Rightarrow> cfg_item list \<Rightarrow> cfg_item list \<Rightarrow> (extra_place \<times> cfg_item list) res" where
  "merge_scan extra st passed [] = Ret (st, passed)"
| "merge_scan extra st passed (n # rest) =
     (if st = Freed then Fault
      else if ci_offset extra = ci_offset n then
        if ci_len extra < ci_len n then
          rbind (arr_slice (ci_data extra) 0 (unat (ci_len extra))) (\<lambda>d.
          rbind (arr_put (ci_data n) 0 d) (\<lambda>d.
            merge_scan extra Freed (del_placed st passed @ [n\<lparr>ci_data := d\<rparr>]) rest))
        else
          let passed = del_placed st passed
          in merge_scan extra (Placed (length passed)) (passed @ [extra]) rest
      else merge_scan extra st (passed @ [n]) rest)"

text \<open>The outer loop: the new list and the extra items that stayed in their own.\<close>

fun merge_each :: "cfg_item list \<Rightarrow> cfg_item list \<Rightarrow> (cfg_item list \<times> cfg_item list) res" where
  "merge_each head [] = Ret (head, [])"
| "merge_each head (extra # extras) =
     rbind (merge_scan extra Own [] head) (\<lambda>(st, head).
     rbind (merge_each head extras) (\<lambda>(head, left).
       Ret (head, if st = Own then extra # left else left)))"

text \<open>The new contents of both lists.\<close>

definition merge_configs ::
  "cfg_item list \<Rightarrow> cfg_item list \<Rightarrow> (cfg_item list \<times> cfg_item list) res" where
  "merge_configs head head2 =
     (if head2 = [] then Ret (head, head2)
      else if head = [] then Ret (head2, [])
      else rbind (merge_each head head2) (\<lambda>(head, left). Ret (head @ left, [])))"

section \<open>One extra item\<close>

lemma merge_scan_miss:
  "ci_offset extra \<notin> ci_offset ` set rest \<Longrightarrow> st \<noteq> Freed \<Longrightarrow>
     merge_scan extra st passed rest = Ret (st, passed @ rest)"
  by (induction rest arbitrary: passed) auto

lemma merge_scan_skip:
  "ci_offset extra \<notin> ci_offset ` set xs \<Longrightarrow> st \<noteq> Freed \<Longrightarrow>
     merge_scan extra st passed (xs @ rest) = merge_scan extra st (passed @ xs) rest"
  by (induction xs arbitrary: passed) auto

lemma merge_scan_replace:
  assumes "ci_offset extra = ci_offset n" and "\<not> ci_len extra < ci_len n"
    and "ci_offset n \<notin> ci_offset ` set xs" and "ci_offset n \<notin> ci_offset ` set ys"
  shows "merge_scan extra Own [] (xs @ n # ys) = Ret (Placed (length xs), xs @ extra # ys)"
  using assms by (simp add: merge_scan_skip merge_scan_miss del_placed_def)

lemma merge_scan_update:
  assumes "ci_offset extra = ci_offset n" and "ci_len extra < ci_len n"
    and "item_ok extra" and "item_ok n" and "ci_offset n \<notin> ci_offset ` set xs"
  shows "merge_scan extra Own [] (xs @ n # ys) =
     (if ys = [] then Ret (Freed,
        xs @ [n\<lparr>ci_data := ci_data extra @ drop (unat (ci_len extra)) (ci_data n)\<rparr>])
      else Fault)"
proof -
  have "unat (ci_len extra) \<le> unat (ci_len n)" using assms(2) by (simp add: word_less_nat_alt)
  then show ?thesis
    using assms by (cases ys) (simp_all add: merge_scan_skip del_placed_def item_ok_def)
qed

section \<open>All of them\<close>

text \<open>
  The effect of one extra item on a list whose offsets are distinct: the item with its offset is
  replaced, in its place.
\<close>

definition override :: "cfg_item \<Rightarrow> cfg_item list \<Rightarrow> cfg_item list" where
  "override extra ns = map (\<lambda>n. if ci_offset n = ci_offset extra then extra else n) ns"

abbreviation offsets :: "cfg_item list \<Rightarrow> u16 list" where
  "offsets ns \<equiv> map ci_offset ns"

definition covers :: "cfg_item list \<Rightarrow> cfg_item list \<Rightarrow> bool" where
  "covers ns es \<longleftrightarrow>
     list_all (\<lambda>e. list_all (\<lambda>n. ci_offset n = ci_offset e \<longrightarrow> ci_len n \<le> ci_len e) ns) es"

lemma offset_mem: "x \<in> set ns \<Longrightarrow> ci_offset x = ofs \<Longrightarrow> ofs \<in> ci_offset ` set ns"
  by auto

lemma offsets_override [simp]: "offsets (override e ns) = offsets ns"
  by (simp add: override_def)

lemma override_split:
  assumes "ci_offset n = ci_offset e" and "distinct (offsets (xs @ n # ys))"
  shows "override e (xs @ n # ys) = xs @ e # ys"
  using assms by (auto simp: override_def intro!: map_idI dest: offset_mem)

lemma override_other: "ci_offset e \<notin> set (offsets ns) \<Longrightarrow> override e ns = ns"
  by (auto simp: override_def intro!: map_idI dest: offset_mem)

lemma merge_scan_override:
  assumes "distinct (offsets ns)" and "covers ns [e]"
  shows "\<exists>st. merge_scan e Own [] ns = Ret (st, override e ns) \<and>
     (st = Own \<longleftrightarrow> ci_offset e \<notin> set (offsets ns))"
proof (cases "ci_offset e \<in> set (offsets ns)")
  case True
  then obtain n where n: "n \<in> set ns" "ci_offset n = ci_offset e" by auto
  then obtain xs ys where ns: "ns = xs @ n # ys" by (meson split_list)
  have "ci_offset n \<notin> ci_offset ` set xs" "ci_offset n \<notin> ci_offset ` set ys"
    using assms(1) by (auto simp: ns)
  moreover have "\<not> ci_len e < ci_len n" using assms(2) n by (auto simp: covers_def list_all_iff ns)
  moreover have "override e ns = xs @ e # ys" unfolding ns
    by (rule override_split) (use n assms(1) in \<open>simp_all add: ns\<close>)
  ultimately show ?thesis using True n(2) merge_scan_replace [of e n xs ys] by (auto simp: ns)
next
  case False
  then show ?thesis by (auto simp: merge_scan_miss override_other)
qed

lemma covers_override:
  assumes "covers ns (e # es)" and "distinct (offsets (e # es))"
  shows "covers (override e ns) es"
  using assms by (auto simp: covers_def list_all_iff override_def)

text \<open>The specification: each item is overridden, and the others are appended in their order.\<close>

definition merge_spec :: "cfg_item list \<Rightarrow> cfg_item list \<Rightarrow> cfg_item list" where
  "merge_spec ns es =
     map (\<lambda>n. case find (\<lambda>e. ci_offset e = ci_offset n) es of None \<Rightarrow> n | Some e \<Rightarrow> e) ns @
     filter (\<lambda>e. ci_offset e \<notin> set (offsets ns)) es"

lemma merge_each_spec:
  assumes "distinct (offsets ns)" and "distinct (offsets es)" and "covers ns es"
  shows "merge_each ns es = Ret
     (map (\<lambda>n. case find (\<lambda>e. ci_offset e = ci_offset n) es of None \<Rightarrow> n | Some e \<Rightarrow> e) ns,
      filter (\<lambda>e. ci_offset e \<notin> set (offsets ns)) es)"
  using assms
proof (induction es arbitrary: ns)
  case (Cons e es)
  have "covers ns [e]" using Cons.prems(3) by (simp add: covers_def)
  then obtain st where st: "merge_scan e Own [] ns = Ret (st, override e ns)"
    "st = Own \<longleftrightarrow> ci_offset e \<notin> set (offsets ns)"
    using merge_scan_override Cons.prems(1) by blast
  have miss: "find (\<lambda>e'. ci_offset e' = ci_offset e) es = None"
    using Cons.prems(2) by (auto simp: find_None_iff dest: offset_mem)
  have "merge_each (override e ns) es = Ret
     (map (\<lambda>n. case find (\<lambda>e. ci_offset e = ci_offset n) es of None \<Rightarrow> n | Some e \<Rightarrow> e) (override e ns),
      filter (\<lambda>e'. ci_offset e' \<notin> set (offsets (override e ns))) es)"
    by (rule Cons.IH) (use Cons.prems covers_override in auto)
  moreover have
    "map (\<lambda>n. case find (\<lambda>e. ci_offset e = ci_offset n) es of None \<Rightarrow> n | Some e \<Rightarrow> e) (override e ns)
      = map (\<lambda>n. case find (\<lambda>e. ci_offset e = ci_offset n) (e # es) of None \<Rightarrow> n | Some e \<Rightarrow> e) ns"
    using miss by (auto simp: override_def)
  ultimately show ?case using st by simp
qed simp

text \<open>
  Claim C32. When no two items of a list share an offset and no extra item is shorter than the
  item it is meant to override, \<open>merge_configs\<close> is memory safe and empties the list of extra
  items: each configuration item is replaced, in its place, by the extra item with its
  offset, and the extra items with new offsets follow in their order.
\<close>
theorem merge_configs_correct:
  assumes "distinct (offsets ns)" and "distinct (offsets es)" and "covers ns es"
  shows "merge_configs ns es = Ret (merge_spec ns es, [])"
  using merge_each_spec [OF assms]
  by (auto simp: merge_configs_def merge_spec_def filter_id_conv)

lemma merge_configs_correct_witness:
  "merge_configs
     [\<lparr>ci_offset = 0x30, ci_len = 1, ci_data = [1]\<rparr>, \<lparr>ci_offset = 0xc, ci_len = 1, ci_data = [2]\<rparr>]
     [\<lparr>ci_offset = 0x44, ci_len = 1, ci_data = [3]\<rparr>, \<lparr>ci_offset = 0x30, ci_len = 2, ci_data = [4, 5]\<rparr>]
   = Ret (merge_spec
     [\<lparr>ci_offset = 0x30, ci_len = 1, ci_data = [1]\<rparr>, \<lparr>ci_offset = 0xc, ci_len = 1, ci_data = [2]\<rparr>]
     [\<lparr>ci_offset = 0x44, ci_len = 1, ci_data = [3]\<rparr>, \<lparr>ci_offset = 0x30, ci_len = 2, ci_data = [4, 5]\<rparr>],
     [])"
  by (rule merge_configs_correct) (simp_all add: covers_def)



section \<open>Well-formed items stay well-formed\<close>

lemma merge_scan_item_ok:
  "list_all item_ok passed \<Longrightarrow> list_all item_ok rest \<Longrightarrow> item_ok extra \<Longrightarrow>
     post (merge_scan extra st passed rest) (\<lambda>(st, ns). list_all item_ok ns)"
proof (induction extra st passed rest rule: merge_scan.induct)
  case (2 extra st passed n rest)
  have del: "list_all item_ok (del_placed st passed)"
    using "2.prems"(1)
    by (auto simp: del_placed_def list_all_iff split: extra_place.split dest: in_set_takeD in_set_dropD)
  have upd: "item_ok (n\<lparr>ci_data := d\<rparr>)" if "arr_put (ci_data n) 0 b = Ret d" for b d
    using that "2.prems"(2) by (auto simp: item_ok_def dest: length_arr_put)
  show ?case
    using "2.IH" "2.prems" del upd
    by (auto simp: Let_def intro!: post_intros)
qed simp

lemma merge_each_item_ok:
  "list_all item_ok ns \<Longrightarrow> list_all item_ok es \<Longrightarrow>
     post (merge_each ns es) (\<lambda>(ns, left). list_all item_ok ns \<and> list_all item_ok left)"
proof (induction es arbitrary: ns)
  case (Cons e es)
  show ?case
    using Cons.prems
    by (auto intro!: post_bind2 [OF merge_scan_item_ok] post_bind2 [OF Cons.IH])
qed simp

lemma merge_configs_item_ok:
  "list_all item_ok ns \<Longrightarrow> list_all item_ok es \<Longrightarrow>
     post (merge_configs ns es) (\<lambda>(ns, left). list_all item_ok ns)"
  unfolding merge_configs_def
  by (auto intro!: post_bind2 [OF merge_each_item_ok])

end
