(* ===== verification/Cfg_File.thy ===== *)
theory Cfg_File
  imports Cfg_Merge
begin

text \<open>
  The binary configuration file of rtb_fwc.c: \<open>rtb_parse_config\<close> and \<open>rtb_read_config\<close>, which
  merges the extra items and the device address into it and lays the result out for the download.
\<close>

section \<open>Parsing\<close>

definition cfg_magic :: bytes where "cfg_magic = [0x55, 0xab, 0x23, 0x87]"
definition RTB_CFG_HDR_LEN :: nat where "RTB_CFG_HDR_LEN = 6"

lemma unat_entry_size:
  "unat (ucast (l :: u8) + 3 :: u16) = unat l + 3" "unat (3 + ucast (l :: u8) :: u16) = 3 + unat l"
proof -
  have "unat (ucast l :: u16) = unat l" by (simp add: unat_ucast_up)
  moreover have "unat l + 3 < 2 ^ LENGTH(16)" using unat_u8_lt [of l] by simp
  ultimately show "unat (ucast l + 3 :: u16) = unat l + 3" by (simp add: unat_add_lem [THEN iffD1])
  then show "unat (3 + ucast l :: u16) = 3 + unat l" by (simp only: add.commute)
qed

text \<open>
  The loop of \<open>rtb_parse_config\<close>: \<open>i\<close> counts in 16 bits, \<open>ent\<close> is the distance of the entry
  pointer from the start of the buffer. An item that cannot be allocated is skipped.
\<close>

function parse_items ::
  "bytes \<Rightarrow> u16 \<Rightarrow> u16 \<Rightarrow> nat \<Rightarrow> cfg_item list \<Rightarrow> 'a world_scheme \<Rightarrow> (cfg_item list \<times> 'a world_scheme) res" where
  "parse_items buf cfg_len i ent configs s =
     (if \<not> i < cfg_len then Ret (configs, s)
      else if \<not> ent + 2 < length buf then Fault
      else
        let l = buf ! (ent + 2);
            tmp = ucast l + 3 :: u16;
            (ok, s) = do_malloc s
        in if \<not> ok then parse_items buf cfg_len (i + tmp) (ent + unat tmp) configs s
           else if \<not> ent + 3 + unat l \<le> length buf then Fault
           else parse_items buf cfg_len (i + tmp) (ent + unat tmp)
             (configs @ [\<lparr>ci_offset = le16 (buf ! ent) (buf ! (ent + 1)), ci_len = l,
                ci_data = take (unat l) (drop (ent + 3) buf)\<rparr>]) s)"
  by pat_completeness auto

termination
  by (relation "measure (\<lambda>(buf, cfg_len, i, ent, configs, s). length buf - ent)")
    (auto simp: unat_entry_size)

declare parse_items.simps [simp del]

text \<open>
  \<open>rtb_parse_config\<close>, with the list of configurations. The buffer has as many bytes as the file;
  a comparison or read beyond it is a fault.
\<close>

definition rtb_parse_config ::
  "bytes option \<Rightarrow> nat \<Rightarrow> cfg_item list \<Rightarrow> 'a world_scheme \<Rightarrow> (int \<times> cfg_item list \<times> 'a world_scheme) res" where
  "rtb_parse_config cfg_buf n configs s =
     (case cfg_buf of
        None \<Rightarrow> Ret (-1, configs, s)
      | Some buf \<Rightarrow>
          if n = 0 then Ret (-1, configs, s) else
          rbind (arr_slice buf 0 4) (\<lambda>m.
          if m \<noteq> cfg_magic then Ret (-1, configs, s) else
          rbind (arr_get buf 5) (\<lambda>b5.
          rbind (arr_get buf 4) (\<lambda>b4.
          let cfg_len = push_bit 8 (ucast b5) + ucast b4 :: u16 in
          if (ucast cfg_len :: u64) \<noteq> of_nat n - of_nat RTB_CFG_HDR_LEN then Ret (-1, configs, s) else
          rbind (parse_items buf cfg_len 0 6 configs s) (\<lambda>(configs, s). Ret (0, configs, s))))))"

section \<open>Reading the file\<close>

definition BT_CONFIG_DIRECTORY :: string where "BT_CONFIG_DIRECTORY = ''/lib/firmware/rtlbt/''"
definition EXTRA_CONFIG_FILE :: string where "EXTRA_CONFIG_FILE = ''/opt/rtk_btconfig.txt''"
definition BT_ADDR_FILE :: string where "BT_ADDR_FILE = ''/opt/bdaddr''"
definition BDADDR_STRING_LEN :: nat where "BDADDR_STRING_LEN = 17"

text \<open>
  The part of \<open>rtb_read_config\<close> up to the label \<open>read_cfg\<close> that handles the address file
  (\<open>BT_ADDR_FROM_VENDOR_STORAGE\<close> is not defined; the theory \<open>Vendor_Storage\<close> has the other one).
\<close>

definition read_bdaddr ::
  "file_system \<Rightarrow> u8 \<Rightarrow> cfg_item list \<Rightarrow> 'a world_scheme \<Rightarrow> cfg_item list \<times> 'a world_scheme" where
  "read_bdaddr fs chip extracfgs s =
     (case fs BT_ADDR_FILE of
        None \<Rightarrow> (extracfgs, s)
      | Some f \<Rightarrow>
          if \<not> f_open f then (extracfgs, s) else
          case f_data f of
            None \<Rightarrow> (extracfgs, s)
          | Some d \<Rightarrow>
              let got = take (min (f_size f) BDADDR_STRING_LEN) d;
                  tbuf = got @ replicate (BDADDR_STRING_LEN + 1 - length got) 0
              in if bachk (Some (c_str tbuf)) < 0 then (extracfgs, s)
                 else case do_malloc s of (ok, s) \<Rightarrow>
                   if \<not> ok then (extracfgs, s)
                   else (extracfgs @ [\<lparr>ci_offset = get_mac_offset chip, ci_len = 6,
                           ci_data = bdaddr_lap (bdaddr_read tbuf)\<rparr>], s))"

text \<open>
  The switch over the offset of an item: the address is only printed, the line speed and the
  flow control go into the global state. \<open>n->data\<close> is read without a look at \<open>n->len\<close>
  for the speed. \<open>RTL8723DSH4_UART_HWFLOWC\<close> is not defined, which leaves out the case of the
  offset 0x18.
\<close>

definition note_item :: "u8 \<Rightarrow> cfg_item \<Rightarrow> rtb_struct \<Rightarrow> rtb_struct res" where
  "note_item chip n s =
     (if ci_offset n \<in> {0x003c, 0x0030, 0x0044} then
        if is_mac chip (ci_offset n) \<and> ci_len n = 6
        then rbind (arr_slice (ci_data n) 0 6) (\<lambda>_. Ret s) else Ret s
      else if ci_offset n = 0x000c then
        rbind (arr_slice (ci_data n) 0 4) (\<lambda>d.
        let s = s\<lparr>vendor_baud := le32 (d ! 0) (d ! 1) (d ! 2) (d ! 3)\<rparr> in
        if ci_len n > 12 then
          rbind (arr_get (ci_data n) 12) (\<lambda>d.
            Ret (s\<lparr>uart_flow_ctrl := (if d AND 0x4 \<noteq> 0 then 1 else 0)\<rparr>))
        else Ret s)
      else Ret s)"

text \<open>The loop around it, with the two 16-bit lengths.\<close>

fun note_items ::
  "u8 \<Rightarrow> cfg_item list \<Rightarrow> u16 \<Rightarrow> u16 \<Rightarrow> rtb_struct \<Rightarrow> (u16 \<times> u16 \<times> rtb_struct) res" where
  "note_items chip [] cfg_len dlen s = Ret (cfg_len, dlen, s)"
| "note_items chip (n # ns) cfg_len dlen s =
     rbind (note_item chip n s) (\<lambda>s.
       note_items chip ns (cfg_len + (3 + ucast (ci_len n))) (dlen + (3 + ucast (ci_len n))) s)"

text \<open>The loop that writes the items at \<open>p\<close>, an offset into the reallocated buffer.\<close>

fun write_items :: "bytes \<Rightarrow> nat \<Rightarrow> cfg_item list \<Rightarrow> bytes res" where
  "write_items buf p [] = Ret buf"
| "write_items buf p (n # ns) =
     rbind (arr_put buf p [ucast (ci_offset n AND 0xff), ucast (drop_bit 8 (ci_offset n) AND 0xff),
       ci_len n]) (\<lambda>buf.
     rbind (arr_slice (ci_data n) 0 (unat (ci_len n))) (\<lambda>d.
     rbind (arr_put buf (p + 3) d) (\<lambda>buf.
       write_items buf (p + (3 + unat (ci_len n))) ns)))"

text \<open>
  From the switch to the end: \<open>realloc\<close> keeps the bytes of the file that fit; the bytes past
  them, unspecified in C, are zero here and all overwritten.
\<close>

definition cfg_layout ::
  "u8 \<Rightarrow> bytes \<Rightarrow> cfg_item list \<Rightarrow> rtb_struct \<Rightarrow> (bytes option \<times> int \<times> rtb_struct) res" where
  "cfg_layout chip buf configs s =
     rbind (note_items chip configs 6 0 s) (\<lambda>(cfg_len, dlen, s).
     case do_malloc s of (ok, s) \<Rightarrow>
       if \<not> ok then Ret (None, 0, s) else
       let buf = take (unat cfg_len) buf @ replicate (unat cfg_len - length buf) 0 in
       rbind (arr_put buf 0 cfg_magic) (\<lambda>buf.
       rbind (arr_put buf 4 [ucast (dlen AND 0xff), ucast (drop_bit 8 dlen AND 0xff)]) (\<lambda>buf.
       rbind (write_items buf 6 configs) (\<lambda>buf. Ret (Some buf, int (unat cfg_len), s)))))"

text \<open>
  \<open>rtb_read_config\<close> from the label \<open>read_cfg\<close> on: the result, what \<open>*cfg_len\<close> is left with, and
  the state. The result of \<open>rtb_parse_config\<close> is stored in a \<open>size_t\<close>, so the test for an error
  below zero never succeeds; for the same reason a failed \<open>read\<close> passes the test for a short
  one, and the code goes on with a buffer that was never written.
\<close>

definition rtb_read_config_file ::
  "file_system \<Rightarrow> string \<Rightarrow> u8 \<Rightarrow> cfg_item list \<Rightarrow> rtb_struct \<Rightarrow>
    (bytes option \<times> int \<times> rtb_struct) res" where
  "rtb_read_config_file fs nm chip extracfgs s =
     (case do_malloc s of (ok, s) \<Rightarrow>
      if \<not> ok then Ret (None, 0, s) else
      case fs (BT_CONFIG_DIRECTORY @ nm) of
        None \<Rightarrow> Ret (None, 0, s)
      | Some f \<Rightarrow>
          if \<not> f_open f then Ret (None, 0, s) else
          case do_malloc s of (ok, s) \<Rightarrow>
          if \<not> ok then Ret (None, 0, s) else
          case f_data f of
            None \<Rightarrow> Fault
          | Some d \<Rightarrow>
              let buf = take (f_size f) d in
              if length buf < f_size f then Ret (None, 0, s) else
              rbind (rtb_parse_config (Some buf) (f_size f) [] s) (\<lambda>(result, configs, s).
              let result = of_int result :: u64 in
              if result < 0 then Exit 1 else
              rbind (merge_configs configs extracfgs) (\<lambda>(configs, _).
                cfg_layout chip buf configs s)))"

text \<open>\<open>rtb_read_config\<close>: the extra items and the device address, then the file.\<close>

definition rtb_read_config ::
  "file_system \<Rightarrow> string \<Rightarrow> u8 \<Rightarrow> rtb_struct \<Rightarrow> (bytes option \<times> int \<times> rtb_struct) res" where
  "rtb_read_config fs nm chip s =
     (case parse_extra_config fs EXTRA_CONFIG_FILE [] s of (extracfgs, s) \<Rightarrow>
      case read_bdaddr fs chip extracfgs s of (extracfgs, s) \<Rightarrow>
        rtb_read_config_file fs nm chip extracfgs s)"

section \<open>The format\<close>

text \<open>
  What a configuration file with given items consists of.
\<close>

definition cfg_bytes :: "cfg_item list \<Rightarrow> bytes" where
  "cfg_bytes ns = concat (map item_bytes ns)"

definition cfg_image :: "cfg_item list \<Rightarrow> bytes" where
  "cfg_image ns =
     (let L = of_nat (length (cfg_bytes ns)) :: u16
      in cfg_magic @ [byte 0 L, byte 1 L] @ cfg_bytes ns)"

lemma cfg_bytes_simps [simp]:
  "cfg_bytes [] = []" "cfg_bytes (n # ns) = item_bytes n @ cfg_bytes ns"
  "cfg_bytes (ms @ ns) = cfg_bytes ms @ cfg_bytes ns"
  by (simp_all add: cfg_bytes_def)

lemma length_item_bytes: "item_ok n \<Longrightarrow> length (item_bytes n) = 3 + unat (ci_len n)"
  by (simp add: item_bytes_def item_ok_def)

lemma length_cfg_image [simp]: "length (cfg_image ns) = 6 + length (cfg_bytes ns)"
  by (simp add: cfg_image_def Let_def cfg_magic_def)

text \<open>One round of the loop, when memory is available.\<close>

definition item_read :: "bytes \<Rightarrow> nat \<Rightarrow> cfg_item" where
  "item_read buf ent = \<lparr>ci_offset = le16 (buf ! ent) (buf ! (ent + 1)), ci_len = buf ! (ent + 2),
     ci_data = take (unat (buf ! (ent + 2))) (drop (ent + 3) buf)\<rparr>"

lemma parse_items_step:
  assumes "mem_ok s" and "i < cfg_len" and "ent + 2 < length buf"
  obtains q where "mem_ok (s\<lparr>malloc_q := q\<rparr>)" and "parse_items buf cfg_len i ent cs s =
     (if ent + (3 + unat (buf ! (ent + 2))) \<le> length buf
      then parse_items buf cfg_len (i + (ucast (buf ! (ent + 2)) + 3))
        (ent + (3 + unat (buf ! (ent + 2)))) (cs @ [item_read buf ent]) (s\<lparr>malloc_q := q\<rparr>)
      else Fault)"
proof -
  obtain q where q: "do_malloc s = (True, s\<lparr>malloc_q := q\<rparr>)" "list_all (\<lambda>ok. ok) q"
    using do_malloc_ok [OF assms(1)] .
  show ?thesis
    by (rule that [of q])
      (use q(2) in \<open>simp add: mem_ok_def\<close>,
       subst parse_items.simps,
       simp add: assms q(1) Let_def unat_entry_size add_ac item_read_def)
qed

lemma item_at:
  assumes "drop ent buf = item_bytes n @ r" and "item_ok n"
  shows "ent + 2 < length buf" "buf ! ent = byte 0 (ci_offset n)" "buf ! (ent + 1) = byte 1 (ci_offset n)"
    "buf ! (ent + 2) = ci_len n" "take (unat (ci_len n)) (drop (ent + 3) buf) = ci_data n"
    "ent + (3 + unat (ci_len n)) \<le> length buf" "drop (ent + (3 + unat (ci_len n))) buf = r"
proof -
  have l: "length buf - ent = 3 + unat (ci_len n) + length r"
    using arg_cong [OF assms(1), of length] length_item_bytes [OF assms(2)] by simp
  then show le: "ent + 2 < length buf" "ent + (3 + unat (ci_len n)) \<le> length buf" by linarith+
  have nth: "buf ! (ent + k) = (item_bytes n @ r) ! k" for k
    using assms(1) le(1) by (metis nth_drop less_imp_le_nat add_leD1)
  show "buf ! ent = byte 0 (ci_offset n)" using nth [of 0] by (simp add: item_bytes_def)
  show "buf ! (ent + 1) = byte 1 (ci_offset n)" using nth [of 1] by (simp add: item_bytes_def)
  show "buf ! (ent + 2) = ci_len n" using nth [of 2] by (simp add: item_bytes_def)
  have "drop 3 (item_bytes n @ r) = ci_data n @ r" by (simp add: item_bytes_def eval_nat_numeral)
  then have tl: "drop (ent + 3) buf = ci_data n @ r"
    using assms(1) by (metis add.commute drop_drop)
  moreover have "drop (ent + (3 + k)) buf = drop k (drop (ent + 3) buf)" for k
    by (simp add: ac_simps)
  ultimately show "take (unat (ci_len n)) (drop (ent + 3) buf) = ci_data n"
    "drop (ent + (3 + unat (ci_len n))) buf = r"
    using assms(2) by (simp_all add: item_ok_def)
qed

lemma item_eta: "\<lparr>ci_offset = ci_offset n, ci_len = ci_len n, ci_data = ci_data n\<rparr> = n"
  by (cases n) simp

lemma index_advance:
  assumes "length buf = 6 + unat (cfg_len :: u16)" and "6 + unat i + (3 + unat l) \<le> length buf"
  shows "unat (i + (ucast (l :: u8) + 3) :: u16) = unat i + (3 + unat l)"
proof -
  have "unat cfg_len < 2 ^ LENGTH(16)" using unsigned_less [of cfg_len, where ?'a = nat] .
  with assms have "unat i + unat (ucast l + 3 :: u16) < 2 ^ LENGTH(16)" by (simp add: unat_entry_size)
  then show ?thesis by (simp only: unat_add_lem [THEN iffD1] unat_entry_size add.commute)
qed

lemma parse_items_complete:
  assumes "mem_ok s" and "length buf = 6 + unat cfg_len"
    and "drop (6 + unat i) buf = cfg_bytes ns" and "list_all item_ok ns" and "unat i \<le> unat cfg_len"
  shows "\<exists>q. mem_ok (s\<lparr>malloc_q := q\<rparr>) \<and>
     parse_items buf cfg_len i (6 + unat i) cs s = Ret (cs @ ns, s\<lparr>malloc_q := q\<rparr>)"
  using assms
proof (induction ns arbitrary: i cs s)
  case Nil
  then have "\<not> i < cfg_len" by (simp add: word_less_nat_alt)
  then show ?case using Nil.prems(1)
    by (intro exI [of _ "malloc_q s"]) (simp add: parse_items.simps)
next
  case (Cons n ns)
  let ?i = "i + (ucast (ci_len n) + 3)"
  have d: "drop (6 + unat i) buf = item_bytes n @ cfg_bytes ns" and n: "item_ok n"
    using Cons.prems by simp_all
  note at = item_at [OF d n]
  have read: "item_read buf (6 + unat i) = n"
    unfolding item_read_def at(2,3,4,5) le16_bytes item_eta ..
  have "i < cfg_len" using at(1) Cons.prems(2) by (simp add: word_less_nat_alt)
  from parse_items_step [OF Cons.prems(1) this at(1), of cs] obtain q where
    q: "mem_ok (s\<lparr>malloc_q := q\<rparr>)" and step: "parse_items buf cfg_len i (6 + unat i) cs s =
      parse_items buf cfg_len ?i (6 + unat i + (3 + unat (ci_len n))) (cs @ [n]) (s\<lparr>malloc_q := q\<rparr>)"
    using at(6) unfolding at(4) read by auto
  have i: "unat ?i = unat i + (3 + unat (ci_len n))"
    by (rule index_advance) (use at Cons.prems in auto)
  have "\<exists>q'. mem_ok (s\<lparr>malloc_q := q\<rparr>\<lparr>malloc_q := q'\<rparr>) \<and>
     parse_items buf cfg_len ?i (6 + unat ?i) (cs @ [n]) (s\<lparr>malloc_q := q\<rparr>)
       = Ret ((cs @ [n]) @ ns, s\<lparr>malloc_q := q\<rparr>\<lparr>malloc_q := q'\<rparr>)"
    by (rule Cons.IH) (use q at Cons.prems i in \<open>auto simp: add.assoc\<close>)
  then show ?case using step i by (auto simp: add.assoc)
qed

lemma parse_items_sound:
  assumes "mem_ok s" and "length buf = 6 + unat cfg_len" and "unat i \<le> unat cfg_len"
    and "parse_items buf cfg_len i (6 + unat i) cs s \<noteq> Fault"
  shows "\<exists>ns. list_all item_ok ns \<and> drop (6 + unat i) buf = cfg_bytes ns"
  using assms
proof (induction "length buf - unat i" arbitrary: i cs s rule: less_induct)
  case less
  show ?case
  proof (cases "i < cfg_len")
    case False
    then have "drop (6 + unat i) buf = cfg_bytes []" using less.prems(2) by (simp add: word_less_nat_alt)
    then show ?thesis by (intro exI [of _ "[]"]) simp
  next
    case True
    let ?e = "6 + unat i"
    define l where "l = buf ! (?e + 2)"
    have e: "?e + 2 < length buf"
      using less.prems(4) True by (subst (asm) parse_items.simps) (auto split: if_splits)
    define n where "n = item_read buf ?e"
    from parse_items_step [OF less.prems(1) True e, of cs] less.prems(4) obtain q where
      q: "mem_ok (s\<lparr>malloc_q := q\<rparr>)" and le: "?e + (3 + unat l) \<le> length buf" and
      nxt: "parse_items buf cfg_len (i + (ucast l + 3)) (?e + (3 + unat l)) (cs @ [n])
        (s\<lparr>malloc_q := q\<rparr>) \<noteq> Fault"
      unfolding n_def l_def by (metis (full_types))
    have i: "unat (i + (ucast l + 3)) = unat i + (3 + unat l)"
      by (rule index_advance [OF less.prems(2)]) (use le in simp)
    have "\<exists>ns. list_all item_ok ns \<and> drop (6 + unat (i + (ucast l + 3))) buf = cfg_bytes ns"
      by (rule less.hyps [of _ "s\<lparr>malloc_q := q\<rparr>" "cs @ [n]"])
        (use le q nxt less.prems(2) in \<open>simp_all add: i add.assoc\<close>)
    then obtain ns where ns: "list_all item_ok ns" "drop (?e + (3 + unat l)) buf = cfg_bytes ns"
      by (auto simp: i add.assoc)
    have "drop ?e buf = [buf ! ?e, buf ! (?e + 1), l] @ drop (?e + 3) buf"
      using Cons_nth_drop_Suc [of ?e buf] Cons_nth_drop_Suc [of "Suc ?e" buf]
        Cons_nth_drop_Suc [of "Suc (Suc ?e)" buf] e by (simp add: eval_nat_numeral l_def)
    also have "drop (?e + 3) buf = ci_data n @ drop (?e + (3 + unat l)) buf"
      using append_take_drop_id [of "unat l" "drop (?e + 3) buf"] by (simp add: n_def item_read_def add_ac l_def)
    finally have "drop ?e buf = cfg_bytes (n # ns)"
      unfolding ns(2) by (simp add: item_bytes_def n_def item_read_def byte_le16 l_def del: One_nat_def)
    moreover have "item_ok n" using le by (simp add: item_ok_def n_def item_read_def l_def)
    ultimately show ?thesis using ns(1) by (intro exI [of _ "n # ns"]) simp
  qed
qed

section \<open>The parser accepts exactly the images of items\<close>

lemma unat_len16: "n < 65536 \<Longrightarrow> unat (of_nat n :: u16) = n"
  using unat_of_nat_small [of n, where ?'a = 16] by simp

lemma parse_config_header:
  assumes "length body = unat L" and "buf = cfg_magic @ [byte 0 L, byte 1 L] @ body"
  shows "rtb_parse_config (Some buf) (length buf) cs s =
     rbind (parse_items buf L 0 6 cs s) (\<lambda>(cs, s). Ret (0, cs, s))"
proof -
  have len: "push_bit 8 (ucast (byte 1 L)) + ucast (byte 0 L) = L"
    using le16_bytes [of L] by (simp add: le16_def add.commute)
  have "(ucast L :: u64) = of_nat (unat L)" by (simp add: unat_ucast_up unat_inj unat_of_nat_small)
  then have "(ucast L :: u64) = of_nat (length buf) - of_nat RTB_CFG_HDR_LEN"
    using assms by (simp add: cfg_magic_def RTB_CFG_HDR_LEN_def)
  moreover have "arr_slice buf 0 4 = Ret cfg_magic" "arr_get buf 4 = Ret (byte 0 L)"
    "arr_get buf 5 = Ret (byte 1 L)" "length buf \<noteq> 0"
    by (simp_all add: assms(2) cfg_magic_def)
  ultimately show ?thesis
    unfolding rtb_parse_config_def by (simp add: Let_def len del: One_nat_def)
qed

lemma parse_image:
  assumes "list_all item_ok ns" and "length (cfg_bytes ns) < 65536" and "mem_ok s"
  shows "\<exists>q. rtb_parse_config (Some (cfg_image ns)) (length (cfg_image ns)) cs s =
     Ret (0, cs @ ns, s\<lparr>malloc_q := q\<rparr>) \<and> mem_ok (s\<lparr>malloc_q := q\<rparr>)"
proof -
  define L where "L = (of_nat (length (cfg_bytes ns)) :: u16)"
  have L: "length (cfg_bytes ns) = unat L" using assms(2) by (simp add: L_def unat_len16)
  have img: "cfg_image ns = cfg_magic @ [byte 0 L, byte 1 L] @ cfg_bytes ns"
    by (simp add: cfg_image_def L_def Let_def)
  have "\<exists>q. mem_ok (s\<lparr>malloc_q := q\<rparr>) \<and>
      parse_items (cfg_image ns) L 0 (6 + unat (0 :: u16)) cs s = Ret (cs @ ns, s\<lparr>malloc_q := q\<rparr>)"
    by (rule parse_items_complete) (use assms L in \<open>simp_all add: img cfg_magic_def\<close>)
  then show ?thesis using parse_config_header [OF L img, of cs s] by auto
qed

text \<open>
  The image of well-formed configuration items with less than 64 kilobytes of data
  is parsed by \<open>rtb_parse_config\<close> into exactly these items, appended to the list, when memory is
  available.
\<close>
theorem parse_config_image:
  assumes "list_all item_ok ns" and "length (cfg_bytes ns) < 65536" and "mem_ok s"
  shows "\<exists>q. rtb_parse_config (Some (cfg_image ns)) (length (cfg_image ns)) cs s =
     Ret (0, cs @ ns, s\<lparr>malloc_q := q\<rparr>)"
  using parse_image [OF assms] by blast

lemma parse_config_image_witness:
  "\<exists>q. rtb_parse_config (Some (cfg_image [\<lparr>ci_offset = 0xc, ci_len = 1, ci_data = [9]\<rparr>]))
     (length (cfg_image [\<lparr>ci_offset = 0xc, ci_len = 1, ci_data = [9]\<rparr>])) [] rtb_cfg =
     Ret (0, [] @ [\<lparr>ci_offset = 0xc, ci_len = 1, ci_data = [9]\<rparr>], rtb_cfg\<lparr>malloc_q := q\<rparr>)"
  by (rule parse_config_image) (simp_all add: item_ok_def item_bytes_def mem_ok_def)

text \<open>
  Claim C31. Whenever \<open>rtb_parse_config\<close> returns without having read beyond the file, it has
  either reported an error and left everything as it was, or the file is the image of the
  items it appended.
\<close>
theorem parse_config_only_images:
  assumes "mem_ok s" and "length buf < 2 ^ 64"
    and "rtb_parse_config (Some buf) (length buf) cs s = Ret (r, cs', s')"
  shows "(r = -1 \<and> cs' = cs \<and> s' = s) \<or>
     (r = 0 \<and> (\<exists>ns. list_all item_ok ns \<and> buf = cfg_image ns \<and> cs' = cs @ ns))"
proof (cases "r = -1 \<and> cs' = cs \<and> s' = s")
  case False
  define L where "L = le16 (buf ! 4) (buf ! 5)"
  have L: "push_bit 8 (ucast (buf ! 5)) + ucast (buf ! 4) = L"
    by (simp add: L_def le16_def add.commute)
  from assms(3) False have magic: "take 4 buf = cfg_magic" and six: "6 \<le> length buf"
    and len: "(ucast L :: u64) = of_nat (length buf) - of_nat RTB_CFG_HDR_LEN"
    by (auto simp: rtb_parse_config_def arr_slice_def arr_get_def Let_def L split: if_splits)
  have "of_nat (length buf) - of_nat RTB_CFG_HDR_LEN = (of_nat (length buf - 6) :: u64)"
    using six by (simp add: RTB_CFG_HDR_LEN_def of_nat_diff)
  then have "unat (ucast L :: u64) = length buf - 6"
    using assms(2) by (simp only: len) (simp add: unat_of_nat_small)
  then have uL: "length (drop 6 buf) = unat L" by (simp add: unat_ucast_up)
  then have len6: "length buf = 6 + unat L" using six by simp
  have "drop 4 buf = [byte 0 L, byte 1 L] @ drop 6 buf"
    using Cons_nth_drop_Suc [of 4 buf] Cons_nth_drop_Suc [of 5 buf] six
    by (simp add: L_def byte_le16 del: One_nat_def)
  then have img: "buf = cfg_magic @ [byte 0 L, byte 1 L] @ drop 6 buf"
    using append_take_drop_id [of 4 buf] magic by simp
  from assms(3) have "parse_items buf L 0 (6 + unat (0 :: u16)) cs s = Ret (cs', s')" and r: "r = 0"
    by (auto simp: parse_config_header [OF uL img])
  moreover from this parse_items_sound [OF assms(1) len6, of 0 cs] obtain ns where
    ns: "list_all item_ok ns" "drop (6 + unat (0 :: u16)) buf = cfg_bytes ns" by auto
  ultimately have "cs' = cs @ ns"
    using parse_items_complete [OF assms(1) len6 ns(2,1), of cs] by auto
  moreover have "buf = cfg_image ns"
    using img ns(2) uL by (auto simp: cfg_image_def Let_def unat_inj unat_of_nat_small)
  ultimately show ?thesis using ns(1) r by blast
qed simp

lemma parse_config_only_images_witness:
  "(0 = (-1 :: int) \<and> [\<lparr>ci_offset = 0xc, ci_len = 1, ci_data = [9]\<rparr>] = [] \<and> rtb_cfg = rtb_cfg) \<or>
     ((0 :: int) = 0 \<and> (\<exists>ns. list_all item_ok ns \<and>
       [0x55, 0xab, 0x23, 0x87, 4, 0, 0xc, 0, 1, 9] = cfg_image ns \<and>
       [\<lparr>ci_offset = 0xc, ci_len = 1, ci_data = [9]\<rparr>] = [] @ ns))"
  by (rule parse_config_only_images [of rtb_cfg])
    (simp_all add: mem_ok_def rtb_parse_config_def parse_items.simps arr_slice_def arr_get_def
      cfg_magic_def RTB_CFG_HDR_LEN_def le16_def)

section \<open>Laying the items out\<close>

lemma item_bytes_cat: "item_bytes n = [byte 0 (ci_offset n), byte 1 (ci_offset n), ci_len n] @ ci_data n"
  by (simp add: item_bytes_def)

lemma write_items_ok:
  assumes "list_all item_ok ns" and "length buf = p + length (cfg_bytes ns)"
  shows "write_items buf p ns = Ret (take p buf @ cfg_bytes ns)"
  using assms
proof (induction ns arbitrary: buf p)
  case (Cons n ns)
  have d: "length (ci_data n) = unat (ci_len n)" using Cons.prems(1) by (simp add: item_ok_def)
  have len: "length buf = p + (3 + unat (ci_len n) + length (cfg_bytes ns))"
    using Cons.prems length_item_bytes by simp
  let ?h = "[byte 0 (ci_offset n), byte 1 (ci_offset n), ci_len n]" and ?l = "unat (ci_len n)"
  define A where "A = take p buf"
  define B where "B = take 3 (drop p buf)"
  define C where "C = take ?l (drop (p + 3) buf)"
  define D where "D = drop (p + (3 + ?l)) buf"
  have buf: "buf = A @ B @ C @ D"
    unfolding A_def B_def C_def D_def
    using append_take_drop_id [of p buf] append_take_drop_id [of 3 "drop p buf"]
      append_take_drop_id [of ?l "drop (p + 3) buf"] by (simp add: add_ac)
  have A: "length A = p" and B: "length B = 3" and C: "length C = ?l"
    and D: "length D = length (cfg_bytes ns)" using len by (simp_all add: A_def B_def C_def D_def)
  have "arr_put buf p ?h = Ret (A @ ?h @ C @ D)"
    unfolding buf by (rule arr_put_mid) (use A B in simp_all)
  moreover have "arr_put ((A @ ?h) @ C @ D) (p + 3) (ci_data n) = Ret ((A @ ?h) @ ci_data n @ D)"
    by (rule arr_put_mid) (use A C d in simp_all)
  moreover have "write_items (A @ ?h @ ci_data n @ D) (p + (3 + ?l)) ns
      = Ret (take (p + (3 + ?l)) (A @ ?h @ ci_data n @ D) @ cfg_bytes ns)"
    by (rule Cons.IH) (use Cons.prems(1) A D d in simp_all)
  moreover have "take (p + (3 + ?l)) ((A @ ?h @ ci_data n) @ D) = A @ ?h @ ci_data n"
    using A d by (subst take_append) simp
  ultimately show ?case using d A by (simp add: byte_mask byte_shift item_bytes_cat flip: A_def)
qed simp

text \<open>
  The speed the items announce: the last item at offset 12 decides.
\<close>

definition item_speed :: "cfg_item \<Rightarrow> u32" where
  "item_speed n = le32 (ci_data n ! 0) (ci_data n ! 1) (ci_data n ! 2) (ci_data n ! 3)"

definition cfg_speed :: "cfg_item list \<Rightarrow> u32 \<Rightarrow> u32" where
  "cfg_speed ns v = fold (\<lambda>n v. if ci_offset n = 0x000c then item_speed n else v) ns v"

definition speed_ok :: "cfg_item \<Rightarrow> bool" where
  "speed_ok n \<longleftrightarrow> (ci_offset n = 0x000c \<longrightarrow> 4 \<le> unat (ci_len n))"

lemma note_item_ok:
  assumes "item_ok n" and "speed_ok n"
  shows "\<exists>u. note_item chip n s = Ret (s\<lparr>vendor_baud := cfg_speed [n] (vendor_baud s), uart_flow_ctrl := u\<rparr>)"
proof (cases "ci_offset n = 0x000c")
  case True
  define t where "t = s\<lparr>vendor_baud := item_speed n\<rparr>"
  have t: "t = s\<lparr>vendor_baud := cfg_speed [n] (vendor_baud s), uart_flow_ctrl := uart_flow_ctrl s\<rparr>"
    using True by (cases s) (simp add: t_def cfg_speed_def)
  have "4 \<le> length (ci_data n)" using True assms by (simp add: item_ok_def speed_ok_def)
  then have nt: "note_item chip n s = (if ci_len n > 12 then
      rbind (arr_get (ci_data n) 12) (\<lambda>d. Ret (t\<lparr>uart_flow_ctrl := (if d AND 0x4 \<noteq> 0 then 1 else 0)\<rparr>))
      else Ret t)"
    using True by (simp add: note_item_def Let_def t_def item_speed_def)
  show ?thesis
  proof (cases "ci_len n > 12")
    case long: True
    then have "12 < length (ci_data n)" using assms(1) by (simp add: item_ok_def word_less_nat_alt)
    then have "note_item chip n s =
        Ret (t\<lparr>uart_flow_ctrl := (if ci_data n ! 12 AND 0x4 \<noteq> 0 then 1 else 0)\<rparr>)"
      using nt long by simp
    then show ?thesis unfolding t by auto
  next
    case False
    then have "note_item chip n s = Ret t" using nt by simp
    then show ?thesis using t by metis
  qed
next
  case False
  have "s = s\<lparr>vendor_baud := cfg_speed [n] (vendor_baud s), uart_flow_ctrl := uart_flow_ctrl s\<rparr>"
    using False by (cases s) (simp add: cfg_speed_def)
  moreover have "note_item chip n s = Ret s"
    using False assms(1) by (auto simp: note_item_def item_ok_def)
  ultimately show ?thesis by metis
qed

lemma note_items_ok:
  assumes "list_all item_ok ns" and "list_all speed_ok ns"
  shows "\<exists>u. note_items chip ns c d s =
     Ret (c + of_nat (length (cfg_bytes ns)), d + of_nat (length (cfg_bytes ns)),
       s\<lparr>vendor_baud := cfg_speed ns (vendor_baud s), uart_flow_ctrl := u\<rparr>)"
  using assms
proof (induction ns arbitrary: c d s)
  case Nil
  then show ?case by (intro exI [of _ "uart_flow_ctrl s"]) (simp add: cfg_speed_def)
next
  case (Cons n ns)
  obtain u where u: "note_item chip n s =
      Ret (s\<lparr>vendor_baud := cfg_speed [n] (vendor_baud s), uart_flow_ctrl := u\<rparr>)"
    using note_item_ok [of n chip s] Cons.prems by auto
  have len: "(of_nat (length (item_bytes n)) :: u16) = 3 + ucast (ci_len n)"
    using Cons.prems(1) by (simp add: length_item_bytes)
  show ?case
    using Cons.IH [of "c + (3 + ucast (ci_len n))" "d + (3 + ucast (ci_len n))"
        "s\<lparr>vendor_baud := cfg_speed [n] (vendor_baud s), uart_flow_ctrl := u\<rparr>"] Cons.prems
    by (auto simp: u len cfg_speed_def add.assoc)
qed

lemma cfg_layout_ok:
  assumes "list_all item_ok ns" and "list_all speed_ok ns" and "length (cfg_bytes ns) < 65530"
    and "mem_ok s"
  shows "\<exists>u q. cfg_layout chip buf ns s = Ret (Some (cfg_image ns), int (6 + length (cfg_bytes ns)),
     s\<lparr>vendor_baud := cfg_speed ns (vendor_baud s), uart_flow_ctrl := u, malloc_q := q\<rparr>) \<and>
     list_all (\<lambda>ok. ok) q"
proof -
  let ?L = "length (cfg_bytes ns)"
  obtain u where u: "note_items chip ns 6 0 s = Ret (6 + of_nat ?L, 0 + of_nat ?L,
      s\<lparr>vendor_baud := cfg_speed ns (vendor_baud s), uart_flow_ctrl := u\<rparr>)"
    using note_items_ok [OF assms(1,2)] by blast
  obtain q where q: "do_malloc (s\<lparr>vendor_baud := cfg_speed ns (vendor_baud s), uart_flow_ctrl := u\<rparr>)
      = (True, s\<lparr>vendor_baud := cfg_speed ns (vendor_baud s), uart_flow_ctrl := u, malloc_q := q\<rparr>)"
    "list_all (\<lambda>ok. ok) q"
    using do_malloc_ok [of "s\<lparr>vendor_baud := cfg_speed ns (vendor_baud s), uart_flow_ctrl := u\<rparr>"] assms(4)
    by (auto simp: mem_ok_def)
  have n: "unat (6 + of_nat ?L :: u16) = 6 + ?L"
    using unat_len16 [of "6 + ?L"] assms(3) by simp
  define b0 where "b0 = take (6 + ?L) buf @ replicate (6 + ?L - length buf) 0"
  have l0: "length b0 = 6 + ?L" by (simp add: b0_def)
  let ?h = "[byte 0 (of_nat ?L :: u16), byte 1 (of_nat ?L :: u16)]"
  define b1 where "b1 = cfg_magic @ drop 4 b0"
  define b2 where "b2 = cfg_magic @ ?h @ drop 6 b0"
  have "arr_put b0 0 cfg_magic = Ret b1" using l0 by (simp add: b1_def cfg_magic_def arr_put_def eval_nat_numeral)
  moreover have "arr_put b1 4 ?h = Ret b2" using l0 by (simp add: b1_def b2_def cfg_magic_def)
  moreover have "write_items b2 6 ns = Ret (take 6 b2 @ cfg_bytes ns)"
    by (rule write_items_ok) (use assms(1) l0 in \<open>simp_all add: b2_def cfg_magic_def\<close>)
  moreover have "take 6 b2 @ cfg_bytes ns = cfg_image ns"
    by (simp add: b2_def cfg_image_def Let_def cfg_magic_def)
  ultimately have "cfg_layout chip buf ns s = Ret (Some (cfg_image ns), int (6 + ?L),
     s\<lparr>vendor_baud := cfg_speed ns (vendor_baud s), uart_flow_ctrl := u, malloc_q := q\<rparr>)"
    unfolding cfg_layout_def u by (simp add: q(1) n Let_def byte_mask byte_shift flip: b0_def)
  then show ?thesis using q(2) by blast
qed

section \<open>The whole of rtb_read_config\<close>

definition mac_item :: "u8 \<Rightarrow> bytes \<Rightarrow> cfg_item" where
  "mac_item chip a = \<lparr>ci_offset = get_mac_offset chip, ci_len = 6, ci_data = bdaddr_lap a\<rparr>"

lemma read_bdaddr_file:
  assumes "fs BT_ADDR_FILE = Some f" and "f_open f" and "17 \<le> f_size f"
    and "f_data f = Some (addr_text a)" and "length a = 6" and "mem_ok s"
  shows "\<exists>q. read_bdaddr fs chip xs s = (xs @ [mac_item chip a], s\<lparr>malloc_q := q\<rparr>) \<and>
     mem_ok (s\<lparr>malloc_q := q\<rparr>)"
proof -
  obtain a0 a1 a2 a3 a4 a5 where a: "a = [a0, a1, a2, a3, a4, a5]"
    using assms(5) by (auto simp: length_Suc_conv eval_nat_numeral)
  have len: "length (addr_text a) = 17" by (simp add: a addr_text_def hex2_def)
  have "x \<noteq> 0" if "x \<in> set (addr_text a)" for x
    using that set_joined [of 58 "map hex2 (rev a)"] hex2_chars(3) by (fastforce simp: addr_text_def)
  then have str: "c_str (addr_text a @ [0]) = addr_text a"
    using takeWhile_append2 [of "addr_text a" "\<lambda>c. c \<noteq> 0" "[0]"] by (simp add: c_str_def)
  obtain q where q: "do_malloc s = (True, s\<lparr>malloc_q := q\<rparr>)" "list_all (\<lambda>ok. ok) q"
    using do_malloc_ok [OF assms(6)] .
  have "take (min (f_size f) BDADDR_STRING_LEN) (addr_text a) = addr_text a"
    using assms(3) len by (simp add: BDADDR_STRING_LEN_def)
  moreover have "replicate (BDADDR_STRING_LEN + 1 - length (addr_text a)) 0 = [0 :: u8]"
    by (simp add: len BDADDR_STRING_LEN_def)
  moreover have "bachk (Some (addr_text a)) = 0" "bdaddr_read (addr_text a @ [0]) = a"
    unfolding a using bdaddr_read_text bachk_addr_text by auto
  ultimately have "read_bdaddr fs chip xs s = (xs @ [mac_item chip a], s\<lparr>malloc_q := q\<rparr>)"
    using assms(1-4) q str by (simp add: read_bdaddr_def Let_def mac_item_def)
  then show ?thesis using q(2) by (auto simp: mem_ok_def)
qed

lemma list_all_merge_spec: "list_all P ns \<Longrightarrow> list_all P es \<Longrightarrow> list_all P (merge_spec ns es)"
  by (auto simp: merge_spec_def list_all_iff find_Some_iff split: option.split)

text \<open>
  The three files: a configuration file with the items \<open>ns\<close>, an extra file with the items \<open>xs\<close>
  and an address file with the octets \<open>a\<close>, such that no two items of a list share an offset and
  no item is overridden by a shorter one.
\<close>

definition cfg_files ::
  "file_system \<Rightarrow> string \<Rightarrow> u8 \<Rightarrow> cfg_item list \<Rightarrow> cfg_item list \<Rightarrow> bytes \<Rightarrow> bool" where
  "cfg_files fs nm chip ns xs a \<longleftrightarrow>
     fs (BT_CONFIG_DIRECTORY @ nm) =
       Some \<lparr>f_size = length (cfg_image ns), f_open = True, f_data = Some (cfg_image ns)\<rparr> \<and>
     fs EXTRA_CONFIG_FILE =
       Some \<lparr>f_size = length (items_text xs), f_open = True, f_data = Some (items_text xs)\<rparr> \<and>
     fs BT_ADDR_FILE = Some \<lparr>f_size = 17, f_open = True, f_data = Some (addr_text a)\<rparr> \<and>
     xs \<noteq> [] \<and> length (items_text xs) \<le> 254 \<and> length a = 6 \<and>
     list_all (\<lambda>n. item_ok n \<and> 0 < unat (ci_len n) \<and> unat (ci_len n) \<le> 29) xs \<and>
     list_all item_ok ns \<and> length (cfg_bytes ns) < 65536 \<and>
     list_all speed_ok ns \<and> list_all speed_ok xs \<and>
     distinct (offsets ns) \<and> distinct (offsets (xs @ [mac_item chip a])) \<and>
     covers ns (xs @ [mac_item chip a]) \<and>
     length (cfg_bytes (merge_spec ns (xs @ [mac_item chip a]))) < 65530"

lemma cfg_filesD:
  assumes "cfg_files fs nm chip ns xs a"
  shows "fs (BT_CONFIG_DIRECTORY @ nm) = Some \<lparr>f_size = length (cfg_image ns), f_open = True, f_data = Some (cfg_image ns)\<rparr>"
    "fs EXTRA_CONFIG_FILE = Some \<lparr>f_size = length (items_text xs), f_open = True, f_data = Some (items_text xs)\<rparr>"
    "fs BT_ADDR_FILE = Some \<lparr>f_size = 17, f_open = True, f_data = Some (addr_text a)\<rparr>"
    "xs \<noteq> []"
    "length (items_text xs) \<le> 254"
    "length a = 6"
    "list_all (\<lambda>n. item_ok n \<and> 0 < unat (ci_len n) \<and> unat (ci_len n) \<le> 29) xs"
    "list_all item_ok ns"
    "length (cfg_bytes ns) < 65536"
    "list_all speed_ok ns"
    "list_all speed_ok xs"
    "distinct (offsets ns)"
    "distinct (offsets (xs @ [mac_item chip a]))"
    "covers ns (xs @ [mac_item chip a])"
    "length (cfg_bytes (merge_spec ns (xs @ [mac_item chip a]))) < 65530"
  using assms by (simp_all add: cfg_files_def)

lemma read_config_files:
  assumes "cfg_files fs nm chip ns xs a" and "mem_ok s"
  shows "\<exists>u q. rtb_read_config fs nm chip s =
     Ret (Some (cfg_image (merge_spec ns (xs @ [mac_item chip a]))),
       int (6 + length (cfg_bytes (merge_spec ns (xs @ [mac_item chip a])))),
       s\<lparr>vendor_baud := cfg_speed (merge_spec ns (xs @ [mac_item chip a])) (vendor_baud s),
         uart_flow_ctrl := u, malloc_q := q\<rparr>) \<and> list_all (\<lambda>ok. ok) q"
proof -
  note f = cfg_filesD [OF assms(1)]
  define es where "es = xs @ [mac_item chip a]"
  obtain q1 where q1: "parse_extra_config fs EXTRA_CONFIG_FILE [] s = (xs, s\<lparr>malloc_q := q1\<rparr>)"
      "mem_ok (s\<lparr>malloc_q := q1\<rparr>)"
    using extra_config_items [of fs EXTRA_CONFIG_FILE, OF f(2) _ _ f(4,5,7) assms(2), of "[]"] by auto
  obtain q2 where q2: "read_bdaddr fs chip xs (s\<lparr>malloc_q := q1\<rparr>) = (es, s\<lparr>malloc_q := q2\<rparr>)"
      "mem_ok (s\<lparr>malloc_q := q2\<rparr>)"
    using read_bdaddr_file [of fs, OF f(3) _ _ _ f(6) q1(2), of chip xs] by (auto simp: es_def)
  obtain q3 where q3: "do_malloc (s\<lparr>malloc_q := q2\<rparr>) = (True, s\<lparr>malloc_q := q3\<rparr>)"
      "mem_ok (s\<lparr>malloc_q := q3\<rparr>)"
    using do_malloc_ok [OF q2(2)] by (auto simp: mem_ok_def)
  obtain q4 where q4: "do_malloc (s\<lparr>malloc_q := q3\<rparr>) = (True, s\<lparr>malloc_q := q4\<rparr>)"
      "mem_ok (s\<lparr>malloc_q := q4\<rparr>)"
    using do_malloc_ok [OF q3(2)] by (auto simp: mem_ok_def)
  obtain q5 where q5: "rtb_parse_config (Some (cfg_image ns)) (length (cfg_image ns)) []
      (s\<lparr>malloc_q := q4\<rparr>) = Ret (0, ns, s\<lparr>malloc_q := q5\<rparr>)" "mem_ok (s\<lparr>malloc_q := q5\<rparr>)"
    using parse_image [OF f(8,9) q4(2), of "[]"] by auto
  have mac: "item_ok (mac_item chip a)" "speed_ok (mac_item chip a)"
    using f(6) by (auto simp: mac_item_def item_ok_def speed_ok_def bdaddr_lap_def get_mac_offset_def)
  have es: "list_all item_ok es" "list_all speed_ok es"
    using mac f(7,11) by (auto simp: es_def list_all_iff)
  obtain u q6 where q6: "cfg_layout chip (cfg_image ns) (merge_spec ns es) (s\<lparr>malloc_q := q5\<rparr>) =
     Ret (Some (cfg_image (merge_spec ns es)), int (6 + length (cfg_bytes (merge_spec ns es))),
       s\<lparr>vendor_baud := cfg_speed (merge_spec ns es) (vendor_baud s), uart_flow_ctrl := u,
         malloc_q := q6\<rparr>)" "list_all (\<lambda>ok. ok) q6"
    using cfg_layout_ok [of "merge_spec ns es" "s\<lparr>malloc_q := q5\<rparr>" chip "cfg_image ns"]
      list_all_merge_spec es f(8,10,15) q5(2) by (auto simp: es_def mem_ok_def)
  have merge: "merge_configs ns es = Ret (merge_spec ns es, [])"
    unfolding merge_configs_def using merge_each_spec [of ns es] f(12,13,14)
    by (auto simp: es_def merge_spec_def)
  show ?thesis
    using q1(1) q2(1) q3(1) q4(1) q5(1) q6(1,2) merge f(1)
    by (auto simp: rtb_read_config_def rtb_read_config_file_def Let_def es_def)
qed

text \<open>
  Claim C30. The configuration handed to the firmware download is the one the three files
  describe: with a well-formed configuration file, an extra file listing the items \<open>xs\<close> and an
  address file with the octets \<open>a\<close>, \<open>rtb_read_config\<close> returns the image of the configuration
  items overridden and extended by \<open>xs\<close> and the address item, its exact length, and the line
  speed of the last item at offset 12.
\<close>
theorem rtb_read_config_end_to_end:
  assumes "cfg_files fs nm chip ns xs a" and "mem_ok s"
  shows "\<exists>u q. rtb_read_config fs nm chip s =
     Ret (Some (cfg_image (merge_spec ns (xs @ [mac_item chip a]))),
       int (6 + length (cfg_bytes (merge_spec ns (xs @ [mac_item chip a])))),
       s\<lparr>vendor_baud := cfg_speed (merge_spec ns (xs @ [mac_item chip a])) (vendor_baud s),
         uart_flow_ctrl := u, malloc_q := q\<rparr>)"
  using read_config_files [OF assms] by blast

text \<open>A file system with the three files, for a controller of type RTL8822CS.\<close>

definition demo_items :: "cfg_item list" where
  "demo_items = [\<lparr>ci_offset = 0x000c, ci_len = 4, ci_data = [0x04, 0x50, 0, 0]\<rparr>,
     \<lparr>ci_offset = 0x0030, ci_len = 6, ci_data = [0, 0, 0, 0, 0, 0]\<rparr>]"

definition demo_extra :: "cfg_item list" where
  "demo_extra = [\<lparr>ci_offset = 0x0018, ci_len = 1, ci_data = [7]\<rparr>]"

definition demo_fs :: file_system where
  "demo_fs =
     [BT_CONFIG_DIRECTORY @ ''rtl8822cs_config'' \<mapsto>
        \<lparr>f_size = length (cfg_image demo_items), f_open = True, f_data = Some (cfg_image demo_items)\<rparr>,
      EXTRA_CONFIG_FILE \<mapsto>
        \<lparr>f_size = length (items_text demo_extra), f_open = True, f_data = Some (items_text demo_extra)\<rparr>,
      BT_ADDR_FILE \<mapsto>
        \<lparr>f_size = 17, f_open = True, f_data = Some (addr_text [1, 2, 3, 4, 5, 6])\<rparr>]"

lemmas demo_defs = demo_items_def demo_extra_def BT_CONFIG_DIRECTORY_def EXTRA_CONFIG_FILE_def
  BT_ADDR_FILE_def db_consts

lemma rtb_read_config_end_to_end_witness:
  "\<exists>u q. rtb_read_config demo_fs ''rtl8822cs_config'' CHIP_8822CS rtb_cfg =
     Ret (Some (cfg_image (merge_spec demo_items (demo_extra @ [mac_item CHIP_8822CS [1, 2, 3, 4, 5, 6]]))),
       int (6 + length (cfg_bytes (merge_spec demo_items (demo_extra @ [mac_item CHIP_8822CS [1, 2, 3, 4, 5, 6]])))),
       rtb_cfg\<lparr>vendor_baud := cfg_speed (merge_spec demo_items
         (demo_extra @ [mac_item CHIP_8822CS [1, 2, 3, 4, 5, 6]])) (vendor_baud rtb_cfg),
         uart_flow_ctrl := u, malloc_q := q\<rparr>)"
  by (rule rtb_read_config_end_to_end)
    (simp_all add: cfg_files_def demo_fs_def demo_defs item_ok_def speed_ok_def mem_ok_def covers_def mac_item_def
      get_mac_offset_def items_text_def item_text_def item_bytes_def hex2_def merge_spec_def
      bdaddr_lap_def)

text \<open>
  A configuration file without the signature is not rejected: the error of
  \<open>rtb_parse_config\<close> is lost in an unsigned variable, and \<open>rtb_read_config\<close> succeeds with a
  configuration that has no items at all.
\<close>
theorem rtb_read_config_bad_signature:
  assumes "fs (BT_CONFIG_DIRECTORY @ nm) = Some \<lparr>f_size = length d, f_open = True, f_data = Some d\<rparr>"
    and "fs EXTRA_CONFIG_FILE = None" and "fs BT_ADDR_FILE = None"
    and "4 \<le> length d" and "take 4 d \<noteq> cfg_magic" and "mem_ok s"
  shows "\<exists>u q. rtb_read_config fs nm chip s =
     Ret (Some (cfg_image []), 6, s\<lparr>vendor_baud := vendor_baud s, uart_flow_ctrl := u, malloc_q := q\<rparr>)"
proof -
  obtain q1 where q1: "do_malloc s = (True, s\<lparr>malloc_q := q1\<rparr>)" "mem_ok (s\<lparr>malloc_q := q1\<rparr>)"
    using do_malloc_ok [OF assms(6)] by (auto simp: mem_ok_def)
  obtain q2 where q2: "do_malloc (s\<lparr>malloc_q := q1\<rparr>) = (True, s\<lparr>malloc_q := q2\<rparr>)"
      "mem_ok (s\<lparr>malloc_q := q2\<rparr>)"
    using do_malloc_ok [OF q1(2)] by (auto simp: mem_ok_def)
  have parse: "rtb_parse_config (Some d) (length d) [] (s\<lparr>malloc_q := q2\<rparr>)
      = Ret (-1, [], s\<lparr>malloc_q := q2\<rparr>)"
    using assms(4,5) by (auto simp: rtb_parse_config_def)
  have "rtb_read_config fs nm chip s = cfg_layout chip d [] (s\<lparr>malloc_q := q2\<rparr>)"
    using assms(1-3) q1(1) q2(1) parse
    by (simp add: rtb_read_config_def rtb_read_config_file_def parse_extra_config_def read_bdaddr_def merge_configs_def Let_def)
  then show ?thesis
    using cfg_layout_ok [of "[]" "s\<lparr>malloc_q := q2\<rparr>" chip d] q2(2) by (auto simp: cfg_speed_def)
qed

lemma rtb_read_config_bad_signature_witness:
  "\<exists>u q. rtb_read_config [BT_CONFIG_DIRECTORY @ ''rtl8723b_config'' \<mapsto>
       \<lparr>f_size = length [1, 2, 3, 4 :: u8], f_open = True, f_data = Some [1, 2, 3, 4]\<rparr>]
     ''rtl8723b_config'' 0 rtb_cfg =
     Ret (Some (cfg_image []), 6, rtb_cfg\<lparr>vendor_baud := vendor_baud rtb_cfg, uart_flow_ctrl := u,
       malloc_q := q\<rparr>)"
  by (rule rtb_read_config_bad_signature [where d = "[1, 2, 3, 4]"])
    (simp_all add: BT_CONFIG_DIRECTORY_def EXTRA_CONFIG_FILE_def BT_ADDR_FILE_def cfg_magic_def
      mem_ok_def)

end
