(* ===== verification/Firmware.thy ===== *)
theory Firmware
  imports Cfg_File
begin

text \<open>
  The firmware container of rtb_fwc.c: reading the file (\<open>rtb_read_firmware\<close>), finding the
  project in the extension section (\<open>rtb_get_fw_project_id\<close>), finding the patch of the chip
  (\<open>rtb_get_patch_entry\<close>) and assembling what is downloaded (\<open>rtb_get_final_patch\<close>).
\<close>

section \<open>The code\<close>

definition FIRMWARE_DIRECTORY :: string where "FIRMWARE_DIRECTORY = ''/lib/firmware/rtlbt/''"

text \<open>\<open>rtb_read_firmware\<close>: the buffer, \<open>*fw_len\<close> if it was set, and the state.\<close>

definition rtb_read_firmware ::
  "file_system \<Rightarrow> rtb_struct \<Rightarrow> (bytes option \<times> int option \<times> rtb_struct) res" where
  "rtb_read_firmware fs s =
     (case do_malloc s of (ok, s) \<Rightarrow>
      if \<not> ok then Ret (None, None, s) else
      case patch_ent s of
        None \<Rightarrow> Fault
      | Some ent \<Rightarrow>
          case fs (FIRMWARE_DIRECTORY @ patch_file ent) of
            None \<Rightarrow> Ret (None, None, s)
          | Some f \<Rightarrow>
              if \<not> f_open f then Ret (None, None, s) else
              case do_malloc s of (ok, s) \<Rightarrow>
              if \<not> ok then Ret (None, None, s) else
              case f_data f of
                None \<Rightarrow> Ret (None, Some 0, s)
              | Some d \<Rightarrow>
                  let buf = take (f_size f) d in
                  if length buf \<noteq> f_size f then Ret (None, Some 0, s)
                  else Ret (Some buf, Some (int (length buf)), s))"

text \<open>
  The backward walk over the extension section. Each record is its data, its length and its
  opcode; the pointer is an offset into the buffer, and moving it before the start is followed
  by a read there.
\<close>

function rtb_get_fw_project_id :: "bytes \<Rightarrow> nat \<Rightarrow> u8 res" where
  "rtb_get_fw_project_id buf p =
     (if \<not> p < length buf \<or> p < 1 then Fault else
      let opcode = buf ! p; l = buf ! (p - 1) in
      if opcode = 0x00 \<and> l = 1 then
        if p < 2 then Fault else Ret (buf ! (p - 2))
      else if p < unat l + 2 then Fault
      else let p = p - (unat l + 2) in
        if buf ! p \<noteq> 0xFF then rtb_get_fw_project_id buf p else Ret 0)"
  by pat_completeness auto
termination
  by (relation "measure snd") auto

declare rtb_get_fw_project_id.simps [simp del]

definition fetch16 :: "bytes \<Rightarrow> nat \<Rightarrow> u16 res" where
  "fetch16 buf p = rbind (arr_slice buf p 2) (\<lambda>d. Ret (le16 (d ! 0) (d ! 1)))"

definition fetch32 :: "bytes \<Rightarrow> int \<Rightarrow> u32 res" where
  "fetch32 buf p =
     check (0 \<le> p) (rbind (arr_slice buf (nat p) 4) (\<lambda>d. Ret (le32 (d ! 0) (d ! 1) (d ! 2) (d ! 3))))"

record rtb_patch_entry =
  pe_chip_id :: u16
  patch_len :: u16
  soffset :: u32
  svn_ver :: u32
  coex_ver :: u32

text \<open>The search among the \<open>n\<close> chip identifiers, from index \<open>i\<close> on.\<close>

function entry_scan :: "bytes \<Rightarrow> u8 \<Rightarrow> nat \<Rightarrow> nat \<Rightarrow> rtb_patch_entry option res" where
  "entry_scan buf ever n i =
     (if \<not> i < n then Ret None else
      rbind (fetch16 buf (14 + 2 * i)) (\<lambda>chip_id.
      if unat chip_id = unat ever + 1 then
        rbind (fetch16 buf (14 + 2 * n + 2 * i)) (\<lambda>plen.
        rbind (fetch32 buf (int (14 + 4 * n + 4 * i))) (\<lambda>so.
        rbind (fetch32 buf (int (unat so) + int (unat plen) - 8)) (\<lambda>svn.
        rbind (fetch32 buf (int (unat so) + int (unat plen) - 12)) (\<lambda>coex.
          Ret (Some \<lparr>pe_chip_id = ucast ever + 1, patch_len = plen, soffset = so,
            svn_ver = svn, coex_ver = coex\<rparr>)))))
      else entry_scan buf ever n (i + 1)))"
  by pat_completeness auto
termination
  by (relation "measure (\<lambda>(buf, ever, n, i). n - i)") auto

declare entry_scan.simps [simp del]

definition rtb_get_patch_entry :: "rtb_struct \<Rightarrow> (rtb_patch_entry option \<times> rtb_struct) res" where
  "rtb_get_patch_entry s =
     (case do_malloc s of (ok, s) \<Rightarrow>
      if \<not> ok then Ret (None, s) else
      case fw_buf s of
        None \<Rightarrow> Fault
      | Some buf \<Rightarrow>
          rbind (fetch16 buf 12) (\<lambda>n.
          rbind (entry_scan buf (eversion s) (unat n) 0) (\<lambda>e. Ret (e, s))))"

definition rtb_patch_smagic :: bytes where
  "rtb_patch_smagic = [0x52, 0x65, 0x61, 0x6C, 0x74, 0x65, 0x63, 0x68]"
definition rtb_patch_emagic :: bytes where
  "rtb_patch_emagic = [0x51, 0x04, 0xFD, 0x77]"

text \<open>The label \<open>err\<close>: null, with \<open>*rlen\<close> zero.\<close>

definition final_err :: "rtb_struct \<Rightarrow> (bytes option \<times> int \<times> rtb_struct) res" where
  "final_err s = Ret (None, 0, s\<lparr>dl_fw_flag := 0\<rparr>)"

text \<open>What \<open>memcpy (dst, config_buf, config_len)\<close> copies, when there is something to copy.\<close>

definition config_part :: "rtb_struct \<Rightarrow> bytes res" where
  "config_part s =
     (if config_len s = 0 then Ret [] else
      check (0 \<le> config_len s) (case config_buf s of
        None \<Rightarrow> Fault
      | Some c \<Rightarrow> arr_slice c 0 (nat (config_len s))))"

text \<open>The branch for the RTL8723A over three wires: firmware and configuration, as they are.\<close>

definition final_single :: "bytes \<Rightarrow> rtb_struct \<Rightarrow> (bytes option \<times> int \<times> rtb_struct) res" where
  "final_single fw s =
     (let n = config_len s + fw_len s in
      case do_malloc s of (ok, s) \<Rightarrow>
      if \<not> ok then final_err s else
      rbind (fetch32 fw (fw_len s - 8)) (\<lambda>_.
      rbind (fetch32 fw (fw_len s - 12)) (\<lambda>_.
      rbind (arr_slice fw 0 (nat (fw_len s))) (\<lambda>d.
      rbind (config_part s) (\<lambda>c.
        Ret (Some (d @ c), n, s\<lparr>dl_fw_flag := 1\<rparr>))))))"

text \<open>The comparison of the project with the chip; \<open>project_id\<close> is read out of bounds by a large index.\<close>

definition project_matches :: "u8 \<Rightarrow> rtb_struct \<Rightarrow> bool res" where
  "project_matches proj s =
     (if \<not> unat proj < length project_id then Fault
      else if lmp_subver s \<noteq> ROM_LMP_8703b then Ret (lmp_subver s = project_id ! unat proj)
      else case patch_ent s of
          None \<Rightarrow> Fault
        | Some ent \<Rightarrow> Ret (proj_id ent = project_id ! unat proj))"

text \<open>
  The copy of the chosen patch: its last four bytes are replaced by the firmware version of the
  header, and the configuration follows. \<open>patch_len\<close> below four puts the version before the
  start of the buffer.
\<close>

definition final_copy ::
  "bytes \<Rightarrow> rtb_patch_entry \<Rightarrow> rtb_struct \<Rightarrow> (bytes option \<times> int \<times> rtb_struct) res" where
  "final_copy fw ent s =
     (let n = int (unat (patch_len ent)) + config_len s in
      case do_malloc s of (ok, s) \<Rightarrow>
      if \<not> ok then final_err s else
      check (0 \<le> n) (
      rbind (arr_slice fw (unat (soffset ent)) (unat (patch_len ent))) (\<lambda>d.
      check (length d \<le> nat n) (
      rbind (arr_slice fw 8 4) (\<lambda>v.
      check (4 \<le> length d) (
      rbind (arr_put d (length d - 4) v) (\<lambda>d.
      rbind (config_part s) (\<lambda>c.
        Ret (Some (d @ c), n, s\<lparr>dl_fw_flag := 1\<rparr>)))))))))"

definition rtb_get_final_patch ::
  "int \<Rightarrow> int \<Rightarrow> rtb_struct \<Rightarrow> (bytes option \<times> int \<times> rtb_struct) res" where
  "rtb_get_final_patch fd prot s =
     (case fw_buf s of
        None \<Rightarrow> Fault
      | Some fw \<Rightarrow>
          rbind (arr_slice fw 0 8) (\<lambda>sig.
          if prot = HCI_UART_3WIRE \<and> lmp_subver s = ROM_LMP_8723a then
            if sig = rtb_patch_smagic then final_err s else final_single fw s
          else if sig \<noteq> rtb_patch_smagic then final_err s
          else
            check (4 \<le> fw_len s) (
            rbind (arr_slice fw (nat (fw_len s - 4)) 4) (\<lambda>ext.
            if ext \<noteq> rtb_patch_emagic then final_err s else
            check (5 \<le> fw_len s) (
            rbind (rtb_get_fw_project_id fw (nat (fw_len s - 5))) (\<lambda>proj.
            rbind (project_matches proj s) (\<lambda>ok.
            if \<not> ok then final_err s else
            rbind (rtb_get_patch_entry s) (\<lambda>(ent, s).
            case ent of None \<Rightarrow> final_err s | Some ent \<Rightarrow> final_copy fw ent s))))))))"

section \<open>The container\<close>

text \<open>
  What a firmware file is made of: the signature, a version, the number of patches, their chip
  identifiers, lengths and offsets, the patches themselves, the records of the extension
  section after a byte 0xff, and the signature of that section.
\<close>

record fw_patch =
  fp_chip :: u16
  fp_code :: bytes

record ext_record =
  er_opcode :: u8
  er_data :: bytes

definition bytes16 :: "u16 \<Rightarrow> bytes" where "bytes16 x = [byte 0 x, byte 1 x]"
definition bytes32 :: "u32 \<Rightarrow> bytes" where "bytes32 x = [byte 0 x, byte 1 x, byte 2 x, byte 3 x]"

definition code_len :: "fw_patch \<Rightarrow> nat" where "code_len p = length (fp_code p)"

definition fw_offset :: "fw_patch list \<Rightarrow> nat \<Rightarrow> nat" where
  "fw_offset ps i = 14 + 8 * length ps + sum_list (map code_len (take i ps))"

definition fw_tables :: "fw_patch list \<Rightarrow> bytes" where
  "fw_tables ps =
     concat (map (\<lambda>p. bytes16 (fp_chip p)) ps) @
     concat (map (\<lambda>p. bytes16 (of_nat (code_len p))) ps) @
     concat (map (\<lambda>i. bytes32 (of_nat (fw_offset ps i))) [0..<length ps])"

definition ext_bytes :: "ext_record \<Rightarrow> bytes" where
  "ext_bytes r = er_data r @ [of_nat (length (er_data r)), er_opcode r]"

definition ext_area :: "ext_record list \<Rightarrow> bytes" where
  "ext_area rs = 0xFF # concat (map ext_bytes rs)"

definition fw_head :: "bytes \<Rightarrow> fw_patch list \<Rightarrow> bytes" where
  "fw_head ver ps = rtb_patch_smagic @ ver @ bytes16 (of_nat (length ps)) @ fw_tables ps"

definition fw_image :: "bytes \<Rightarrow> fw_patch list \<Rightarrow> ext_record list \<Rightarrow> bytes" where
  "fw_image ver ps rs =
     fw_head ver ps @ concat (map fp_code ps) @ ext_area rs @ rtb_patch_emagic"

section \<open>The project of the extension section\<close>

definition ext_ok :: "ext_record \<Rightarrow> bool" where
  "ext_ok r \<longleftrightarrow> length (er_data r) < 256 \<and> er_opcode r \<noteq> 0xFF"

definition is_project :: "ext_record \<Rightarrow> bool" where
  "is_project r \<longleftrightarrow> er_opcode r = 0 \<and> length (er_data r) = 1"

definition ext_project :: "ext_record list \<Rightarrow> u8" where
  "ext_project rs = (case find is_project (rev rs) of None \<Rightarrow> 0 | Some r \<Rightarrow> hd (er_data r))"

lemma walk_project:
  assumes "rs \<noteq> []" and "list_all ext_ok rs"
  shows "rtb_get_fw_project_id (pre @ ext_area rs @ rest) (length pre + length (ext_area rs) - 1)
     = Ret (ext_project rs)"
  using assms
proof (induction rs arbitrary: rest rule: rev_induct)
  case (snoc r rs)
  let ?buf = "pre @ ext_area (rs @ [r]) @ rest" and ?d = "er_data r"
  define h where "h = length pre + length (ext_area rs)"
  have buf: "?buf = (pre @ ext_area rs) @ ?d @ [of_nat (length ?d), er_opcode r] @ rest"
    by (simp add: ext_area_def ext_bytes_def)
  have p: "length pre + length (ext_area (rs @ [r])) - 1 = h + length ?d + 1"
    by (simp add: ext_area_def ext_bytes_def h_def)
  have l: "unat (of_nat (length ?d) :: u8) = length ?d"
    using snoc.prems(2) unat_of_nat_small [of "length ?d", where ?'a = 8] by (simp add: ext_ok_def)
  have at: "?buf ! (h + length ?d + 1) = er_opcode r" "?buf ! (h + length ?d) = of_nat (length ?d)"
    unfolding buf by (simp_all add: h_def nth_append)
  have len: "h + length ?d + 1 < length ?buf" unfolding buf by (simp add: h_def)
  have one: "(of_nat (length ?d) :: u8) = 1 \<longleftrightarrow> length ?d = 1"
    using l by (metis of_nat_1 unat_1)
  show ?case
  proof (cases "is_project r")
    case True
    then obtain x where x: "?d = [x]" by (auto simp: is_project_def length_Suc_conv)
    have "?buf ! h = x" unfolding buf by (simp add: h_def nth_append x)
    then show ?thesis
      using True at len one unfolding p
      by (subst rtb_get_fw_project_id.simps) (simp add: Let_def is_project_def ext_project_def x)
  next
    case False
    have prev: "?buf ! (h - 1) = (if rs = [] then 0xFF else er_opcode (last rs))"
      unfolding buf by (cases rs rule: rev_cases) (simp_all add: h_def nth_append ext_area_def ext_bytes_def)
    have step: "rtb_get_fw_project_id ?buf (h + length ?d + 1) =
        (if ?buf ! (h - 1) \<noteq> 0xFF then rtb_get_fw_project_id ?buf (h - 1) else Ret 0)"
      using False at len one l h_def
      by (subst rtb_get_fw_project_id.simps) (auto simp: Let_def is_project_def ext_area_def)
    show ?thesis
    proof (cases "rs = []")
      case True
      then show ?thesis using False step prev unfolding p by (simp add: ext_project_def)
    next
      case rs: False
      then have "er_opcode (last rs) \<noteq> 0xFF"
        using snoc.prems(2) by (cases rs rule: rev_cases) (auto simp: ext_ok_def)
      moreover have "rtb_get_fw_project_id (pre @ ext_area rs @ (ext_bytes r @ rest)) (h - 1)
          = Ret (ext_project rs)"
        using snoc.IH [OF rs] snoc.prems(2) by (simp add: h_def)
      moreover have "pre @ ext_area rs @ (ext_bytes r @ rest) = ?buf" by (simp add: ext_area_def)
      moreover have "ext_project (rs @ [r]) = ext_project rs" using False by (simp add: ext_project_def)
      ultimately show ?thesis using step prev rs unfolding p by simp
    qed
  qed
qed simp

section \<open>The tables\<close>

definition fw_ok :: "bytes \<Rightarrow> fw_patch list \<Rightarrow> ext_record list \<Rightarrow> bool" where
  "fw_ok ver ps rs \<longleftrightarrow> length ver = 4 \<and> length ps < 65536 \<and>
     list_all (\<lambda>p. 12 \<le> code_len p \<and> code_len p < 65536) ps \<and>
     length (fw_image ver ps rs) < 2 ^ 32 \<and> rs \<noteq> [] \<and> list_all ext_ok rs"

lemma length_bytes16 [simp]: "length (bytes16 x) = 2" and length_bytes32 [simp]: "length (bytes32 y) = 4"
  by (simp_all add: bytes16_def bytes32_def)

lemma length_fw_tables: "length (fw_tables ps) = 8 * length ps"
  by (simp add: fw_tables_def length_concat_chunks [where k = 2] length_concat_chunks [where k = 4])

lemma length_fw_head: "length ver = 4 \<Longrightarrow> length (fw_head ver ps) = 14 + 8 * length ps"
  by (simp add: fw_head_def rtb_patch_smagic_def length_fw_tables)

lemma fetch16_at: "take 2 (drop p buf) = bytes16 x \<Longrightarrow> fetch16 buf p = Ret x"
proof -
  assume a: "take 2 (drop p buf) = bytes16 x"
  then have "length (take 2 (drop p buf)) = 2" by simp
  then have "p + 2 \<le> length buf" by auto
  with a show ?thesis by (simp add: fetch16_def bytes16_def le16_bytes del: One_nat_def)
qed

lemma fetch32_at: "take 4 (drop p buf) = bytes32 x \<Longrightarrow> fetch32 buf (int p) = Ret x"
proof -
  assume a: "take 4 (drop p buf) = bytes32 x"
  then have "length (take 4 (drop p buf)) = 4" by simp
  then have "p + 4 \<le> length buf" by auto
  moreover have "bytes32 x ! 0 = byte 0 x" "bytes32 x ! 1 = byte 1 x" "bytes32 x ! 2 = byte 2 x"
    "bytes32 x ! 3 = byte 3 x" by (simp_all add: bytes32_def)
  ultimately show ?thesis using a by (simp add: fetch32_def le32_bytes del: One_nat_def)
qed

lemma count_read: "length ver = 4 \<Longrightarrow> fetch16 (fw_head ver ps @ r) 12 = Ret (of_nat (length ps))"
  by (rule fetch16_at) (simp add: fw_head_def rtb_patch_smagic_def)

lemma table_reads:
  assumes "length ver = 4" and "i < length ps"
  defines "n \<equiv> length ps"
  shows "fetch16 (fw_head ver ps @ r) (14 + 2 * i) = Ret (fp_chip (ps ! i))"
    "fetch16 (fw_head ver ps @ r) (14 + 2 * n + 2 * i) = Ret (of_nat (code_len (ps ! i)))"
    "fetch32 (fw_head ver ps @ r) (int (14 + 4 * n + 4 * i)) = Ret (of_nat (fw_offset ps i))"
proof -
  let ?A = "concat (map (\<lambda>p. bytes16 (fp_chip p)) ps)"
    and ?B = "concat (map (\<lambda>p. bytes16 (of_nat (code_len p))) ps)"
    and ?C = "concat (map (\<lambda>i. bytes32 (of_nat (fw_offset ps i))) [0..<length ps])"
    and ?H = "rtb_patch_smagic @ ver @ bytes16 (of_nat (length ps))"
  have len: "length ?H = 14" "length ?A = 2 * n" "length ?B = 2 * n"
    using assms(1) by (simp_all add: rtb_patch_smagic_def n_def length_concat_chunks)
  have fw: "fw_head ver ps @ r = ?H @ ?A @ ?B @ ?C @ r" by (simp add: fw_head_def fw_tables_def)
  have d: "drop (14 + k) (fw_head ver ps @ r) = drop k (?A @ ?B @ ?C @ r)" for k
    unfolding fw using len(1) by simp
  show "fetch16 (fw_head ver ps @ r) (14 + 2 * i) = Ret (fp_chip (ps ! i))"
    by (rule fetch16_at, unfold d, rule take_drop_chunk [where f = "\<lambda>p. bytes16 (fp_chip p)"])
      (use assms(2) in simp_all)
  have "drop (14 + 2 * n + 2 * i) (fw_head ver ps @ r) = drop (2 * i) (?B @ ?C @ r)"
    using d [of "2 * n + 2 * i"] len(2) by (simp add: add.assoc)
  then show "fetch16 (fw_head ver ps @ r) (14 + 2 * n + 2 * i) = Ret (of_nat (code_len (ps ! i)))"
    using take_drop_chunk [of ps "\<lambda>p. bytes16 (of_nat (code_len p))" 2 i "?C @ r"] assms(2)
    by (intro fetch16_at) (simp only: length_bytes16)
  have "drop (14 + 4 * n + 4 * i) (fw_head ver ps @ r) = drop (4 * i) (?C @ r)"
    using d [of "4 * n + 4 * i"] len(2,3) by (simp add: add.assoc)
  then show "fetch32 (fw_head ver ps @ r) (int (14 + 4 * n + 4 * i)) = Ret (of_nat (fw_offset ps i))"
    using take_drop_chunk [of "[0..<length ps]" "\<lambda>i. bytes32 (of_nat (fw_offset ps i))" 4 i r] assms(2)
    by (intro fetch32_at) (simp only: length_bytes32 length_upt minus_nat.diff_0 nth_upt add_0)
qed

lemma code_at:
  assumes "length ver = 4" and "i < length ps"
  shows "take (code_len (ps ! i)) (drop (fw_offset ps i) (fw_head ver ps @ concat (map fp_code ps) @ r))
     = fp_code (ps ! i)"
    "fw_offset ps i + code_len (ps ! i) \<le> length (fw_head ver ps @ concat (map fp_code ps))"
proof -
  have ps: "ps = take i ps @ ps ! i # drop (Suc i) ps" using assms(2) by (simp add: id_take_nth_drop)
  have c: "concat (map fp_code ps)
      = concat (map fp_code (take i ps)) @ fp_code (ps ! i) @ concat (map fp_code (drop (Suc i) ps))"
    by (subst (1) ps) simp
  have s: "sum_list (map code_len (take i ps)) = length (concat (map fp_code (take i ps)))"
    by (simp add: length_concat code_len_def [abs_def] comp_def)
  show "take (code_len (ps ! i)) (drop (fw_offset ps i) (fw_head ver ps @ concat (map fp_code ps) @ r))
     = fp_code (ps ! i)"
    unfolding c fw_offset_def s using length_fw_head [OF assms(1), of ps] by (simp add: code_len_def)
  show "fw_offset ps i + code_len (ps ! i) \<le> length (fw_head ver ps @ concat (map fp_code ps))"
    unfolding c fw_offset_def s using length_fw_head [OF assms(1), of ps] by (simp add: code_len_def)
qed

section \<open>The search for the patch of the chip\<close>

definition chip_is :: "u8 \<Rightarrow> fw_patch \<Rightarrow> bool" where
  "chip_is ever p \<longleftrightarrow> unat (fp_chip p) = unat ever + 1"

lemma fetch32_inside: "0 \<le> p \<Longrightarrow> nat p + 4 \<le> length buf \<Longrightarrow> \<exists>x. fetch32 buf p = Ret x"
  by (simp add: fetch32_def)

lemma fw_image_cat:
  "fw_image ver ps rs = fw_head ver ps @ (concat (map fp_code ps) @ ext_area rs @ rtb_patch_emagic)"
  by (simp add: fw_image_def)

lemma fw_facts:
  assumes "fw_ok ver ps rs" and "i < length ps"
  shows "unat (of_nat (code_len (ps ! i)) :: u16) = code_len (ps ! i)" "12 \<le> code_len (ps ! i)"
    "unat (of_nat (fw_offset ps i) :: u32) = fw_offset ps i"
    "fw_offset ps i + code_len (ps ! i) \<le> length (fw_image ver ps rs)"
proof -
  have v: "length ver = 4" using assms(1) by (simp add: fw_ok_def)
  show "unat (of_nat (code_len (ps ! i)) :: u16) = code_len (ps ! i)" "12 \<le> code_len (ps ! i)"
    using assms unat_len16 by (auto simp: fw_ok_def list_all_length)
  show le: "fw_offset ps i + code_len (ps ! i) \<le> length (fw_image ver ps rs)"
    using code_at(2) [OF v assms(2)] by (simp add: fw_image_def)
  then have "fw_offset ps i < 2 ^ LENGTH(32)" using assms(1) by (simp add: fw_ok_def)
  then show "unat (of_nat (fw_offset ps i) :: u32) = fw_offset ps i" by (rule unat_of_nat_small)
qed

lemma entry_scan_skip:
  assumes "fw_ok ver ps rs" and "k \<le> length ps" and "i \<le> k"
    and "\<And>j. j < k \<Longrightarrow> \<not> chip_is ever (ps ! j)"
  shows "entry_scan (fw_image ver ps rs) ever (length ps) i = entry_scan (fw_image ver ps rs) ever (length ps) k"
  using assms(3)
proof (induction rule: inc_induct)
  case (step j)
  have "fetch16 (fw_image ver ps rs) (14 + 2 * j) = Ret (fp_chip (ps ! j))"
    unfolding fw_image_cat by (rule table_reads) (use assms step in \<open>simp_all add: fw_ok_def\<close>)
  then show ?case
    using step assms(2,4) by (subst entry_scan.simps) (simp add: chip_is_def)
qed simp

lemma entry_scan_hit:
  assumes "fw_ok ver ps rs" and "k < length ps" and "chip_is ever (ps ! k)"
  shows "\<exists>sv co. entry_scan (fw_image ver ps rs) ever (length ps) k =
     Ret (Some \<lparr>pe_chip_id = ucast ever + 1, patch_len = of_nat (code_len (ps ! k)),
       soffset = of_nat (fw_offset ps k), svn_ver = sv, coex_ver = co\<rparr>)"
proof -
  note f = fw_facts [OF assms(1,2)]
  have v: "length ver = 4" using assms(1) by (simp add: fw_ok_def)
  note reads = table_reads [OF v assms(2), of "concat (map fp_code ps) @ ext_area rs @ rtb_patch_emagic",
      folded fw_image_cat]
  let ?e = "int (fw_offset ps k) + int (code_len (ps ! k))"
  obtain sv co where "fetch32 (fw_image ver ps rs) (?e - 8) = Ret sv"
      "fetch32 (fw_image ver ps rs) (?e - 12) = Ret co"
    using fetch32_inside [of "?e - 8" "fw_image ver ps rs"] fetch32_inside [of "?e - 12" "fw_image ver ps rs"]
      f(2,4) by fastforce
  moreover have "uint (of_nat (code_len (ps ! k)) :: u16) = int (code_len (ps ! k))"
    "uint (of_nat (fw_offset ps k) :: u32) = int (fw_offset ps k)"
    using f(1,3) by (metis uint_nat)+
  ultimately show ?thesis
    using assms(2,3) reads by (subst entry_scan.simps) (simp add: chip_is_def)
qed

lemma entry_scan_none:
  assumes "fw_ok ver ps rs" and "\<And>j. j < length ps \<Longrightarrow> \<not> chip_is ever (ps ! j)"
  shows "entry_scan (fw_image ver ps rs) ever (length ps) 0 = Ret None"
  using entry_scan_skip [OF assms(1) order_refl _ assms(2), of 0] by (simp add: entry_scan.simps)

section \<open>The assembled patch\<close>

lemma config_part_all:
  "config_len s = int (length c) \<Longrightarrow> (c \<noteq> [] \<Longrightarrow> config_buf s = Some c) \<Longrightarrow> config_part s = Ret c"
  by (cases "c = []") (simp_all add: config_part_def)

text \<open>The first checks, on a well-formed container.\<close>

lemma final_patch_checks:
  assumes "fw_ok ver ps rs" and "fw_buf s = Some (fw_image ver ps rs)"
    and "fw_len s = int (length (fw_image ver ps rs))"
    and "\<not> (prot = HCI_UART_3WIRE \<and> lmp_subver s = ROM_LMP_8723a)"
  shows "rtb_get_final_patch fd prot s = rbind (project_matches (ext_project rs) s) (\<lambda>ok.
     if \<not> ok then final_err s else
     rbind (rtb_get_patch_entry s) (\<lambda>(ent, s).
       case ent of None \<Rightarrow> final_err s | Some ent \<Rightarrow> final_copy (fw_image ver ps rs) ent s))"
proof -
  define pre where "pre = fw_head ver ps @ concat (map fp_code ps)"
  have fw: "fw_image ver ps rs = pre @ ext_area rs @ rtb_patch_emagic"
    by (simp add: fw_image_def pre_def)
  have ok: "rs \<noteq> []" "list_all ext_ok rs" "length ver = 4" using assms(1) by (simp_all add: fw_ok_def)
  have len: "length (fw_image ver ps rs) = length pre + length (ext_area rs) + 4"
    by (simp add: fw rtb_patch_emagic_def)
  have ext: "1 \<le> length (ext_area rs)" by (simp add: ext_area_def)
  have "arr_slice (fw_image ver ps rs) 0 8 = Ret rtb_patch_smagic"
    using len ok(3) by (simp add: arr_slice_def fw_image_def fw_head_def rtb_patch_smagic_def)
  moreover have "arr_slice (fw_image ver ps rs) (length pre + length (ext_area rs)) 4 = Ret rtb_patch_emagic"
    by (simp add: fw arr_slice_def rtb_patch_emagic_def)
  moreover have "rtb_get_fw_project_id (fw_image ver ps rs) (length pre + length (ext_area rs) - 1)
      = Ret (ext_project rs)"
    unfolding fw by (rule walk_project) (use ok in auto)
  moreover have "nat (fw_len s - 4) = length pre + length (ext_area rs)"
    "nat (fw_len s - 5) = length pre + length (ext_area rs) - 1" "4 \<le> fw_len s" "5 \<le> fw_len s"
    using assms(3) len ext by linarith+
  ultimately show ?thesis
    using assms(2,4) unfolding rtb_get_final_patch_def by (cases "prot = HCI_UART_3WIRE"; simp)
qed

lemma get_patch_entry_image:
  assumes "fw_ok ver ps rs" and "fw_buf s = Some (fw_image ver ps rs)"
  shows "rtb_get_patch_entry s = (case do_malloc s of (ok, s') \<Rightarrow>
     if \<not> ok then Ret (None, s') else
     rbind (entry_scan (fw_image ver ps rs) (eversion s') (length ps) 0) (\<lambda>e. Ret (e, s')))"
proof -
  have "fetch16 (fw_image ver ps rs) 12 = Ret (of_nat (length ps))"
    unfolding fw_image_cat by (rule count_read) (use assms in \<open>simp add: fw_ok_def\<close>)
  moreover have "unat (of_nat (length ps) :: u16) = length ps"
    using assms(1) unat_len16 by (simp add: fw_ok_def)
  moreover have "fw_buf (snd (do_malloc s)) = fw_buf s"
    by (simp add: do_malloc_def split: list.split)
  ultimately show ?thesis
    using assms(2) by (cases "do_malloc s") (simp add: rtb_get_patch_entry_def)
qed

lemma final_patch_image:
  assumes "fw_ok ver ps rs" and "fw_buf s = Some (fw_image ver ps rs)"
    and "fw_len s = int (length (fw_image ver ps rs))"
    and "config_len s = int (length c)" and "c \<noteq> [] \<Longrightarrow> config_buf s = Some c"
    and "\<not> (prot = HCI_UART_3WIRE \<and> lmp_subver s = ROM_LMP_8723a)"
    and "project_matches (ext_project rs) s = Ret True"
    and "k < length ps" and "chip_is (eversion s) (ps ! k)"
    and "\<And>j. j < k \<Longrightarrow> \<not> chip_is (eversion s) (ps ! j)" and "mem_ok s"
  shows "\<exists>q. rtb_get_final_patch fd prot s =
     Ret (Some (take (code_len (ps ! k) - 4) (fp_code (ps ! k)) @ ver @ c),
       int (code_len (ps ! k) + length c), s\<lparr>dl_fw_flag := 1, malloc_q := q\<rparr>) \<and>
     list_all (\<lambda>ok. ok) q"
proof -
  let ?fw = "fw_image ver ps rs" and ?p = "ps ! k"
  note f = fw_facts [OF assms(1,8)]
  have v: "length ver = 4" using assms(1) by (simp add: fw_ok_def)
  obtain q1 where q1: "do_malloc s = (True, s\<lparr>malloc_q := q1\<rparr>)" "mem_ok (s\<lparr>malloc_q := q1\<rparr>)"
    using do_malloc_ok [OF assms(11)] by (auto simp: mem_ok_def)
  obtain q2 where q2: "do_malloc (s\<lparr>malloc_q := q1\<rparr>) = (True, s\<lparr>malloc_q := q2\<rparr>)"
      "list_all (\<lambda>ok. ok) q2"
    using do_malloc_ok [OF q1(2)] by auto
  obtain sv co where scan: "entry_scan ?fw (eversion s) (length ps) 0 =
      Ret (Some \<lparr>pe_chip_id = ucast (eversion s) + 1, patch_len = of_nat (code_len ?p),
        soffset = of_nat (fw_offset ps k), svn_ver = sv, coex_ver = co\<rparr>)" (is "_ = Ret (Some ?ent)")
    using entry_scan_hit [OF assms(1,8,9)] entry_scan_skip [OF assms(1) _ _ assms(10), of k 0] assms(8)
    by auto
  have code: "arr_slice ?fw (fw_offset ps k) (code_len ?p) = Ret (fp_code ?p)"
    using code_at(1) [OF v assms(8), of "ext_area rs @ rtb_patch_emagic"] f(4)
    by (simp add: arr_slice_def fw_image_def)
  have ver: "arr_slice ?fw 8 4 = Ret ver"
    using v by (simp add: arr_slice_def fw_image_def fw_head_def rtb_patch_smagic_def)
  have put: "arr_put (fp_code ?p) (code_len ?p - 4) ver = Ret (take (code_len ?p - 4) (fp_code ?p) @ ver)"
    using f(2) v by (simp add: arr_put_def code_len_def)
  have u: "unat (of_nat (code_len ?p) :: u16) = code_len ?p"
    "uint (of_nat (code_len ?p) :: u16) = int (code_len ?p)"
    using f(1) by (simp, metis uint_nat)
  have "final_copy ?fw ?ent (s\<lparr>malloc_q := q1\<rparr>) =
     Ret (Some (take (code_len ?p - 4) (fp_code ?p) @ ver @ c), int (code_len ?p + length c),
       s\<lparr>malloc_q := q2, dl_fw_flag := 1\<rparr>)"
    using q2(1) code ver put f(2) config_part_all [of "s\<lparr>malloc_q := q2\<rparr>" c] assms(4,5)
    by (simp add: final_copy_def Let_def u f(3) le_nat_iff flip: code_len_def)
  then have "rtb_get_final_patch fd prot s =
     Ret (Some (take (code_len ?p - 4) (fp_code ?p) @ ver @ c), int (code_len ?p + length c),
       s\<lparr>dl_fw_flag := 1, malloc_q := q2\<rparr>)"
    using final_patch_checks [OF assms(1,2,3,6)] get_patch_entry_image [OF assms(1,2)] q1 scan assms(7)
    by simp
  then show ?thesis using q2(2) by blast
qed

text \<open>
  Claim C29. From a well-formed container \<open>rtb_get_final_patch\<close> extracts the first patch whose
  chip identifier is the ECO version plus one, puts the version of the container in the place of
  its last four bytes, and appends the configuration; all reads and writes stay inside their
  buffers.
\<close>
theorem final_patch_layout:
  assumes "fw_ok ver ps rs" and "fw_buf s = Some (fw_image ver ps rs)"
    and "fw_len s = int (length (fw_image ver ps rs))"
    and "config_len s = int (length c)" and "c \<noteq> [] \<Longrightarrow> config_buf s = Some c"
    and "\<not> (prot = HCI_UART_3WIRE \<and> lmp_subver s = ROM_LMP_8723a)"
    and "project_matches (ext_project rs) s = Ret True"
    and "k < length ps" and "chip_is (eversion s) (ps ! k)"
    and "\<And>j. j < k \<Longrightarrow> \<not> chip_is (eversion s) (ps ! j)" and "mem_ok s"
  shows "\<exists>q. rtb_get_final_patch fd prot s =
     Ret (Some (take (code_len (ps ! k) - 4) (fp_code (ps ! k)) @ ver @ c),
       int (code_len (ps ! k) + length c), s\<lparr>dl_fw_flag := 1, malloc_q := q\<rparr>)"
  using final_patch_image [OF assms] by blast

lemma final_patch_none:
  assumes "fw_ok ver ps rs" and "fw_buf s = Some (fw_image ver ps rs)"
    and "fw_len s = int (length (fw_image ver ps rs))"
    and "\<not> (prot = HCI_UART_3WIRE \<and> lmp_subver s = ROM_LMP_8723a)"
    and "project_matches (ext_project rs) s = Ret b"
    and "b \<Longrightarrow> list_all (\<lambda>p. \<not> chip_is (eversion s) p) ps" and "mem_ok s"
  shows "\<exists>q. rtb_get_final_patch fd prot s = Ret (None, 0, s\<lparr>dl_fw_flag := 0, malloc_q := q\<rparr>) \<and>
     list_all (\<lambda>ok. ok) q"
proof (cases b)
  case True
  obtain q where q: "do_malloc s = (True, s\<lparr>malloc_q := q\<rparr>)" "list_all (\<lambda>ok. ok) q"
    using do_malloc_ok [OF assms(7)] .
  have "entry_scan (fw_image ver ps rs) (eversion s) (length ps) 0 = Ret None"
    using entry_scan_none [OF assms(1)] assms(6) True by (simp add: list_all_length)
  then have "rtb_get_final_patch fd prot s = Ret (None, 0, s\<lparr>dl_fw_flag := 0, malloc_q := q\<rparr>)"
    using final_patch_checks [OF assms(1,2,3,4)] get_patch_entry_image [OF assms(1,2)] q(1) assms(5) True
    by (simp add: final_err_def)
  then show ?thesis using q(2) by blast
next
  case False
  then show ?thesis
    using final_patch_checks [OF assms(1,2,3,4)] assms(5,7)
    by (intro exI [of _ "malloc_q s"]) (simp add: final_err_def mem_ok_def)
qed

text \<open>
  From a well-formed container for another project, or without a patch for the chip,
  \<open>rtb_get_final_patch\<close> returns the error value and clears the download flag.
\<close>
theorem final_patch_refused:
  assumes "fw_ok ver ps rs" and "fw_buf s = Some (fw_image ver ps rs)"
    and "fw_len s = int (length (fw_image ver ps rs))"
    and "\<not> (prot = HCI_UART_3WIRE \<and> lmp_subver s = ROM_LMP_8723a)"
    and "project_matches (ext_project rs) s = Ret b"
    and "b \<Longrightarrow> list_all (\<lambda>p. \<not> chip_is (eversion s) p) ps" and "mem_ok s"
  shows "\<exists>q. rtb_get_final_patch fd prot s = Ret (None, 0, s\<lparr>dl_fw_flag := 0, malloc_q := q\<rparr>)"
  using final_patch_none [OF assms] by blast

text \<open>On every well-formed container with a known project the function is memory safe.\<close>

lemma final_patch_safe:
  assumes "fw_ok ver ps rs" and "fw_buf s = Some (fw_image ver ps rs)"
    and "fw_len s = int (length (fw_image ver ps rs))"
    and "config_len s = int (length c)" and "c \<noteq> [] \<Longrightarrow> config_buf s = Some c"
    and "unat (ext_project rs) < 35" and "patch_ent s \<noteq> None" and "mem_ok s"
  shows "safe (rtb_get_final_patch fd prot s) (\<lambda>(b, n, s'). (\<exists>d q. s' = s\<lparr>dl_fw_flag := d, malloc_q := q\<rparr>) \<and> mem_ok s' \<and>
     (\<forall>b'. b = Some b' \<longrightarrow> n = int (length b') \<and> 0 < n))"
proof (cases "prot = HCI_UART_3WIRE \<and> lmp_subver s = ROM_LMP_8723a")
  case True
  have "length ver = 4" using assms(1) by (simp add: fw_ok_def)
  then have "arr_slice (fw_image ver ps rs) 0 8 = Ret rtb_patch_smagic"
    by (simp add: arr_slice_def fw_image_def fw_head_def rtb_patch_smagic_def)
  then have "rtb_get_final_patch fd prot s = final_err s"
    using True assms(2) by (simp add: rtb_get_final_patch_def)
  moreover have "s\<lparr>dl_fw_flag := 0\<rparr> = s\<lparr>dl_fw_flag := 0, malloc_q := malloc_q s\<rparr>" by (cases s) simp
  moreover have "mem_ok (s\<lparr>dl_fw_flag := 0\<rparr>)" using assms(8) by (simp add: mem_ok_def)
  ultimately show ?thesis unfolding final_err_def by (simp, metis)
next
  case False
  obtain b where b: "project_matches (ext_project rs) s = Ret b"
    using assms(6,7) by (cases "lmp_subver s = ROM_LMP_8703b") (auto simp: project_matches_def project_id_def)
  show ?thesis
  proof (cases "b \<and> (\<exists>k < length ps. chip_is (eversion s) (ps ! k))")
    case True
    define k where "k = (LEAST k. k < length ps \<and> chip_is (eversion s) (ps ! k))"
    have k: "k < length ps" "chip_is (eversion s) (ps ! k)"
      using True LeastI_ex [of "\<lambda>k. k < length ps \<and> chip_is (eversion s) (ps ! k)"] by (auto simp: k_def)
    have before: "\<not> chip_is (eversion s) (ps ! j)" if "j < k" for j
      using not_less_Least [of j "\<lambda>k. k < length ps \<and> chip_is (eversion s) (ps ! k)"] that k(1)
      by (auto simp: k_def)
    have "12 \<le> code_len (ps ! k)" "length ver = 4"
      using assms(1) k(1) by (auto simp: fw_ok_def list_all_length)
    moreover from this have "length (take (code_len (ps ! k) - 4) (fp_code (ps ! k)) @ ver @ c) =
        code_len (ps ! k) + length c" by (simp add: code_len_def)
    moreover obtain q where "rtb_get_final_patch fd prot s =
        Ret (Some (take (code_len (ps ! k) - 4) (fp_code (ps ! k)) @ ver @ c),
          int (code_len (ps ! k) + length c), s\<lparr>dl_fw_flag := 1, malloc_q := q\<rparr>)"
        "mem_ok (s\<lparr>dl_fw_flag := 1, malloc_q := q\<rparr>)"
      using final_patch_image [OF assms(1-5) False _ k before assms(8), of fd] b True by (auto simp: mem_ok_def)
    ultimately show ?thesis by (simp del: length_append) blast
  next
    case none: False
    have "b \<Longrightarrow> list_all (\<lambda>p. \<not> chip_is (eversion s) p) ps"
      using none by (auto simp: list_all_length)
    then obtain q where "rtb_get_final_patch fd prot s = Ret (None, 0, s\<lparr>dl_fw_flag := 0, malloc_q := q\<rparr>)"
        "mem_ok (s\<lparr>dl_fw_flag := 0, malloc_q := q\<rparr>)"
      using final_patch_none [OF assms(1-3) False b _ assms(8), of fd] by (auto simp: mem_ok_def)
    then show ?thesis by simp blast
  qed
qed

section \<open>Examples\<close>

definition demo_patches :: "fw_patch list" where
  "demo_patches =
     [\<lparr>fp_chip = 1, fp_code = replicate 12 0x11\<rparr>, \<lparr>fp_chip = 2, fp_code = replicate 13 0x22\<rparr>]"

text \<open>Project 8 is the RTL8822BS.\<close>

definition demo_ext :: "u8 \<Rightarrow> ext_record list" where
  "demo_ext proj = [\<lparr>er_opcode = 0, er_data = [proj]\<rparr>, \<lparr>er_opcode = 1, er_data = [5, 6]\<rparr>]"

definition demo_state :: "u8 \<Rightarrow> u8 \<Rightarrow> rtb_struct" where
  "demo_state proj ever = rtb_cfg\<lparr>lmp_subver := ROM_LMP_8822b, eversion := ever,
     fw_buf := Some (fw_image [1, 2, 3, 4] demo_patches (demo_ext proj)),
     fw_len := int (length (fw_image [1, 2, 3, 4] demo_patches (demo_ext proj))),
     config_buf := Some (cfg_image []), config_len := int (length (cfg_image []))\<rparr>"

lemma length_ext_bytes: "length (ext_bytes r) = length (er_data r) + 2"
  by (simp add: ext_bytes_def)

lemma demo_fw_ok: "fw_ok [1, 2, 3, 4] demo_patches (demo_ext proj)"
  by (simp add: fw_ok_def demo_patches_def demo_ext_def code_len_def ext_ok_def fw_image_def
      length_fw_head rtb_patch_emagic_def ext_area_def length_ext_bytes)

lemma demo_project: "ext_project (demo_ext proj) = proj"
  by (simp add: ext_project_def demo_ext_def is_project_def)

lemma final_patch_layout_witness:
  "\<exists>q. rtb_get_final_patch 3 HCI_UART_3WIRE (demo_state 8 1) =
     Ret (Some (take (code_len (demo_patches ! 1) - 4) (fp_code (demo_patches ! 1)) @ [1, 2, 3, 4] @
         cfg_image []),
       int (code_len (demo_patches ! 1) + length (cfg_image [])),
       (demo_state 8 1)\<lparr>dl_fw_flag := 1, malloc_q := q\<rparr>)"
  by (rule final_patch_layout [OF demo_fw_ok [of 8]])
    (simp_all add: demo_state_def demo_project project_matches_def project_id_def db_consts
      demo_patches_def chip_is_def mem_ok_def)

lemma final_patch_refused_witness:
  "\<exists>q. rtb_get_final_patch 3 HCI_UART_3WIRE (demo_state 8 7) =
     Ret (None, 0, (demo_state 8 7)\<lparr>dl_fw_flag := 0, malloc_q := q\<rparr>)"
  by (rule final_patch_refused [OF demo_fw_ok [of 8], where b = True])
    (simp_all add: demo_state_def demo_project project_matches_def project_id_def db_consts
      demo_patches_def chip_is_def mem_ok_def)

text \<open>
  The project number of a well-formed container is not compared with the size of the
  table it indexes: a firmware file that announces a project beyond the 35 known ones makes
  \<open>rtb_get_final_patch\<close> read out of bounds.
\<close>
theorem final_patch_project_bounds:
  assumes "fw_ok ver ps rs" and "fw_buf s = Some (fw_image ver ps rs)"
    and "fw_len s = int (length (fw_image ver ps rs))"
    and "\<not> (prot = HCI_UART_3WIRE \<and> lmp_subver s = ROM_LMP_8723a)"
    and "35 \<le> unat (ext_project rs)"
  shows "rtb_get_final_patch fd prot s = Fault"
  using final_patch_checks [OF assms(1-4)] assms(5) by (simp add: project_matches_def project_id_def)

lemma final_patch_project_bounds_witness:
  "rtb_get_final_patch 3 HCI_UART_3WIRE (demo_state 40 1) = Fault"
  by (rule final_patch_project_bounds [OF demo_fw_ok [of 40]])
    (simp_all add: demo_state_def demo_project db_consts)

end
