(* ===== verification/Rtb_Config.thy ===== *)
theory Rtb_Config
  imports H5_Handshake Download Firmware
begin

text \<open>
  The configuration sequence of hciattach_rtk.c: identifying the chip, loading firmware and
  configuration, changing the line speed and downloading (\<open>rtb_config\<close>), and the set-up around
  it (\<open>rtb_init\<close>); with \<open>uart_speed\<close> and \<open>set_speed\<close> of hciattach.c. The contents of the disk are
  the parameter \<open>fs\<close>.
\<close>

section \<open>Line speed\<close>

text \<open>
  A constant \<open>B9600\<close> of termios is represented by its rate; all of those the code names exist on
  Linux.
\<close>

definition uart_rate :: "int \<Rightarrow> int" where
  "uart_rate r =
     (if r \<in> {9600, 19200, 38400, 57600, 115200, 230400, 460800, 500000, 576000, 921600, 1000000,
              1152000, 1500000, 2000000, 2500000, 3000000, 3500000, 4000000} then r
      else 57600)"

text \<open>\<open>set_speed\<close>: \<open>cfsetospeed\<close> and \<open>cfsetispeed\<close> accept every value of \<open>uart_speed\<close>.\<close>

definition set_speed :: "int \<Rightarrow> rtb_struct \<Rightarrow> int \<times> rtb_struct" where
  "set_speed speed s =
     (case do_tcsetattr (s\<lparr>ti_speed := uart_rate speed\<rparr>) of (r, s) \<Rightarrow> (if r < 0 then r else 0, s))"

section \<open>Identifying the chip\<close>

text \<open>
  The H4 branch after the two version commands, whose results nobody looks at: \<open>Inl r\<close> returns
  \<open>r\<close>, \<open>Inr True\<close> jumps to the label \<open>change_baud\<close>.
\<close>

definition h4_identify :: "rtb_struct \<Rightarrow> (int + bool) \<times> rtb_struct" where
  "h4_identify s =
     (if lmp_subver s = ROM_LMP_8761btc then
        (Inr True, s\<lparr>chip_type := CHIP_8761BTC, uart_flow_ctrl := 1,
           vendor_baud := std_speed_to_vendor 1500000\<rparr>)
      else if lmp_subver s = ROM_LMP_8761a then
        (Inr False,
         if hci_rev s = 0x000b then s\<lparr>chip_type := CHIP_8761BH4\<rparr>
         else if hci_rev s = 0x000a then
           if eversion s = 3 then s\<lparr>chip_type := CHIP_8761ATF\<rparr>
           else if eversion s = 2 then s\<lparr>chip_type := CHIP_8761AT\<rparr>
           else s\<lparr>chip_type := CHIP_UNKNOWN\<rparr>
         else s)
      else if lmp_subver s = ROM_LMP_8723b then
        if hci_ver s = 0x08 \<and> hci_rev s = 0x000d then (Inr False, s\<lparr>chip_type := CHIP_8723DS\<rparr>)
        else if hci_ver s = 0x06 \<and> hci_rev s = 0x000b then (Inr False, s\<lparr>chip_type := CHIP_8723BS\<rparr>)
        else (Inl (-1), s)
      else (Inr False, s))"

definition rtb_identify :: "int \<Rightarrow> int \<Rightarrow> rtb_struct \<Rightarrow> ((int + bool) \<times> rtb_struct) res" where
  "rtb_identify fd prot s =
     (if prot = HCI_UART_3WIRE then
        rbind (rtb_read_local_version fd s) (\<lambda>s.
        rbind (rtb_read_eversion fd s) (\<lambda>s. Ret (Inr False, s)))
      else
        rbind (h4_read_local_ver fd s) (\<lambda>(_, s).
        rbind (h4_vendor_read_rom_ver fd s) (\<lambda>(_, s). Ret (h4_identify s))))"

text \<open>
  Reading the chip type, with the three-wire command whatever the protocol, and choosing the
  patch entry. \<open>get_patch_entry\<close> never returns null, so the branch for it is not reached.
\<close>

definition rtb_choose_patch :: "int \<Rightarrow> rtb_struct \<Rightarrow> rtb_struct res" where
  "rtb_choose_patch fd s =
     rbind (if lmp_subver s \<in> {ROM_LMP_8761a, ROM_LMP_8703b, ROM_LMP_8852a}
            then rtb_read_chip_type fd s else Ret s) (\<lambda>s.
     let s = (if chip_type s = CHIP_8852BPE_VR \<or> chip_type s = CHIP_8852BPS
              then s\<lparr>chip_type := CHIP_8852BP\<rparr> else s);
         s = (if chip_type s = CHIP_8852BP then s\<lparr>eversion := chip_ver s\<rparr> else s)
     in rbind (get_patch_entry s) (\<lambda>ent. Ret (s\<lparr>patch_ent := Some ent\<rparr>)))"

section \<open>Loading\<close>

text \<open>
  The firmware and the final patch, with the configuration already read: \<open>False\<close> stands for the
  early return of -1.
\<close>

definition rtb_load_fw :: "file_system \<Rightarrow> int \<Rightarrow> int \<Rightarrow> rtb_struct \<Rightarrow> (bool \<times> rtb_struct) res" where
  "rtb_load_fw fs fd prot s =
     rbind (rtb_read_firmware fs s) (\<lambda>(fw, n, s).
     let s = (case n of None \<Rightarrow> s | Some n \<Rightarrow> s\<lparr>fw_len := n\<rparr>);
         s = s\<lparr>fw_buf := fw\<rparr>
     in if fw = None then
          let s = s\<lparr>fw_len := 0\<rparr> in
          Ret (False, if config_buf s \<noteq> None then s\<lparr>config_buf := None, config_len := 0\<rparr> else s)
        else
          rbind (rtb_get_final_patch fd prot s) (\<lambda>(total, n, s).
          let s = s\<lparr>total_buf := total, total_len := n, config_buf := None, fw_buf := None, fw_len := 0\<rparr>
          in if total = None then Exit 1 else Ret (True, s)))"

definition rtb_load :: "file_system \<Rightarrow> int \<Rightarrow> int \<Rightarrow> rtb_struct \<Rightarrow> (bool \<times> rtb_struct) res" where
  "rtb_load fs fd prot s =
     (case patch_ent s of None \<Rightarrow> Fault | Some ent \<Rightarrow>
      rbind (rtb_read_config fs (config_file ent) (pi_chip_type ent) s) (\<lambda>(cfg, n, s).
      let s = s\<lparr>config_len := n, config_buf := cfg\<rparr>;
          s = (if cfg = None then s\<lparr>config_len := 0\<rparr> else s)
      in rtb_load_fw fs fd prot s))"

definition max_patch_size :: "u8 \<Rightarrow> int" where
  "max_patch_size chip =
     (if chip = CHIP_8822BS then 25 * 1024
      else if chip \<in> {CHIP_8821CS, CHIP_8723DS, CHIP_8822CS, CHIP_8761B, CHIP_8725AS} then 40 * 1024
      else if chip = CHIP_8852AS then 0x114D0 + 529
      else if chip = CHIP_8723FS then 0xC4CF + 529
      else if chip \<in> {CHIP_8852BS, CHIP_8852BP} then 0x104D0 + 529
      else if chip = CHIP_8852CS then 0x130D0 + 529
      else 24 * 1024)"

text \<open>The size limit, and the parity an RTL8723DS may ask for over H4.\<close>

definition rtb_check_patch :: "rtb_struct \<Rightarrow> (bool \<times> rtb_struct) res" where
  "rtb_check_patch s =
     (case patch_ent s of None \<Rightarrow> Fault | Some ent \<Rightarrow>
      if total_len s > max_patch_size (pi_chip_type ent) then Ret (False, s)
      else if chip_type s = CHIP_8723DS \<and> proto s = HCI_UART_H4 \<and> parenb s \<noteq> 0 then
        let s = s\<lparr>ti_cflag := ti_cflag s OR PARENB\<rparr>;
            s = (if pareven s \<noteq> 0 then s\<lparr>ti_cflag := ti_cflag s AND NOT PARODD\<rparr>
                 else s\<lparr>ti_cflag := ti_cflag s OR PARODD\<rparr>)
        in case do_tcsetattr s of (r, s) \<Rightarrow> Ret (0 \<le> r, s)
      else Ret (True, s))"

section \<open>Changing the speed and downloading\<close>

text \<open>From the label \<open>change_baud\<close> to \<open>start_download\<close>; \<open>False\<close> jumps to \<open>buf_free\<close>.\<close>

definition rtb_change_baud :: "int \<Rightarrow> int \<Rightarrow> int \<Rightarrow> rtb_struct \<Rightarrow> (bool \<times> rtb_struct) res" where
  "rtb_change_baud fd prot speed s =
     (if vendor_baud s = 0 then Ret (True, s\<lparr>vendor_baud := std_speed_to_vendor speed\<rparr>)
      else
        let s = s\<lparr>final_speed := vendor_speed_to_std (vendor_baud s)\<rparr> in
        if final_speed s = 115200 then Ret (True, s)
        else
          rbind (if prot = HCI_UART_3WIRE then h5_vendor_change_speed fd (vendor_baud s) s
                 else h4_vendor_change_speed fd (vendor_baud s) s) (\<lambda>(_, s).
          let final = (if final_speed s \<noteq> 0 then sint (final_speed s) else speed) in
          case set_speed final s of (r, s) \<Rightarrow> Ret (0 \<le> r, s)))"

text \<open>From the label \<open>start_download\<close> to the return.\<close>

definition rtb_start_download :: "int \<Rightarrow> int \<Rightarrow> rtb_struct \<Rightarrow> (int \<times> rtb_struct) res" where
  "rtb_start_download fd prot s =
     (if chip_type s = CHIP_8761BTC then Ret (0, s)
      else if total_len s > 0 \<and> dl_fw_flag s \<noteq> 0 then
        let s = s\<lparr>link_estab_state := H5_PATCH, rx_index := -1\<rparr> in
        case total_buf s of None \<Rightarrow> Fault | Some buf \<Rightarrow>
          rbind (rtb_download_fwc fd buf (total_len s) prot s) (\<lambda>(r, s).
            if r < 0 then Ret (r, s) else Ret (0, s))
      else Ret (0, s))"

definition rtb_speed_download :: "int \<Rightarrow> int \<Rightarrow> int \<Rightarrow> rtb_struct \<Rightarrow> (int \<times> rtb_struct) res" where
  "rtb_speed_download fd prot speed s =
     rbind (rtb_change_baud fd prot speed s) (\<lambda>(ok, s).
       if \<not> ok then Ret (-1, s) else rtb_start_download fd prot s)"

definition rtb_config :: "file_system \<Rightarrow> int \<Rightarrow> int \<Rightarrow> int \<Rightarrow> rtb_struct \<Rightarrow> (int \<times> rtb_struct) res" where
  "rtb_config fs fd prot speed s =
     rbind (rtb_identify fd prot (s\<lparr>proto := prot\<rparr>)) (\<lambda>(j, s).
     case j of
       Inl r \<Rightarrow> Ret (r, s)
     | Inr True \<Rightarrow> rtb_speed_download fd prot speed s
     | Inr False \<Rightarrow>
         rbind (rtb_choose_patch fd s) (\<lambda>s.
         rbind (rtb_load fs fd prot s) (\<lambda>(ok, s).
         if \<not> ok then Ret (-1, s) else
         rbind (rtb_check_patch s) (\<lambda>(ok, s).
         if \<not> ok then Ret (-1, s) else rtb_speed_download fd prot speed s))))"

section \<open>rtb_init\<close>

text \<open>\<open>memset (&rtb_cfg, 0, sizeof (rtb_cfg))\<close>: everything but the world.\<close>

definition rtb_zero :: "rtb_struct \<Rightarrow> rtb_struct" where
  "rtb_zero s = rtb_cfg\<lparr>malloc_q := malloc_q s, write_q := write_q s, read_q := read_q s,
     timer_q := timer_q s, poll_q := poll_q s, epoll_q := epoll_q s, tcset_q := tcset_q s,
     tx_log := tx_log s, sys_q := sys_q s, ti_cflag := ti_cflag s, ti_speed := ti_speed s,
     armed_msec := armed_msec s\<rparr>"

text \<open>
  \<open>rtb_init\<close>; the descriptors a successful \<open>epoll_create\<close> and \<open>timerfd_create\<close> return are 4
  and 5 unless the script says otherwise.
\<close>

definition rtb_init :: "file_system \<Rightarrow> int \<Rightarrow> int \<Rightarrow> int \<Rightarrow> rtb_struct \<Rightarrow> (int \<times> rtb_struct) res" where
  "rtb_init fs fd prot speed s =
     (let s = (rtb_zero s)\<lparr>serial_fd := fd, dl_fw_flag := 1\<rparr> in
      case do_sys 4 s of (r, s) \<Rightarrow>
      let s = s\<lparr>epollfd := r\<rparr> in
      if r = -1 then Exit 1 else
      case do_sys 0 s of (r, s) \<Rightarrow>
      if r = -1 then Exit 1 else
      case do_sys 5 s of (r, s) \<Rightarrow>
      let s = s\<lparr>timerfd := r\<rparr> in
      if r = -1 then Ret (-1, s) else
      case (if timerfd s > 0 then do_sys 0 s else (0, s)) of (r, s) \<Rightarrow>
      if r = -1 then Exit 1 else
      rbind (if prot = HCI_UART_3WIRE then rtb_init_h5 fd s else Ret (0, s)) (\<lambda>(r, s).
      if prot = HCI_UART_3WIRE \<and> r < 0 then Ret (-1, s) else
      rbind (rtb_config fs fd prot speed s) (\<lambda>(result, s).
      case do_sys 0 s of (_, s) \<Rightarrow>
      case do_sys 0 s of (_, s) \<Rightarrow>
      case do_sys 0 s of (_, s) \<Rightarrow>
        Ret (result, s\<lparr>timerfd := -1\<rparr>))))"

definition rtb_post :: "int \<Rightarrow> int \<Rightarrow> int" where
  "rtb_post fd prot = 0"

section \<open>Good files\<close>

text \<open>
  The files a patch entry names. The configuration is missing or well formed when there is neither
  an extra configuration nor an address file; with those two, all three are as in \<open>cfg_files\<close>.
\<close>

definition cfg_file_ok :: "file_system \<Rightarrow> string \<Rightarrow> u8 \<Rightarrow> bool" where
  "cfg_file_ok fs nm chip \<longleftrightarrow> (\<exists>ns xs a. cfg_files fs nm chip ns xs a) \<or>
     fs EXTRA_CONFIG_FILE = None \<and> fs BT_ADDR_FILE = None \<and>
     (fs (BT_CONFIG_DIRECTORY @ nm) = None \<or>
      (\<exists>ns. fs (BT_CONFIG_DIRECTORY @ nm) =
         Some \<lparr>f_size = length (cfg_image ns), f_open = True, f_data = Some (cfg_image ns)\<rparr> \<and>
       list_all item_ok ns \<and> list_all speed_ok ns \<and> length (cfg_bytes ns) < 65530))"

definition fw_file_ok :: "file_system \<Rightarrow> string \<Rightarrow> bool" where
  "fw_file_ok fs nm \<longleftrightarrow> fs (FIRMWARE_DIRECTORY @ nm) = None \<or>
     (\<exists>ver ps rs. fs (FIRMWARE_DIRECTORY @ nm) = Some \<lparr>f_size = length (fw_image ver ps rs),
        f_open = True, f_data = Some (fw_image ver ps rs)\<rparr> \<and>
      fw_ok ver ps rs \<and> unat (ext_project rs) < 35)"

definition files_ok :: "file_system \<Rightarrow> bool" where
  "files_ok fs \<longleftrightarrow>
     list_all (\<lambda>e. cfg_file_ok fs (config_file e) (pi_chip_type e) \<and> fw_file_ok fs (patch_file e))
       (patch_table @ h4_patch_table)"

lemma read_config_safe:
  assumes "cfg_file_ok fs nm chip" and "mem_ok s"
  shows "safe (rtb_read_config fs nm chip s) (\<lambda>(c, n, s').
     (\<exists>v u q. s' = s\<lparr>vendor_baud := v, uart_flow_ctrl := u, malloc_q := q\<rparr>) \<and> mem_ok s' \<and>
     (case c of None \<Rightarrow> n = 0 | Some b \<Rightarrow> n = int (length b)))"
proof (cases "\<exists>ns xs a. cfg_files fs nm chip ns xs a")
  case True
  then obtain ns xs a where "cfg_files fs nm chip ns xs a" by blast
  from read_config_files [OF this assms(2)] show ?thesis by (clarsimp simp: mem_ok_def) blast
next
  case False
  then have none: "fs EXTRA_CONFIG_FILE = None" "fs BT_ADDR_FILE = None"
    and one: "fs (BT_CONFIG_DIRECTORY @ nm) = None \<or> (\<exists>ns. fs (BT_CONFIG_DIRECTORY @ nm) =
         Some \<lparr>f_size = length (cfg_image ns), f_open = True, f_data = Some (cfg_image ns)\<rparr> \<and>
       list_all item_ok ns \<and> list_all speed_ok ns \<and> length (cfg_bytes ns) < 65530)"
    using assms(1) by (auto simp: cfg_file_ok_def)
  obtain q1 where q1: "do_malloc s = (True, s\<lparr>malloc_q := q1\<rparr>)" "mem_ok (s\<lparr>malloc_q := q1\<rparr>)"
    using do_malloc_ok [OF assms(2)] by (auto simp: mem_ok_def)
  have id: "s\<lparr>malloc_q := q\<rparr> = s\<lparr>vendor_baud := vendor_baud s, uart_flow_ctrl := uart_flow_ctrl s,
      malloc_q := q\<rparr>" for q by (cases s) simp
  have start: "rtb_read_config fs nm chip s = rtb_read_config_file fs nm chip [] s"
    using none by (simp add: rtb_read_config_def parse_extra_config_def read_bdaddr_def)
  show ?thesis
  proof (cases "fs (BT_CONFIG_DIRECTORY @ nm)")
    case None
    then have "rtb_read_config_file fs nm chip [] s = Ret (None, 0, s\<lparr>malloc_q := q1\<rparr>)"
      using q1(1) by (simp add: rtb_read_config_file_def)
    moreover have "\<exists>v u q. s\<lparr>malloc_q := q1\<rparr> = s\<lparr>vendor_baud := v, uart_flow_ctrl := u, malloc_q := q\<rparr>"
      using id [of q1] by blast
    ultimately show ?thesis unfolding start using q1(2) by simp
  next
    case (Some f)
    then obtain ns where f: "f = \<lparr>f_size = length (cfg_image ns), f_open = True, f_data = Some (cfg_image ns)\<rparr>"
      and ns: "list_all item_ok ns" "list_all speed_ok ns" "length (cfg_bytes ns) < 65530"
      using one by auto
    obtain q2 where q2: "do_malloc (s\<lparr>malloc_q := q1\<rparr>) = (True, s\<lparr>malloc_q := q2\<rparr>)"
        "mem_ok (s\<lparr>malloc_q := q2\<rparr>)"
      using do_malloc_ok [OF q1(2)] by (auto simp: mem_ok_def)
    obtain q3 where q3: "rtb_parse_config (Some (cfg_image ns)) (length (cfg_image ns)) []
        (s\<lparr>malloc_q := q2\<rparr>) = Ret (0, ns, s\<lparr>malloc_q := q3\<rparr>)" "mem_ok (s\<lparr>malloc_q := q3\<rparr>)"
      using parse_image [OF ns(1) _ q2(2), of "[]"] ns(3) by auto
    obtain u q4 where q4: "cfg_layout chip (cfg_image ns) ns (s\<lparr>malloc_q := q3\<rparr>) =
       Ret (Some (cfg_image ns), int (6 + length (cfg_bytes ns)),
         s\<lparr>vendor_baud := cfg_speed ns (vendor_baud s), uart_flow_ctrl := u, malloc_q := q4\<rparr>)"
        "mem_ok (s\<lparr>vendor_baud := cfg_speed ns (vendor_baud s), uart_flow_ctrl := u, malloc_q := q4\<rparr>)"
      using cfg_layout_ok [OF ns q3(2), of chip "cfg_image ns"] by (auto simp: mem_ok_def)
    have "rtb_read_config_file fs nm chip [] s = Ret (Some (cfg_image ns),
        int (6 + length (cfg_bytes ns)),
        s\<lparr>vendor_baud := cfg_speed ns (vendor_baud s), uart_flow_ctrl := u, malloc_q := q4\<rparr>)"
      using Some f q1(1) q2(1) q3(1) q4(1)
      by (simp add: rtb_read_config_file_def merge_configs_def Let_def)
    then show ?thesis unfolding start using q4(2) by auto
  qed
qed

lemma read_firmware_safe:
  assumes "patch_ent s = Some ent" and "fw_file_ok fs (patch_file ent)" and "mem_ok s"
  shows "safe (rtb_read_firmware fs s) (\<lambda>(fw, n, s'). (\<exists>q. s' = s\<lparr>malloc_q := q\<rparr>) \<and> mem_ok s' \<and>
     (fw = None \<and> n = None \<or> (\<exists>ver ps rs. fw = Some (fw_image ver ps rs) \<and> fw_ok ver ps rs \<and>
        unat (ext_project rs) < 35 \<and> n = Some (int (length (fw_image ver ps rs))))))"
proof -
  obtain q1 where q1: "do_malloc s = (True, s\<lparr>malloc_q := q1\<rparr>)" "mem_ok (s\<lparr>malloc_q := q1\<rparr>)"
    using do_malloc_ok [OF assms(3)] by (auto simp: mem_ok_def)
  obtain q2 where q2: "do_malloc (s\<lparr>malloc_q := q1\<rparr>) = (True, s\<lparr>malloc_q := q2\<rparr>)"
      "mem_ok (s\<lparr>malloc_q := q2\<rparr>)"
    using do_malloc_ok [OF q1(2)] by (auto simp: mem_ok_def)
  show ?thesis
  proof (cases "fs (FIRMWARE_DIRECTORY @ patch_file ent)")
    case None
    then show ?thesis using assms(1) q1 by (auto simp: rtb_read_firmware_def)
  next
    case (Some f)
    then obtain ver ps rs where f: "f = \<lparr>f_size = length (fw_image ver ps rs), f_open = True,
        f_data = Some (fw_image ver ps rs)\<rparr>" "fw_ok ver ps rs" "unat (ext_project rs) < 35"
      using assms(2) by (auto simp: fw_file_ok_def)
    then have "rtb_read_firmware fs s = Ret (Some (fw_image ver ps rs),
        Some (int (length (fw_image ver ps rs))), s\<lparr>malloc_q := q2\<rparr>)"
      using assms(1) Some q1(1) q2(1) by (simp add: rtb_read_firmware_def Let_def)
    then show ?thesis using q2(2) f by auto
  qed
qed

section \<open>Memory safety over three wires\<close>

lemma h5_inv_cfg [simp]:
  "h5_inv (s\<lparr>proto := pr\<rparr>) = h5_inv s" "h5_inv (s\<lparr>vendor_baud := v\<rparr>) = h5_inv s"
  "h5_inv (s\<lparr>uart_flow_ctrl := u\<rparr>) = h5_inv s" "h5_inv (s\<lparr>malloc_q := mq\<rparr>) = h5_inv s"
  "h5_inv (s\<lparr>config_len := n\<rparr>) = h5_inv s" "h5_inv (s\<lparr>config_buf := b\<rparr>) = h5_inv s"
  "h5_inv (s\<lparr>fw_len := n\<rparr>) = h5_inv s" "h5_inv (s\<lparr>fw_buf := b\<rparr>) = h5_inv s"
  "h5_inv (s\<lparr>total_len := n\<rparr>) = h5_inv s" "h5_inv (s\<lparr>total_buf := b\<rparr>) = h5_inv s"
  "h5_inv (s\<lparr>dl_fw_flag := d\<rparr>) = h5_inv s" "h5_inv (s\<lparr>patch_ent := e\<rparr>) = h5_inv s"
  "h5_inv (s\<lparr>chip_type := c\<rparr>) = h5_inv s" "h5_inv (s\<lparr>eversion := c\<rparr>) = h5_inv s"
  "h5_inv (s\<lparr>final_speed := v\<rparr>) = h5_inv s" "h5_inv (s\<lparr>link_estab_state := l\<rparr>) = h5_inv s"
  "h5_inv (s\<lparr>rx_index := n\<rparr>) = h5_inv s" "h5_inv (s\<lparr>ti_cflag := w\<rparr>) = h5_inv s"
  "h5_inv (s\<lparr>ti_speed := n\<rparr>) = h5_inv s" "h5_inv (s\<lparr>tcset_q := tq\<rparr>) = h5_inv s"
  "h5_inv (s\<lparr>sys_q := tq\<rparr>) = h5_inv s" "h5_inv (s\<lparr>serial_fd := n\<rparr>) = h5_inv s"
  "h5_inv (s\<lparr>epollfd := n\<rparr>) = h5_inv s" "h5_inv (s\<lparr>timerfd := n\<rparr>) = h5_inv s"
  by (rule h5_inv_cong; simp)+

lemma mem_ok_cfg [simp]:
  "mem_ok (s\<lparr>proto := pr\<rparr>) = mem_ok s" "mem_ok (s\<lparr>vendor_baud := v\<rparr>) = mem_ok s"
  "mem_ok (s\<lparr>uart_flow_ctrl := u\<rparr>) = mem_ok s"
  "mem_ok (s\<lparr>config_len := n\<rparr>) = mem_ok s" "mem_ok (s\<lparr>config_buf := b\<rparr>) = mem_ok s"
  "mem_ok (s\<lparr>fw_len := n\<rparr>) = mem_ok s" "mem_ok (s\<lparr>fw_buf := b\<rparr>) = mem_ok s"
  "mem_ok (s\<lparr>total_len := n\<rparr>) = mem_ok s" "mem_ok (s\<lparr>total_buf := b\<rparr>) = mem_ok s"
  "mem_ok (s\<lparr>dl_fw_flag := d\<rparr>) = mem_ok s" "mem_ok (s\<lparr>patch_ent := e\<rparr>) = mem_ok s"
  "mem_ok (s\<lparr>chip_type := c\<rparr>) = mem_ok s" "mem_ok (s\<lparr>eversion := c\<rparr>) = mem_ok s"
  "mem_ok (s\<lparr>final_speed := v\<rparr>) = mem_ok s" "mem_ok (s\<lparr>link_estab_state := l\<rparr>) = mem_ok s"
  "mem_ok (s\<lparr>rx_index := n\<rparr>) = mem_ok s" "mem_ok (s\<lparr>ti_cflag := w\<rparr>) = mem_ok s"
  "mem_ok (s\<lparr>ti_speed := n\<rparr>) = mem_ok s" "mem_ok (s\<lparr>tcset_q := tq\<rparr>) = mem_ok s"
  "mem_ok (s\<lparr>sys_q := tq\<rparr>) = mem_ok s" "mem_ok (s\<lparr>serial_fd := n\<rparr>) = mem_ok s"
  "mem_ok (s\<lparr>epollfd := n\<rparr>) = mem_ok s" "mem_ok (s\<lparr>timerfd := n\<rparr>) = mem_ok s"
  by (simp_all add: mem_ok_def)

text \<open>The invariant between the steps, with a send sequence number of three bits.\<close>

definition cfg_inv :: "rtb_struct \<Rightarrow> bool" where
  "cfg_inv s \<longleftrightarrow> h5_inv s \<and> mem_ok s \<and> unat (msgq_txseq s) < 8"

lemma cfg_invD: "cfg_inv s \<Longrightarrow> h5_inv s \<and> mem_ok s"
  by (simp add: cfg_inv_def)

lemma seq_lt_8: "unat ((x :: u8) AND 7) < 8"
proof -
  have "x AND 7 \<le> 7" by (rule word_and_le1)
  then show ?thesis by (simp add: word_le_nat_alt)
qed

lemma identify_safe:
  assumes "h5_inv s" and "mem_ok s"
  shows "safe (rtb_identify fd HCI_UART_3WIRE s) (\<lambda>(j, s'). j = Inr False \<and> cfg_inv s')"
proof -
  have ev: "safe (rbind (rtb_read_eversion fd s) (\<lambda>s. Ret (Inr False, s))) (\<lambda>(j, s'). j = Inr False \<and> cfg_inv s')"
    if "h5_inv s" "mem_ok s" for s
    by (rule safe_bind [OF read_cmds_ok(2) [OF that]]) (auto simp: cfg_inv_def link_env_def seq_lt_8)
  show ?thesis
    unfolding rtb_identify_def
    by (auto intro!: safe_bind [OF read_cmds_ok(3) [OF assms]] ev)
qed

lemma choose_safe:
  assumes "cfg_inv s"
  shows "safe (rtb_choose_patch fd s) (\<lambda>s'. cfg_inv s' \<and>
    (\<exists>e \<in> set (patch_table @ h4_patch_table). patch_ent s' = Some e))"
proof -
  have type: "safe (if lmp_subver s \<in> {ROM_LMP_8761a, ROM_LMP_8703b, ROM_LMP_8852a}
      then rtb_read_chip_type fd s else Ret s) cfg_inv"
    using assms safe_weaken [OF read_cmds_ok(1)]
    by (auto simp: cfg_inv_def link_env_def seq_lt_8 intro!: safe_weaken [OF read_cmds_ok(1)])
  have ent: "safe (rbind (get_patch_entry t) (\<lambda>ent. Ret (t\<lparr>patch_ent := Some ent\<rparr>)))
      (\<lambda>s'. cfg_inv s' \<and> (\<exists>e \<in> set (patch_table @ h4_patch_table). patch_ent s' = Some e))"
    if "cfg_inv t" for t
    using get_patch_entry_mem [of t] that by (auto simp: cfg_inv_def)
  show ?thesis
    unfolding rtb_choose_patch_def Let_def
    by (rule safe_bind [OF type], rule ent) (simp add: cfg_inv_def)
qed

lemma load_fw_safe:
  assumes "patch_ent s = Some ent" and "fw_file_ok fs (patch_file ent)" and "cfg_inv s"
    and "config_len s = int (length c)" and "c \<noteq> [] \<Longrightarrow> config_buf s = Some c"
  shows "safe (rtb_load_fw fs fd prot s) (\<lambda>(ok, s'). cfg_inv s' \<and> patch_ent s' = Some ent \<and>
    (ok \<longrightarrow> (\<exists>b. total_buf s' = Some b \<and> total_len s' = int (length b))))"
proof -
  have m: "mem_ok s" using assms(3) by (simp add: cfg_inv_def)
  show ?thesis
    unfolding rtb_load_fw_def
  proof (rule safe_bind [OF read_firmware_safe [OF assms(1,2) m]], goal_cases)
    case (1 z)
    obtain fw n t where zs: "z = (fw, n, t)" by (cases z)
    from 1 zs obtain q where t: "t = s\<lparr>malloc_q := q\<rparr>" "mem_ok t" by auto
    have i: "cfg_inv t" using assms(3) t by (simp add: cfg_inv_def)
    from 1 zs consider "fw = None" "n = None" | ver ps rs where "fw = Some (fw_image ver ps rs)"
      "fw_ok ver ps rs" "unat (ext_project rs) < 35" "n = Some (int (length (fw_image ver ps rs)))"
      by auto
    then show ?case
    proof cases
      case 1
      then show ?thesis using i assms(1) t(1) by (auto simp: zs Let_def cfg_inv_def)
    next
      case 2
      let ?u = "t\<lparr>fw_len := int (length (fw_image ver ps rs)), fw_buf := Some (fw_image ver ps rs)\<rparr>"
      have "safe (rtb_get_final_patch fd prot ?u) (\<lambda>(b, n, s').
          (\<exists>d q. s' = ?u\<lparr>dl_fw_flag := d, malloc_q := q\<rparr>) \<and> mem_ok s' \<and>
          (\<forall>b'. b = Some b' \<longrightarrow> n = int (length b') \<and> 0 < n))"
        by (rule final_patch_safe [OF 2(2), where c = c]) (use 2 assms t in auto)
      then show ?thesis
        unfolding zs 2 prod.case option.case Let_def
        using i assms(1) t(1)
        by (cases "rtb_get_final_patch fd prot ?u") (auto simp: cfg_inv_def mem_ok_def)
    qed
  qed
qed

lemma load_safe:
  assumes "files_ok fs" and "patch_ent s = Some ent" and "ent \<in> set (patch_table @ h4_patch_table)"
    and "cfg_inv s"
  shows "safe (rtb_load fs fd prot s) (\<lambda>(ok, s'). cfg_inv s' \<and> patch_ent s' = Some ent \<and>
    (ok \<longrightarrow> (\<exists>b. total_buf s' = Some b \<and> total_len s' = int (length b))))"
proof -
  have f: "cfg_file_ok fs (config_file ent) (pi_chip_type ent)" "fw_file_ok fs (patch_file ent)"
    using assms(1,3) by (auto simp: files_ok_def list_all_iff)
  have m: "mem_ok s" using assms(4) by (simp add: cfg_inv_def)
  show ?thesis
    unfolding rtb_load_def assms(2) option.case
  proof (rule safe_bind [OF read_config_safe [OF f(1) m]], goal_cases)
    case (1 y)
    obtain c n t where ys: "y = (c, n, t)" by (cases y)
    let ?u = "t\<lparr>config_len := n, config_buf := c\<rparr>"
    have u: "cfg_inv ?u" "patch_ent ?u = Some ent" using 1 assms(2,4) by (auto simp: ys cfg_inv_def)
    define c' where "c' = (case c of None \<Rightarrow> [] | Some b \<Rightarrow> b)"
    have len: "config_len ?u = int (length c')" "c' \<noteq> [] \<Longrightarrow> config_buf ?u = Some c'"
      using 1 by (auto simp: ys c'_def split: option.splits)
    have "(if c = None then ?u\<lparr>config_len := 0\<rparr> else ?u) = ?u"
      using 1 by (auto simp: ys)
    then show ?case
      unfolding ys prod.case Let_def using load_fw_safe [OF u(2) f(2) u(1) len] by simp
  qed
qed

text \<open>What is ready for the download.\<close>

definition loaded :: "rtb_struct \<Rightarrow> bool" where
  "loaded s \<longleftrightarrow> (\<exists>b. total_buf s = Some b \<and> total_len s = int (length b) \<and> total_len s \<le> 65520 * 252)"

lemma max_patch_bound: "max_patch_size chip \<le> 65520 * 252"
  by (simp add: max_patch_size_def)

lemma tcsetattr_shape: "\<exists>q. snd (do_tcsetattr s) = s\<lparr>tcset_q := q\<rparr>"
proof (cases "tcset_q s")
  case Nil
  then have "snd (do_tcsetattr s) = s\<lparr>tcset_q := []\<rparr>" by (cases s) (simp add: do_tcsetattr_def)
  then show ?thesis by blast
qed (auto simp: do_tcsetattr_def)

lemma check_safe:
  assumes "cfg_inv s" and "patch_ent s = Some ent"
    and "total_buf s = Some b" and "total_len s = int (length b)"
  shows "safe (rtb_check_patch s) (\<lambda>(ok, s'). cfg_inv s' \<and> (ok \<longrightarrow> loaded s'))"
proof (cases "total_len s > max_patch_size (pi_chip_type ent)")
  case False
  then have l: "loaded s" using assms(3,4) max_patch_bound [of "pi_chip_type ent"] by (auto simp: loaded_def)
  have tc: "cfg_inv s' \<and> loaded s'" if "do_tcsetattr (s\<lparr>ti_cflag := w\<rparr>) = (r, s')" for w r s'
    using tcsetattr_shape [of "s\<lparr>ti_cflag := w\<rparr>"] l assms(1) that
    by (auto simp: cfg_inv_def loaded_def)
  show ?thesis
    using l assms(1,2) by (auto simp: rtb_check_patch_def Let_def dest: tc split: prod.splits)
qed (use assms in \<open>simp add: rtb_check_patch_def\<close>)

lemma set_speed_shape: "\<exists>q. snd (set_speed v s) = s\<lparr>ti_speed := uart_rate v, tcset_q := q\<rparr>"
  using tcsetattr_shape [of "s\<lparr>ti_speed := uart_rate v\<rparr>"]
  by (auto simp: set_speed_def split: prod.splits)

text \<open>
  The change of the speed: the vendor code and the speed of the line after success.
\<close>

definition speed_agrees :: "int \<Rightarrow> rtb_struct \<Rightarrow> rtb_struct \<Rightarrow> bool" where
  "speed_agrees speed s s' \<longleftrightarrow>
     (if vendor_baud s = 0
      then vendor_baud s' = std_speed_to_vendor speed \<and> ti_speed s' = ti_speed s
      else vendor_baud s' = vendor_baud s \<and>
        ti_speed s' = (if vendor_speed_to_std (vendor_baud s) = 115200 then ti_speed s
          else sint (vendor_speed_to_std (vendor_baud s))))"

lemma std_rates: "uart_rate (sint (vendor_speed_to_std v)) = sint (vendor_speed_to_std v)"
    "vendor_speed_to_std v \<noteq> 0"
  by (auto simp: vendor_speed_to_std_def baudrates_def uart_rate_def)

lemma change_baud_safe:
  assumes "cfg_inv s"
  shows "safe (rtb_change_baud fd HCI_UART_3WIRE speed s) (\<lambda>(ok, s').
     cfg_inv s' \<and> total_buf s' = total_buf s \<and> total_len s' = total_len s \<and>
     (ok \<longrightarrow> speed_agrees speed s s'))"
proof -
  let ?t = "s\<lparr>final_speed := vendor_speed_to_std (vendor_baud s)\<rparr>"
  have t: "h5_inv ?t" "mem_ok ?t" using assms by (simp_all add: cfg_inv_def)
  have cmd: "safe (rbind (h5_vendor_change_speed fd (vendor_baud s) ?t) (\<lambda>(_, s).
      let final = (if final_speed s \<noteq> 0 then sint (final_speed s) else speed)
      in case set_speed final s of (r, s) \<Rightarrow> Ret (0 \<le> r, s)))
    (\<lambda>(ok, s'). cfg_inv s' \<and> total_buf s' = total_buf s \<and> total_len s' = total_len s \<and>
       (ok \<longrightarrow> vendor_baud s' = vendor_baud s \<and> ti_speed s' = sint (vendor_speed_to_std (vendor_baud s))))"
  proof (rule safe_bind [OF change_speed_ok [OF t]], goal_cases)
    case (1 y)
    obtain r u where ys: "y = (r, u)" by (cases y)
    have u: "cfg_inv u" "final_speed u = vendor_speed_to_std (vendor_baud s)"
      "vendor_baud u = vendor_baud s" "total_buf u = total_buf s" "total_len u = total_len s"
      using 1 by (auto simp: ys cfg_inv_def link_env_def seq_lt_8)
    obtain r' q where "set_speed (sint (vendor_speed_to_std (vendor_baud s))) u
        = (r', u\<lparr>ti_speed := sint (vendor_speed_to_std (vendor_baud s)), tcset_q := q\<rparr>)"
      using set_speed_shape [of "sint (vendor_speed_to_std (vendor_baud s))" u] std_rates(1)
      by (metis surjective_pairing)
    then show ?case
      using u std_rates(2) [of "vendor_baud s"] by (simp add: ys cfg_inv_def)
  qed
  show ?thesis
    using assms safe_weaken [OF cmd]
    by (auto simp: rtb_change_baud_def Let_def speed_agrees_def cfg_inv_def intro!: safe_weaken [OF cmd])
qed

lemma start_download_safe:
  assumes "cfg_inv s" and "loaded s"
  shows "safe (rtb_start_download fd HCI_UART_3WIRE s) (\<lambda>(r, s'). h5_inv s' \<and> mem_ok s')"
proof -
  let ?s = "s\<lparr>link_estab_state := H5_PATCH, rx_index := -1\<rparr>"
  obtain b where b: "total_buf s = Some b" "total_len s = int (length b)" "total_len s \<le> 65520 * 252"
    using assms(2) by (auto simp: loaded_def)
  have "safe (rtb_download_fwc fd b (total_len s) HCI_UART_3WIRE ?s) (\<lambda>(r, s'). h5_inv s' \<and> mem_ok s')"
    if "0 < total_len s"
    by (rule download_safe) (use assms(1) b that in \<open>simp_all add: cfg_inv_def\<close>)
  then show ?thesis
    using assms(1) b by (auto simp: rtb_start_download_def Let_def cfg_inv_def intro!: safe_bind)
qed

lemma speed_download_safe:
  assumes "cfg_inv s" and "loaded s"
  shows "safe (rtb_speed_download fd HCI_UART_3WIRE speed s) (\<lambda>(r, s'). h5_inv s' \<and> mem_ok s')"
  unfolding rtb_speed_download_def
proof (rule safe_bind [OF change_baud_safe [OF assms(1)]], goal_cases)
  case (1 y)
  obtain ok u where ys: "y = (ok, u)" by (cases y)
  have u: "cfg_inv u" "loaded u" using 1 assms(2) by (auto simp: ys loaded_def)
  show ?case
    using start_download_safe [OF u] u(1) by (auto simp: ys cfg_inv_def)
qed

lemma config_safe:
  assumes "files_ok fs" and "h5_inv s" and "mem_ok s"
  shows "safe (rtb_config fs fd HCI_UART_3WIRE speed s) (\<lambda>(r, s'). h5_inv s' \<and> mem_ok s')"
proof -
  have s: "h5_inv (s\<lparr>proto := HCI_UART_3WIRE\<rparr>)" "mem_ok (s\<lparr>proto := HCI_UART_3WIRE\<rparr>)"
    using assms by simp_all
  have check: "safe (rbind (rtb_check_patch u) (\<lambda>(ok, s).
      if \<not> ok then Ret (-1, s) else rtb_speed_download fd HCI_UART_3WIRE speed s))
    (\<lambda>(r, s'). h5_inv s' \<and> mem_ok s')"
    if "cfg_inv u" "patch_ent u = Some e" "total_buf u = Some b" "total_len u = int (length b)" for u e b
    by (rule safe_bind [OF check_safe [OF that]])
      (auto split: if_splits intro!: speed_download_safe dest: cfg_invD)
  have load: "safe (rbind (rtb_load fs fd HCI_UART_3WIRE u) (\<lambda>(ok, s).
      if \<not> ok then Ret (-1, s) else
      rbind (rtb_check_patch s) (\<lambda>(ok, s).
      if \<not> ok then Ret (-1, s) else rtb_speed_download fd HCI_UART_3WIRE speed s)))
    (\<lambda>(r, s'). h5_inv s' \<and> mem_ok s')"
    if "cfg_inv u" "e \<in> set (patch_table @ h4_patch_table)" "patch_ent u = Some e" for u e
    by (rule safe_bind [OF load_safe [OF assms(1) that(3,2,1)]])
      (auto split: if_splits intro!: check dest: cfg_invD)
  show ?thesis
    unfolding rtb_config_def
    by (rule safe_bind [OF identify_safe [OF s]])
      (auto intro!: safe_bind [OF choose_safe] load)
qed

lemma sys_shape: "\<exists>q. snd (do_sys d s) = s\<lparr>sys_q := q\<rparr>"
proof (cases "sys_q s")
  case Nil
  then have "snd (do_sys d s) = s\<lparr>sys_q := []\<rparr>" by (cases s) (simp add: do_sys_def)
  then show ?thesis by blast
qed (auto simp: do_sys_def)

lemma sys_inv: "do_sys d s = (r, s') \<Longrightarrow> h5_inv s' = h5_inv s \<and> mem_ok s' = mem_ok s"
  using sys_shape [of d s] by auto

lemma zero_inv: "h5_inv (rtb_zero s)" "mem_ok (rtb_zero s) = mem_ok s"
  by (simp_all add: rtb_zero_def h5_inv_def rx_idle_def mem_ok_def)

lemma init_safe:
  assumes "files_ok fs" and "mem_ok s"
  shows "safe (rtb_init fs fd HCI_UART_3WIRE speed s) (\<lambda>(r, s'). h5_inv s' \<and> mem_ok s')"
proof -
  have z: "h5_inv (rtb_zero s)" "mem_ok (rtb_zero s)" using zero_inv assms(2) by auto
  have fin: "safe (rbind (rtb_config fs fd HCI_UART_3WIRE speed t) (\<lambda>(result, s).
      case do_sys 0 s of (_, s) \<Rightarrow> case do_sys 0 s of (_, s) \<Rightarrow> case do_sys 0 s of (_, s) \<Rightarrow>
        Ret (result, s\<lparr>timerfd := -1\<rparr>))) (\<lambda>(r, s'). h5_inv s' \<and> mem_ok s')"
    if "h5_inv t" "mem_ok t" for t
    by (rule safe_bind [OF config_safe [OF assms(1) that]]) (auto split: prod.splits dest!: sys_inv)
  have h5: "safe (rbind (rtb_init_h5 fd t) (\<lambda>(r, s). if r < 0 then Ret (-1, s) else
        rbind (rtb_config fs fd HCI_UART_3WIRE speed s) (\<lambda>(result, s).
        case do_sys 0 s of (_, s) \<Rightarrow> case do_sys 0 s of (_, s) \<Rightarrow> case do_sys 0 s of (_, s) \<Rightarrow>
          Ret (result, s\<lparr>timerfd := -1\<rparr>)))) (\<lambda>(r, s'). h5_inv s' \<and> mem_ok s')"
    if "h5_inv t" "mem_ok t" for t
    by (rule safe_bind [OF init_h5_safe [OF that]]) (auto split: if_splits intro!: fin)
  show ?thesis
    unfolding rtb_init_def Let_def
    using z by (auto split: prod.splits if_splits dest!: sys_inv intro!: h5)
qed

section \<open>Properties\<close>




section \<open>Examples\<close>

text \<open>A disk with the files of an RTL8822BS; the empty disk has none.\<close>

definition demo_ent :: patch_info where
  "demo_ent = patch_entry RTL_FW_MATCH_HCI_REV CHIP_8822BS ROM_LMP_8822b ROM_LMP_8822b 0 0x000b
     ''rtl8822b_fw'' ''rtl8822b_config'' ''RTL8822BS''"

definition demo_disk :: file_system where
  "demo_disk = demo_fs(
     BT_CONFIG_DIRECTORY @ ''rtl8822b_config'' \<mapsto>
       \<lparr>f_size = length (cfg_image demo_items), f_open = True, f_data = Some (cfg_image demo_items)\<rparr>,
     FIRMWARE_DIRECTORY @ ''rtl8822b_fw'' \<mapsto>
       \<lparr>f_size = length (fw_image [1, 2, 3, 4] demo_patches (demo_ext 8)), f_open = True,
        f_data = Some (fw_image [1, 2, 3, 4] demo_patches (demo_ext 8))\<rparr>)"

lemma demo_disk_files:
  "cfg_files demo_disk ''rtl8822b_config'' CHIP_8822BS demo_items demo_extra [1, 2, 3, 4, 5, 6]"
  by (simp add: cfg_files_def demo_disk_def demo_fs_def demo_defs FIRMWARE_DIRECTORY_def item_ok_def
      speed_ok_def covers_def mac_item_def get_mac_offset_def items_text_def item_text_def
      item_bytes_def hex2_def merge_spec_def bdaddr_lap_def)


text \<open>The same configuration and container without the extra configuration and the address.\<close>

definition plain_disk :: file_system where
  "plain_disk = [
     BT_CONFIG_DIRECTORY @ ''rtl8822b_config'' \<mapsto>
       \<lparr>f_size = length (cfg_image demo_items), f_open = True, f_data = Some (cfg_image demo_items)\<rparr>,
     FIRMWARE_DIRECTORY @ ''rtl8822b_fw'' \<mapsto>
       \<lparr>f_size = length (fw_image [1, 2, 3, 4] demo_patches (demo_ext 8)), f_open = True,
        f_data = Some (fw_image [1, 2, 3, 4] demo_patches (demo_ext 8))\<rparr>]"

lemma demo_items_ok: "list_all item_ok demo_items" "list_all speed_ok demo_items"
    "length (cfg_bytes demo_items) < 65530"
  by (simp_all add: demo_items_def item_ok_def speed_ok_def item_bytes_def)

lemma plain_disk_lookup:
  "nm \<noteq> ''rtl8822b_fw'' \<Longrightarrow> plain_disk (BT_CONFIG_DIRECTORY @ nm) =
     (if nm = ''rtl8822b_config'' then Some \<lparr>f_size = length (cfg_image demo_items), f_open = True,
        f_data = Some (cfg_image demo_items)\<rparr> else None)"
  "nm \<noteq> ''rtl8822b_config'' \<Longrightarrow> plain_disk (FIRMWARE_DIRECTORY @ nm) =
     (if nm = ''rtl8822b_fw'' then Some \<lparr>f_size = length (fw_image [1, 2, 3, 4] demo_patches (demo_ext 8)),
        f_open = True, f_data = Some (fw_image [1, 2, 3, 4] demo_patches (demo_ext 8))\<rparr> else None)"
  "plain_disk EXTRA_CONFIG_FILE = None" "plain_disk BT_ADDR_FILE = None"
  by (simp_all add: plain_disk_def BT_CONFIG_DIRECTORY_def FIRMWARE_DIRECTORY_def EXTRA_CONFIG_FILE_def
      BT_ADDR_FILE_def)

lemma plain_disk_ok: "files_ok plain_disk"
proof -
  have "cfg_file_ok plain_disk nm chip" if "nm \<noteq> ''rtl8822b_fw''" for nm chip
    unfolding cfg_file_ok_def plain_disk_lookup(1) [OF that] plain_disk_lookup(3,4)
    using demo_items_ok by auto
  moreover have "fw_file_ok plain_disk nm" if "nm \<noteq> ''rtl8822b_config''" for nm
    unfolding fw_file_ok_def plain_disk_lookup(2) [OF that]
    using demo_fw_ok [of 8] demo_project [of 8]
    by (cases "nm = ''rtl8822b_fw''") (simp, rule exI [of _ "[1, 2, 3, 4]"], rule exI [of _ demo_patches],
      rule exI [of _ "demo_ext 8"], simp_all)
  moreover have "list_all (\<lambda>e. config_file e \<noteq> ''rtl8822b_fw'' \<and> patch_file e \<noteq> ''rtl8822b_config'')
      (patch_table @ h4_patch_table)"
    by (simp add: patch_table_def h4_patch_table_def patch_entry_def)
  ultimately show ?thesis by (simp add: files_ok_def list_all_iff)
qed



end
