(* ===== verification/C_Lib.thy ===== *)
theory C_Lib
  imports Prelude
begin

text \<open>
  What the command-line programs use of the C library: \<open>strtoul\<close> with base 0, \<open>atoi\<close>, the
  hexadecimal conversions of \<open>printf\<close>, and \<open>getopt\<close>. Strings are those of the command line.
\<close>

section \<open>Characters\<close>

definition c_space :: "char \<Rightarrow> bool" where
  "c_space c \<longleftrightarrow> of_char c \<in> {32, 9, 10, 11, 12, 13 :: nat}"

text \<open>The value of a digit, in any base up to 16.\<close>

definition c_digit :: "char \<Rightarrow> nat option" where
  "c_digit c =
     (let n = of_char c :: nat in
      if 48 \<le> n \<and> n \<le> 57 then Some (n - 48)
      else if 65 \<le> n \<and> n \<le> 70 then Some (n - 55)
      else if 97 \<le> n \<and> n \<le> 102 then Some (n - 87)
      else None)"

definition is_digit :: "nat \<Rightarrow> char \<Rightarrow> bool" where
  "is_digit base c \<longleftrightarrow> (case c_digit c of None \<Rightarrow> False | Some d \<Rightarrow> d < base)"

fun digits_val :: "nat \<Rightarrow> nat \<Rightarrow> string \<Rightarrow> nat" where
  "digits_val base acc [] = acc"
| "digits_val base acc (c # cs) =
     digits_val base (base * acc + (case c_digit c of None \<Rightarrow> 0 | Some d \<Rightarrow> d)) cs"

section \<open>Numbers\<close>

text \<open>A sign in front: whether it is a minus, and the rest.\<close>

definition c_sign :: "string \<Rightarrow> bool \<times> string" where
  "c_sign s =
     (case s of c # r \<Rightarrow> if c = CHR ''-'' then (True, r) else if c = CHR ''+'' then (False, r) else (False, s)
      | [] \<Rightarrow> (False, s))"

text \<open>The base that base 0 stands for, and the digits behind its prefix.\<close>

definition c_base :: "string \<Rightarrow> nat \<times> string" where
  "c_base s =
     (case s of
        z # x # d # r \<Rightarrow>
          if z = CHR ''0'' \<and> (x = CHR ''x'' \<or> x = CHR ''X'') \<and> is_digit 16 d then (16, d # r)
          else if z = CHR ''0'' then (8, s) else (10, s)
      | z # _ \<Rightarrow> if z = CHR ''0'' then (8, s) else (10, s)
      | [] \<Rightarrow> (10, s))"

text \<open>
  \<open>strtoul (str, &endptr, 0)\<close> with a \<open>long\<close> of 64 bits: the value, the largest one when it does not
  fit, and the string \<open>endptr\<close> is left at.
\<close>

definition strtoul0 :: "string \<Rightarrow> u64 \<times> string" where
  "strtoul0 str =
     (let (neg, s) = c_sign (dropWhile c_space str);
          (base, s) = c_base s;
          ds = takeWhile (is_digit base) s;
          v = digits_val base 0 ds
      in if ds = [] then (0, str)
         else (if v \<ge> 2 ^ 64 then - 1 else if neg then - of_nat v else of_nat v,
               dropWhile (is_digit base) s))"

text \<open>\<open>atoi\<close>, which glibc takes from the low bits of a saturating \<open>strtol\<close>.\<close>

definition atoi :: "string \<Rightarrow> int" where
  "atoi str =
     (let (neg, s) = c_sign (dropWhile c_space str);
          v = int (digits_val 10 0 (takeWhile (is_digit 10) s));
          l = (if neg then max (- (2 ^ 63)) (- v) else min (2 ^ 63 - 1) v)
      in sint (of_int l :: u32))"

text \<open>\<open>%0nx\<close>: lower-case hexadecimal digits, at least \<open>n\<close> of them.\<close>

definition hex_char :: "nat \<Rightarrow> char" where
  "hex_char d = (if d < 10 then char_of (48 + d) else char_of (87 + d))"

fun hex_str :: "nat \<Rightarrow> string" where
  "hex_str v = (if v < 16 then [hex_char v] else hex_str (v div 16) @ [hex_char (v mod 16)])"

declare hex_str.simps [simp del]

definition hexw :: "nat \<Rightarrow> nat \<Rightarrow> string" where
  "hexw n v = (let ds = hex_str v in replicate (n - length ds) (CHR ''0'') @ ds)"

section \<open>Options\<close>

text \<open>
  \<open>getopt\<close> called until it returns -1: the options with their arguments in order, and the
  arguments left from \<open>optind\<close> on. \<open>kind c\<close> is whether the option takes an argument, or
  \<open>None\<close> for an unknown one, which is reported as a question mark like a missing argument.
  The arguments that are no options are moved behind the options, keeping their order.
\<close>

type_synonym opt_list = "(char \<times> string) list"

text \<open>One argument that starts with a dash: its options, and whether the last one wants the next argument.\<close>

fun opt_cluster :: "(char \<Rightarrow> bool option) \<Rightarrow> string \<Rightarrow> opt_list \<times> char option" where
  "opt_cluster kind [] = ([], None)"
| "opt_cluster kind (c # cs) =
     (case kind c of
        None \<Rightarrow> (case opt_cluster kind cs of (os, w) \<Rightarrow> ((CHR ''?'', []) # os, w))
      | Some False \<Rightarrow> (case opt_cluster kind cs of (os, w) \<Rightarrow> ((c, []) # os, w))
      | Some True \<Rightarrow> if cs = [] then ([], Some c) else ([(c, cs)], None))"

fun getopt :: "(char \<Rightarrow> bool option) \<Rightarrow> string list \<Rightarrow> opt_list \<times> string list" where
  "getopt kind [] = ([], [])"
| "getopt kind (a # as) =
     (if a = ''--'' then ([], as)
      else if a = [] \<or> hd a \<noteq> CHR ''-'' \<or> a = ''-'' then
        (case getopt kind as of (os, rest) \<Rightarrow> (os, a # rest))
      else
        (case opt_cluster kind (tl a) of
           (os, None) \<Rightarrow> (case getopt kind as of (os', rest) \<Rightarrow> (os @ os', rest))
         | (os, Some c) \<Rightarrow>
             (case as of
                [] \<Rightarrow> (os @ [(CHR ''?'', [])], [])
              | v # as' \<Rightarrow> (case getopt kind as' of (os', rest) \<Rightarrow> (os @ (c, v) # os', rest)))))"

text \<open>The function \<open>kind\<close> of an option string such as \<open>''hv124rwl:f:''\<close>.\<close>

fun opt_kind :: "string \<Rightarrow> char \<Rightarrow> bool option" where
  "opt_kind [] c = None"
| "opt_kind (o1 # os) c =
     (if o1 \<noteq> CHR '':'' \<and> o1 = c then Some (os \<noteq> [] \<and> hd os = CHR '':'') else opt_kind os c)"

section \<open>Facts\<close>

lemma getopt_plain:
  assumes "list_all (\<lambda>a. a = [] \<or> hd a \<noteq> CHR ''-'') as"
  shows "getopt kind as = ([], as)"
  using assms by (induction as) auto

end
