(* ===== verification/Hciattach.thy ===== *)
theory Hciattach
  imports Rtb_Config C_Lib
begin

text \<open>
  The program rtk_hciattach around the Realtek code: hciattach.c with its table of devices, the
  command line, the set-up of the serial port, the detached wait for an error of the line and the
  recovery from it. The expiry of \<open>alarm\<close>, which ends the program at any point, and the messages
  are left out.
\<close>

section \<open>Devices\<close>

text \<open>
  A \<open>struct uart_t\<close>; \<open>u_init\<close> tells whether its two function pointers are those of the Realtek
  code or null.
\<close>

record uart_t =
  u_type :: string
  u_m_id :: int
  u_p_id :: int
  u_proto :: int
  u_init_speed :: int
  u_speed :: int
  u_flags :: u32
  u_pm :: int
  u_bdaddr :: "string option"
  u_init :: bool

definition FLOW_CTL :: u32 where "FLOW_CTL = 1"
definition ENABLE_PM :: int where "ENABLE_PM = 1"
definition DISABLE_PM :: int where "DISABLE_PM = 0"

definition uart_entry :: "string \<Rightarrow> int \<Rightarrow> u32 \<Rightarrow> bool \<Rightarrow> uart_t" where
  "uart_entry ty prot flags i =
     \<lparr>u_type = ty, u_m_id = 0, u_p_id = 0, u_proto = prot, u_init_speed = 115200, u_speed = 115200,
      u_flags = flags, u_pm = DISABLE_PM, u_bdaddr = None, u_init = i\<rparr>"

definition uart :: "uart_t list" where
  "uart = [uart_entry ''any'' HCI_UART_H4 FLOW_CTL False,
           uart_entry ''rtk_h4'' HCI_UART_H4 0 True,
           uart_entry ''rtk_h5'' HCI_UART_3WIRE 0 True]"

fun uart_find :: "(uart_t \<Rightarrow> bool) \<Rightarrow> uart_t list \<Rightarrow> uart_t option" where
  "uart_find P [] = None"
| "uart_find P (u # us) = (if P u then Some u else uart_find P us)"

definition get_by_id :: "int \<Rightarrow> int \<Rightarrow> uart_t option" where
  "get_by_id m p = uart_find (\<lambda>u. u_m_id u = m \<and> u_p_id u = p) uart"

definition get_by_type :: "string \<Rightarrow> uart_t option" where
  "get_by_type ty = uart_find (\<lambda>u. u_type u = ty) uart"

section \<open>The command line\<close>

record hci_opts =
  h_detach :: bool
  h_printpid :: bool
  h_raw :: bool
  h_to :: int
  h_init_speed :: int
  h_send_break :: bool

definition hci_default :: hci_opts where
  "hci_default = \<lparr>h_detach = True, h_printpid = False, h_raw = False, h_to = 10, h_init_speed = 0,
     h_send_break = False\<rparr>"

text \<open>The options; \<open>-l\<close> lists the devices and ends the program with status 0.\<close>

fun hci_options :: "opt_list \<Rightarrow> hci_opts \<Rightarrow> hci_opts res" where
  "hci_options [] h = Ret h"
| "hci_options ((c, a) # os) h =
     (if c = CHR ''b'' then hci_options os (h\<lparr>h_send_break := True\<rparr>)
      else if c = CHR ''n'' then hci_options os (h\<lparr>h_detach := False\<rparr>)
      else if c = CHR ''p'' then hci_options os (h\<lparr>h_printpid := True\<rparr>)
      else if c = CHR ''t'' then hci_options os (h\<lparr>h_to := atoi a\<rparr>)
      else if c = CHR ''s'' then hci_options os (h\<lparr>h_init_speed := atoi a\<rparr>)
      else if c = CHR ''l'' then Exit 0
      else if c = CHR ''r'' then hci_options os (h\<lparr>h_raw := True\<rparr>)
      else Exit 1)"

text \<open>
  A conversion \<open>%x\<close> of \<open>sscanf\<close>: the value and the rest, or \<open>None\<close> when it fails. A prefix \<open>0x\<close>
  without a digit behind it is a failure.
\<close>

definition scan_hex :: "string \<Rightarrow> (int \<times> string) option" where
  "scan_hex str =
     (let (neg, s) = c_sign (dropWhile c_space str);
          pre = (length s \<ge> 2 \<and> s ! 0 = CHR ''0'' \<and> s ! 1 \<in> {CHR ''x'', CHR ''X''});
          s = (if pre then drop 2 s else s);
          ds = takeWhile (is_digit 16) s;
          v = digits_val 16 0 ds;
          w = (if v \<ge> 2 ^ 64 then - 1 else if neg then - of_nat v else of_nat v :: u64)
      in if ds = [] then None
         else Some (sint (ucast w :: u32), dropWhile (is_digit 16) s))"

text \<open>\<open>sscanf (s, "%x,%x", &m_id, &p_id)\<close>: a variable that is not set is read afterwards.\<close>

definition scan_ids :: "string \<Rightarrow> (int \<times> int) res" where
  "scan_ids s =
     (case scan_hex s of None \<Rightarrow> Fault | Some (m, r) \<Rightarrow>
      case r of [] \<Rightarrow> Fault | c # r \<Rightarrow>
      if c \<noteq> CHR '','' then Fault else
      case scan_hex r of None \<Rightarrow> Fault | Some (p, _) \<Rightarrow> Ret (m, p))"

text \<open>The arguments in order: \<open>n\<close> counts them.\<close>

definition PATH_MAX :: nat where "PATH_MAX = 4096"

definition hci_dev :: "string \<Rightarrow> string res" where
  "hci_dev opt =
     (let dev = (if CHR ''/'' \<notin> set opt then ''/dev/'' else []) @ opt
      in check (length dev < PATH_MAX) (Ret dev))"

definition hci_type :: "string \<Rightarrow> uart_t res" where
  "hci_type opt =
     rbind (if CHR '','' \<in> set opt then rbind (scan_ids opt) (\<lambda>(m, p). Ret (get_by_id m p))
            else Ret (get_by_type opt)) (\<lambda>u.
     case u of None \<Rightarrow> Exit 1 | Some u \<Rightarrow> Ret u)"

fun hci_tail :: "nat \<Rightarrow> string list \<Rightarrow> uart_t \<Rightarrow> uart_t" where
  "hci_tail n [] u = u"
| "hci_tail n (a # as) u =
     hci_tail (n + 1) as
       (if n = 2 then u\<lparr>u_speed := atoi a\<rparr>
        else if n = 3 then
          (if a = ''flow'' then u\<lparr>u_flags := u_flags u OR FLOW_CTL\<rparr>
           else u\<lparr>u_flags := u_flags u AND NOT FLOW_CTL\<rparr>)
        else if n = 4 then (if a = ''sleep'' then u\<lparr>u_pm := ENABLE_PM\<rparr> else u\<lparr>u_pm := DISABLE_PM\<rparr>)
        else if n = 5 then u\<lparr>u_bdaddr := Some a\<rparr>
        else u)"

definition hci_parse :: "string list \<Rightarrow> (hci_opts \<times> string \<times> uart_t) res" where
  "hci_parse argv =
     (case getopt (opt_kind ''bnpt:s:lr'') (tl argv) of (os, rest) \<Rightarrow>
      rbind (hci_options os hci_default) (\<lambda>h.
      case rest of
        d # ty # rest \<Rightarrow>
          rbind (hci_dev d) (\<lambda>dev.
          rbind (hci_type ty) (\<lambda>u. Ret (h, dev, hci_tail 2 rest u)))
      | _ \<Rightarrow> Exit 1))"

section \<open>The host\<close>

text \<open>
  What \<open>ppoll\<close> answers: a signal, and whether it was one that ends the program; another error;
  no event; or the events.
\<close>

datatype ppoll_ans = PpSignal bool | PpFail | PpNone | PpEvents u16

definition POLLERR :: u16 where "POLLERR = 0x0008"
definition POLLHUP :: u16 where "POLLHUP = 0x0010"

text \<open>
  The state of the Realtek code with the rest of the process: the answers of \<open>ppoll\<close>, whether
  the flag \<open>__io_canceled\<close> was set by the time the waiting loop is entered, the flag, the
  field \<open>revents\<close> once it is set, the line discipline and protocol of the port, the alarm, and
  what was written to the rfkill node.
\<close>

record host =
  rtk :: rtb_struct
  pp_q :: "ppoll_ans list"
  sig_q :: "bool list"
  io_canceled :: bool
  revents :: "u16 option"
  ldisc :: int
  hci_proto :: "int option"
  alarm_sec :: int
  rfkill_log :: "string list"

definition h_sys :: "int \<Rightarrow> host \<Rightarrow> int \<times> host" where
  "h_sys d h = (case do_sys d (rtk h) of (r, s) \<Rightarrow> (r, h\<lparr>rtk := s\<rparr>))"

definition N_TTY :: int where "N_TTY = 0"
definition N_HCI :: int where "N_HCI = 15"

text \<open>\<open>cfmakeraw\<close> on the control flags: eight bits without parity.\<close>

definition CS8 :: u32 where "CS8 = 0x30"
definition CLOCAL :: u32 where "CLOCAL = 0x800"

definition make_raw :: "u32 \<Rightarrow> u32" where
  "make_raw c = c AND NOT (CS8 OR PARENB) OR CS8"

section \<open>Setting up the port\<close>

definition realtek_init :: "file_system \<Rightarrow> int \<Rightarrow> uart_t \<Rightarrow> rtb_struct \<Rightarrow> (int \<times> rtb_struct) res" where
  "realtek_init fs fd u s = rtb_init fs fd (u_proto u) (u_speed u) s"

definition realtek_post :: "int \<Rightarrow> uart_t \<Rightarrow> int" where
  "realtek_post fd u = rtb_post fd (u_proto u)"

text \<open>An \<open>ioctl\<close> that sets something when it succeeds.\<close>

definition h_ioctl :: "(host \<Rightarrow> host) \<Rightarrow> host \<Rightarrow> bool \<times> host" where
  "h_ioctl f h = (case h_sys 0 h of (r, h) \<Rightarrow> if r < 0 then (False, h) else (True, f h))"

text \<open>
  \<open>init_uart\<close> up to the initial speed: the descriptor, or a negative result. The descriptor a
  successful \<open>open\<close> returns is 3 unless the script says otherwise.
\<close>

definition port_open :: "uart_t \<Rightarrow> host \<Rightarrow> int \<times> host" where
  "port_open u h =
     (case h_sys 3 h of (fd, h) \<Rightarrow>
      if fd < 0 then (-1, h) else
      case h_sys 0 h of (r, h) \<Rightarrow>
      if r < 0 then (-1, h) else
      let c = make_raw (ti_cflag (rtk h)) OR CLOCAL;
          c = (if u_flags u AND FLOW_CTL \<noteq> 0 then c OR CRTSCTS else c AND NOT CRTSCTS)
      in case do_tcsetattr ((rtk h)\<lparr>ti_cflag := c\<rparr>) of (r, s) \<Rightarrow>
         if r < 0 then (-1, h\<lparr>rtk := s\<rparr>) else
         case set_speed (u_init_speed u) s of (r, s) \<Rightarrow>
           if r < 0 then (-1, h\<lparr>rtk := s\<rparr>) else (fd, h\<lparr>rtk := s\<rparr>))"

text \<open>The rest of \<open>init_uart\<close>.\<close>

definition port_attach :: "int \<Rightarrow> uart_t \<Rightarrow> bool \<Rightarrow> host \<Rightarrow> int \<times> host" where
  "port_attach fd u raw h =
     (case h_ioctl (\<lambda>h. h\<lparr>ldisc := N_HCI\<rparr>) h of (ok, h) \<Rightarrow>
      if \<not> ok then (-1, h) else
      case (if raw then h_ioctl (\<lambda>h. h) h else (True, h)) of (ok, h) \<Rightarrow>
      if \<not> ok then (-1, h) else
      case h_ioctl (\<lambda>h. h\<lparr>hci_proto := Some (u_proto u)\<rparr>) h of (ok, h) \<Rightarrow>
      if \<not> ok then (-1, h)
      else if u_init u \<and> realtek_post fd u < 0 then (-1, h)
      else (fd, h))"

definition init_uart :: "file_system \<Rightarrow> uart_t \<Rightarrow> bool \<Rightarrow> bool \<Rightarrow> host \<Rightarrow> (int \<times> host) res" where
  "init_uart fs u send_break raw h =
     (case port_open u h of (fd, h) \<Rightarrow>
      if fd < 0 then Ret (-1, h) else
      rbind (if u_init u then realtek_init fs fd u (rtk h) else Ret (0, rtk h)) (\<lambda>(r, s).
      let h = h\<lparr>rtk := s\<rparr> in
      if r < 0 then Ret (-1, h) else Ret (port_attach fd u raw h)))"

section \<open>Waiting and recovering\<close>

text \<open>\<open>reset_bluetooth\<close>: each write has two bytes.\<close>

definition rfkill_write :: "string \<Rightarrow> host \<Rightarrow> bool \<times> host" where
  "rfkill_write st h =
     (case h_sys 2 h of (r, h) \<Rightarrow> if r \<noteq> 2 then (False, h) else (True, h\<lparr>rfkill_log := rfkill_log h @ [st]\<rparr>))"

definition reset_bluetooth :: "host \<Rightarrow> int \<times> host" where
  "reset_bluetooth h =
     (case h_sys 3 h of (fd, h) \<Rightarrow>
      if fd < 0 then (-1, h) else
      case rfkill_write ''0'' h of (ok, h) \<Rightarrow>
      if \<not> ok then (-1, h) else
      case rfkill_write ''1'' h of (ok, h) \<Rightarrow>
      if \<not> ok then (-1, h) else (0, h))"

text \<open>
  The waiting loop; an error of \<open>ppoll\<close> other than a signal ends it, with no events set.
\<close>

fun wait_events ::
  "ppoll_ans list \<Rightarrow> bool \<Rightarrow> u16 option \<Rightarrow> (ppoll_ans list \<times> bool \<times> u16 option) res" where
  "wait_events q True rv = Ret (q, True, rv)"
| "wait_events [] False rv = Blocked"
| "wait_events (PpSignal t # q) False rv = wait_events q t (Some 0)"
| "wait_events (PpFail # q) False rv = Ret (q, False, Some 0)"
| "wait_events (PpNone # q) False rv = wait_events q False (Some 0)"
| "wait_events (PpEvents v # q) False rv = (if v = 0 then wait_events q False (Some 0) else Ret (q, False, Some v))"

text \<open>Entering the loop, with the signals that arrived before.\<close>

definition wait_hup :: "host \<Rightarrow> host res" where
  "wait_hup h =
     (let (t, sq) = (case sig_q h of [] \<Rightarrow> (False, []) | t # sq \<Rightarrow> (t, sq)) in
      rbind (wait_events (pp_q h) (io_canceled h \<or> t) (revents h)) (\<lambda>(q, c, rv).
        Ret (h\<lparr>pp_q := q, sig_q := sq, io_canceled := c, revents := rv\<rparr>)))"

text \<open>
  From the label \<open>start\<close> to the wait: \<open>None\<close> is the return of the parent of the detached
  process, which is also taken when \<open>fork\<close> fails.
\<close>

definition hci_start :: "file_system \<Rightarrow> hci_opts \<Rightarrow> uart_t \<Rightarrow> host \<Rightarrow> (bool \<times> host) res" where
  "hci_start fs o1 u h =
     (let u = (if h_init_speed o1 \<noteq> 0 then u\<lparr>u_init_speed := h_init_speed o1\<rparr> else u);
          h = h\<lparr>alarm_sec := h_to o1\<rparr>
      in rbind (init_uart fs u (h_send_break o1) (h_raw o1) h) (\<lambda>(n, h).
         if n < 0 then Exit 1 else
         let h = h\<lparr>alarm_sec := 0\<rparr> in
         if h_detach o1 then (case h_sys 0 h of (pid, h) \<Rightarrow> Ret (pid = 0, h))
         else Ret (True, h)))"

text \<open>
  The whole run: \<open>goto start\<close> may be taken for ever, so the number of rounds is limited by the
  first argument, and \<open>None\<close> means that it was not enough.
\<close>

fun hci_run :: "nat \<Rightarrow> file_system \<Rightarrow> hci_opts \<Rightarrow> uart_t \<Rightarrow> host \<Rightarrow> (int \<times> host) res option" where
  "hci_run 0 fs o1 u h = None"
| "hci_run (Suc n) fs o1 u h =
     (case hci_start fs o1 u h of
        Ret (child, h) \<Rightarrow>
          (if \<not> child then Some (Ret (0, h)) else
           case wait_hup h of
             Ret h \<Rightarrow>
               (case h_ioctl (\<lambda>h. h\<lparr>ldisc := N_TTY\<rparr>) h of (ok, h) \<Rightarrow>
                if \<not> ok then Some (Exit 1) else
                case revents h of
                  None \<Rightarrow> Some Fault
                | Some v \<Rightarrow>
                    if v AND (POLLERR OR POLLHUP) \<noteq> 0
                    then (case reset_bluetooth h of (_, h) \<Rightarrow> hci_run n fs o1 u h)
                    else Some (Ret (0, h)))
           | Exit c \<Rightarrow> Some (Exit c) | Fault \<Rightarrow> Some Fault | Blocked \<Rightarrow> Some Blocked)
      | Exit c \<Rightarrow> Some (Exit c) | Fault \<Rightarrow> Some Fault | Blocked \<Rightarrow> Some Blocked)"

definition hci_main :: "nat \<Rightarrow> file_system \<Rightarrow> string list \<Rightarrow> host \<Rightarrow> (int \<times> host) res option" where
  "hci_main n fs argv h =
     (case hci_parse argv of
        Ret (o1, dev, u) \<Rightarrow> hci_run n fs o1 u h
      | Exit c \<Rightarrow> Some (Exit c) | Fault \<Rightarrow> Some Fault | Blocked \<Rightarrow> Some Blocked)"

section \<open>A port whose calls succeed\<close>

definition calm :: "rtb_struct \<Rightarrow> bool" where
  "calm s \<longleftrightarrow> sys_q s = [] \<and> tcset_q s = []"

lemma h_sys_calm [simp]: "calm (rtk h) \<Longrightarrow> h_sys d h = (d, h)"
  by (simp add: h_sys_def calm_def do_sys_def)

lemma h_ioctl_calm [simp]: "calm (rtk h) \<Longrightarrow> h_ioctl f h = (True, f h)"
  by (simp add: h_ioctl_def)

lemma reset_calm: "calm (rtk h) \<Longrightarrow> reset_bluetooth h = (0, h\<lparr>rfkill_log := rfkill_log h @ [''0'', ''1'']\<rparr>)"
  by (simp add: reset_bluetooth_def rfkill_write_def)

lemma port_open_calm:
  assumes "calm (rtk h)"
  obtains s where "port_open u h = (3, h\<lparr>rtk := s\<rparr>)" and "calm s"
proof
  let ?c = "make_raw (ti_cflag (rtk h)) OR CLOCAL"
  let ?s = "(rtk h)\<lparr>ti_cflag := (if u_flags u AND FLOW_CTL \<noteq> 0 then ?c OR CRTSCTS else ?c AND NOT CRTSCTS),
     ti_speed := uart_rate (u_init_speed u)\<rparr>"
  show "port_open u h = (3, h\<lparr>rtk := ?s\<rparr>)"
    using assms by (simp add: port_open_def set_speed_def do_tcsetattr_def calm_def Let_def)
  show "calm ?s" using assms by (simp add: calm_def)
qed

lemma start_calm:
  assumes "calm (rtk h)" and "\<not> u_init u"
  obtains s where "hci_start fs o1 u h = Ret (True, h\<lparr>rtk := s, ldisc := N_HCI,
     hci_proto := Some (u_proto u), alarm_sec := 0\<rparr>)" and "calm s"
proof -
  define v where "v = (if h_init_speed o1 \<noteq> 0 then u\<lparr>u_init_speed := h_init_speed o1\<rparr> else u)"
  have v: "\<not> u_init v" "u_proto v = u_proto u" using assms(2) by (auto simp: v_def)
  obtain s where s: "port_open v (h\<lparr>alarm_sec := h_to o1\<rparr>) = (3, h\<lparr>alarm_sec := h_to o1, rtk := s\<rparr>)" "calm s"
    using port_open_calm [of "h\<lparr>alarm_sec := h_to o1\<rparr>" v] assms(1) by auto
  have "init_uart fs v (h_send_break o1) (h_raw o1) (h\<lparr>alarm_sec := h_to o1\<rparr>) =
      Ret (3, h\<lparr>rtk := s, ldisc := N_HCI, hci_proto := Some (u_proto u), alarm_sec := h_to o1\<rparr>)"
    using s v by (simp add: init_uart_def port_attach_def)
  then have "hci_start fs o1 u h = Ret (True, h\<lparr>rtk := s, ldisc := N_HCI,
     hci_proto := Some (u_proto u), alarm_sec := 0\<rparr>)"
    using s(2) by (simp add: hci_start_def Let_def flip: v_def)
  then show ?thesis using s(2) by (rule that)
qed

text \<open>One round that ends with an error of the line, and one that ends with a signal.\<close>

lemma run_recovers:
  assumes "calm (rtk h)" and "\<not> u_init u" and "wait_events (pp_q h) (io_canceled h \<or> c) (revents h) = Ret (q, c', Some v)"
    and "sig_q h = [] \<and> \<not> c \<and> sq = [] \<or> sig_q h = c # sq" and "v AND (POLLERR OR POLLHUP) \<noteq> 0"
  obtains s where "hci_run (Suc n) fs o1 u h = hci_run n fs o1 u (h\<lparr>rtk := s,
     hci_proto := Some (u_proto u), alarm_sec := 0, pp_q := q, sig_q := sq, io_canceled := c',
     revents := Some v, ldisc := N_TTY, rfkill_log := rfkill_log h @ [''0'', ''1'']\<rparr>)" and "calm s"
proof -
  obtain s where s: "hci_start fs o1 u h = Ret (True, h\<lparr>rtk := s, ldisc := N_HCI,
     hci_proto := Some (u_proto u), alarm_sec := 0\<rparr>)" "calm s"
    using start_calm [OF assms(1,2)] .
  have "hci_run (Suc n) fs o1 u h = hci_run n fs o1 u (h\<lparr>rtk := s,
     hci_proto := Some (u_proto u), alarm_sec := 0, pp_q := q, sig_q := sq, io_canceled := c',
     revents := Some v, ldisc := N_TTY, rfkill_log := rfkill_log h @ [''0'', ''1'']\<rparr>)"
    using s assms(3-5) by (auto simp: wait_hup_def reset_calm)
  then show ?thesis using s(2) by (rule that)
qed

lemma run_ends:
  assumes "calm (rtk h)" and "\<not> u_init u" and "wait_events (pp_q h) (io_canceled h) (revents h) = Ret (q, c', Some v)"
    and "sig_q h = []" and "v AND (POLLERR OR POLLHUP) = 0"
  shows "\<exists>s. hci_run (Suc n) fs o1 u h = Some (Ret (0, h\<lparr>rtk := s, ldisc := N_TTY,
     hci_proto := Some (u_proto u), alarm_sec := 0, pp_q := q, io_canceled := c', revents := Some v\<rparr>))"
proof -
  obtain s where s: "hci_start fs o1 u h = Ret (True, h\<lparr>rtk := s, ldisc := N_HCI,
     hci_proto := Some (u_proto u), alarm_sec := 0\<rparr>)" "calm s"
    using start_calm [OF assms(1,2)] .
  show ?thesis
    using s assms(3-5) by (intro exI [of _ s]) (simp add: wait_hup_def)
qed

section \<open>Memory safety\<close>

text \<open>The part of the state that only the waiting loop changes.\<close>

definition ctl :: "host \<Rightarrow> ppoll_ans list \<times> bool list \<times> bool \<times> u16 option" where
  "ctl h = (pp_q h, sig_q h, io_canceled h, revents h)"

lemma h_sys_mem: "h_sys d h = (r, h') \<Longrightarrow> mem_ok (rtk h') = mem_ok (rtk h) \<and> ctl h' = ctl h"
  using sys_inv by (auto simp: h_sys_def ctl_def split: prod.splits)

lemma h_ioctl_mem:
  assumes "h_ioctl f h = (ok, h')" and "\<And>h. rtk (f h) = rtk h \<and> ctl (f h) = ctl h"
  shows "mem_ok (rtk h') = mem_ok (rtk h) \<and> ctl h' = ctl h"
  using assms h_sys_mem by (fastforce simp: h_ioctl_def split: prod.splits if_splits)

lemma tcsetattr_mem: "do_tcsetattr (s :: rtb_struct) = (r, s') \<Longrightarrow> mem_ok s' = mem_ok s"
  using tcsetattr_shape [of s] by auto

lemma set_speed_mem: "set_speed v s = (r, s') \<Longrightarrow> mem_ok s' = mem_ok s"
  using set_speed_shape [of v s] by auto

lemma ctl_upd [simp]:
  "ctl (h\<lparr>rtk := s\<rparr>) = ctl h" "ctl (h\<lparr>ldisc := n\<rparr>) = ctl h" "ctl (h\<lparr>hci_proto := pr\<rparr>) = ctl h"
  "ctl (h\<lparr>alarm_sec := n\<rparr>) = ctl h" "ctl (h\<lparr>rfkill_log := l\<rparr>) = ctl h"
  by (simp_all add: ctl_def)

lemma port_open_mem: "port_open u h = (r, h') \<Longrightarrow> mem_ok (rtk h') = mem_ok (rtk h) \<and> ctl h' = ctl h"
  by (auto simp: port_open_def Let_def split: prod.splits if_splits
      dest!: h_sys_mem tcsetattr_mem set_speed_mem)

lemma port_attach_mem:
  "port_attach fd u raw h = (r, h') \<Longrightarrow> mem_ok (rtk h') = mem_ok (rtk h) \<and> ctl h' = ctl h"
  by (auto simp: port_attach_def split: prod.splits if_splits dest!: h_ioctl_mem)

lemma reset_mem: "reset_bluetooth h = (r, h') \<Longrightarrow> mem_ok (rtk h') = mem_ok (rtk h) \<and> ctl h' = ctl h"
  by (auto simp: reset_bluetooth_def rfkill_write_def split: prod.splits if_splits dest!: h_sys_mem)

lemma init_uart_safe:
  assumes "files_ok fs" and "mem_ok (rtk h)" and "u_init u \<Longrightarrow> u_proto u = HCI_UART_3WIRE"
  shows "safe (init_uart fs u b raw h) (\<lambda>(r, h'). mem_ok (rtk h') \<and> ctl h' = ctl h)"
proof -
  obtain fd h1 where p: "port_open u h = (fd, h1)" by (cases "port_open u h")
  have m: "mem_ok (rtk h1)" "ctl h1 = ctl h" using port_open_mem [OF p] assms(2) by simp_all
  have "safe (if u_init u then realtek_init fs fd u (rtk h1) else Ret (0, rtk h1)) (\<lambda>(r, s). mem_ok s)"
    using m(1) assms(3) safe_weaken [OF init_safe [OF assms(1) m(1)]] by (auto simp: realtek_init_def)
  then show ?thesis
    unfolding init_uart_def p prod.case
    by (auto intro!: safe_bind simp: Let_def m split: prod.splits dest!: port_attach_mem)
qed

lemma start_safe:
  assumes "files_ok fs" and "mem_ok (rtk h)" and "u_init u \<Longrightarrow> u_proto u = HCI_UART_3WIRE"
  shows "safe (hci_start fs o1 u h) (\<lambda>(child, h'). mem_ok (rtk h') \<and> ctl h' = ctl h)"
proof -
  define v where "v = (if h_init_speed o1 \<noteq> 0 then u\<lparr>u_init_speed := h_init_speed o1\<rparr> else u)"
  have v: "u_init v \<Longrightarrow> u_proto v = HCI_UART_3WIRE" using assms(3) by (auto simp: v_def)
  have m: "mem_ok (rtk (h\<lparr>alarm_sec := a\<rparr>))" for a using assms(2) by simp
  show ?thesis
    unfolding hci_start_def Let_def v_def [symmetric]
    by (rule safe_bind [OF init_uart_safe [OF assms(1) m v]])
      (auto split: if_splits prod.splits dest!: h_sys_mem)
qed

text \<open>The flag set before the events were ever read is the one thing to rule out.\<close>

definition quiet_entry :: "host \<Rightarrow> bool" where
  "quiet_entry h \<longleftrightarrow> revents h \<noteq> None \<or> \<not> io_canceled h \<and> (sig_q h = [] \<or> \<not> hd (sig_q h))"

lemma quiet_entry_ctl: "ctl h' = ctl h \<Longrightarrow> quiet_entry h' = quiet_entry h"
  by (simp add: quiet_entry_def ctl_def)

lemma wait_events_revents:
  "safe (wait_events q c rv) (\<lambda>(q', c', rv'). rv \<noteq> None \<or> \<not> c \<longrightarrow> rv' \<noteq> None)"
  by (induction q c rv rule: wait_events.induct) auto

lemma wait_hup_safe:
  assumes "quiet_entry h" and "mem_ok (rtk h)"
  shows "safe (wait_hup h) (\<lambda>h'. revents h' \<noteq> None \<and> mem_ok (rtk h'))"
proof -
  obtain t sq where t: "(case sig_q h of [] \<Rightarrow> (False, []) | t # sq \<Rightarrow> (t, sq)) = (t, sq)" by fastforce
  then have "revents h \<noteq> None \<or> \<not> (io_canceled h \<or> t)"
    using assms(1) by (auto simp: quiet_entry_def split: list.splits)
  then show ?thesis
    unfolding wait_hup_def Let_def t prod.case
    by (intro safe_bind [OF wait_events_revents]) (auto simp: assms(2))
qed

lemma run_safe:
  assumes "files_ok fs" and "mem_ok (rtk h)" and "u_init u \<Longrightarrow> u_proto u = HCI_UART_3WIRE"
    and "quiet_entry h" and "hci_run n fs o1 u h = Some m"
  shows "safe m (\<lambda>_. True)"
  using assms(2,4,5)
proof (induction n arbitrary: h)
  case (Suc n)
  note start = start_safe [OF assms(1) Suc.prems(1) assms(3), of o1]
  show ?case
  proof (cases "hci_start fs o1 u h")
    case (Ret x)
    obtain child h1 where x: "x = (child, h1)" by (cases x)
    have h1: "mem_ok (rtk h1)" "quiet_entry h1"
      using start Ret x Suc.prems(2) quiet_entry_ctl [of h1 h] by simp_all
    note wait = wait_hup_safe [OF h1(2,1)]
    show ?thesis
    proof (cases "child \<and> (\<exists>h2. wait_hup h1 = Ret h2)")
      case True
      then obtain h2 where w: "wait_hup h1 = Ret h2" by blast
      have h2: "revents h2 \<noteq> None" "mem_ok (rtk h2)" using wait w by simp_all
      obtain ok h3 where io: "h_ioctl (\<lambda>h. h\<lparr>ldisc := N_TTY\<rparr>) h2 = (ok, h3)" by fastforce
      have h3: "mem_ok (rtk h3)" "revents h3 \<noteq> None"
        using h_ioctl_mem [OF io] h2 by (auto simp: ctl_def)
      obtain r h4 where rs: "reset_bluetooth h3 = (r, h4)" by fastforce
      have h4: "mem_ok (rtk h4)" "quiet_entry h4"
        using reset_mem [OF rs] h3 by (auto simp: ctl_def quiet_entry_def)
      show ?thesis
        using Suc.prems(3) Suc.IH [OF h4] True Ret x w io rs h3(2)
        by (auto split: if_splits option.splits)
    next
      case False
      then show ?thesis using Suc.prems(3) Ret x wait by (cases "wait_hup h1") (auto split: if_splits)
    qed
  qed (use Suc.prems start in auto)
qed simp

section \<open>Properties\<close>



lemma calm_rtb_cfg [simp]: "calm rtb_cfg"
  by (simp add: calm_def rtb_cfg_def)

text \<open>A host at its start, with what \<open>ppoll\<close> and the signals do.\<close>

definition host_init :: "ppoll_ans list \<Rightarrow> bool list \<Rightarrow> host" where
  "host_init q sq = \<lparr>rtk = rtb_cfg, pp_q = q, sig_q = sq, io_canceled = False, revents = None,
     ldisc = N_TTY, hci_proto = None, alarm_sec = 0, rfkill_log = []\<rparr>"





text \<open>
  A run that was not detached returns only with status 0, with the line discipline of a
  terminal restored and without an unhandled error of the line.
\<close>
theorem hci_run_restores_tty:
  assumes "hci_run n fs o1 u h = Some (Ret (c, h'))" and "\<not> h_detach o1"
  shows "c = 0 \<and> ldisc h' = N_TTY \<and> (\<exists>v. revents h' = Some v \<and> v AND (POLLERR OR POLLHUP) = 0)"
  using assms(1)
proof (induction n arbitrary: h)
  case (Suc n)
  have "child" if "hci_start fs o1 u h = Ret (child, h1)" for child h1
    using that assms(2) by (auto simp: hci_start_def Let_def split: prod.splits if_splits)
  moreover have "ldisc h3 = N_TTY" if "h_ioctl (\<lambda>h. h\<lparr>ldisc := N_TTY\<rparr>) h2 = (True, h3)" for h2 h3
    using that by (auto simp: h_ioctl_def split: prod.splits if_splits)
  ultimately show ?case
    using Suc.prems Suc.IH by (auto split: res.splits prod.splits if_splits option.splits)
qed simp

lemma hci_run_restores_tty_witness:
  "\<exists>h'. hci_run 1 Map.empty (hci_default\<lparr>h_detach := False\<rparr>) (uart ! 0) (host_init [PpSignal True] []) = Some (Ret (0, h')) \<and>
     ldisc h' = N_TTY \<and> (\<exists>v. revents h' = Some v \<and> v AND (POLLERR OR POLLHUP) = 0)"
proof -
  let ?h = "host_init [PpSignal True] []" and ?o = "hci_default\<lparr>h_detach := False\<rparr>"
  have "calm (rtk ?h)" "\<not> u_init (uart ! 0)" "sig_q ?h = []"
    "wait_events (pp_q ?h) (io_canceled ?h) (revents ?h) = Ret ([], True, Some 0)"
    by (simp_all add: host_init_def uart_def uart_entry_def)
  then obtain h' where run: "hci_run 1 Map.empty ?o (uart ! 0) ?h = Some (Ret (0, h'))"
    using run_ends [of ?h "uart ! 0" "[]" True 0 0 Map.empty ?o] by auto
  from hci_run_restores_tty [OF this] show ?thesis using run by auto
qed

end
