(* ===== verification/Hexdump.thy ===== *)
theory Hexdump
  imports C_Lib
begin

text \<open>\<open>util_hexdump\<close> of hciattach.c, and what it prints.\<close>

section \<open>The code\<close>

text \<open>
  \<open>util_hexdump\<close>: the local string of 48 characters, whatever is in it at first, and the lines
  that were printed.
\<close>

fun hexdump_loop :: "nat \<Rightarrow> bytes \<Rightarrow> string \<Rightarrow> string list \<Rightarrow> (nat \<times> string \<times> string list) res" where
  "hexdump_loop i [] str out = Ret (i, str, out)"
| "hexdump_loop i (b # bs) str out =
     check (i mod 16 * 3 + 2 < length str) (
       let str = str[i mod 16 * 3 := hex_char (unat (drop_bit 4 b))];
           str = str[i mod 16 * 3 + 1 := hex_char (unat (b AND 0xf))];
           str = str[i mod 16 * 3 + 2 := CHR '' '']
       in if (i + 1) mod 16 = 0 then
            let str = str[47 := CHR 0x00]
            in hexdump_loop (i + 1) bs str (out @ [takeWhile (\<lambda>c. c \<noteq> CHR 0x00) str])
          else hexdump_loop (i + 1) bs str out)"

definition util_hexdump :: "bytes option \<Rightarrow> nat \<Rightarrow> string \<Rightarrow> string list res" where
  "util_hexdump buf len str =
     (case buf of None \<Rightarrow> Ret []
      | Some b \<Rightarrow>
          if len = 0 then Ret [] else
          check (len \<le> length b) (
          rbind (hexdump_loop 0 (take len b) str []) (\<lambda>(i, str, out).
            if i mod 16 > 0
            then Ret (out @ [takeWhile (\<lambda>c. c \<noteq> CHR 0x00) (str[i mod 16 * 3 - 1 := CHR 0x00])])
            else Ret out)))"

section \<open>The lines\<close>

text \<open>What a dump consists of: lines of sixteen bytes, each byte as two digits, with blanks between.\<close>

definition hex_pairs :: "bytes \<Rightarrow> string" where
  "hex_pairs bs = concat (map (\<lambda>b. [hex_char (unat (drop_bit 4 b)), hex_char (unat (b AND 0xf)), CHR '' '']) bs)"

definition hex_line :: "bytes \<Rightarrow> string" where
  "hex_line bs = butlast (hex_pairs bs)"

function hex_lines :: "bytes \<Rightarrow> string list" where
  "hex_lines bs = (if bs = [] then [] else hex_line (take 16 bs) # hex_lines (drop 16 bs))"
  by pat_completeness auto
termination by (relation "measure length") auto

declare hex_lines.simps [simp del]

lemma hex_pairs_append [simp]: "hex_pairs (as @ bs) = hex_pairs as @ hex_pairs bs"
  by (simp add: hex_pairs_def)

lemma length_hex_pairs [simp]: "length (hex_pairs bs) = 3 * length bs"
  by (induction bs) (simp_all add: hex_pairs_def)

lemma hex_char_not_nul: "n < 16 \<Longrightarrow> hex_char n \<noteq> CHR 0x00"
proof -
  have "list_all (\<lambda>n. hex_char n \<noteq> CHR 0x00) [0..<16]" by code_simp
  then show "n < 16 \<Longrightarrow> hex_char n \<noteq> CHR 0x00" by (simp add: list_all_iff)
qed

lemma nibbles_lt: "unat (drop_bit 4 b) < 16" "unat (b AND 0xf) < 16" for b :: u8
proof -
  have "list_all (\<lambda>n. unat (drop_bit 4 (of_nat n :: u8)) < 16 \<and> unat ((of_nat n :: u8) AND 0xf) < 16) [0..<256]" by code_simp
  from word8_all_list [OF this, of b] show "unat (drop_bit 4 b) < 16" "unat (b AND 0xf) < 16" by simp_all
qed

lemma hex_pairs_not_nul: "CHR 0x00 \<notin> set (hex_pairs bs)"
  using hex_char_not_nul [OF nibbles_lt(1), THEN not_sym] hex_char_not_nul [OF nibbles_lt(2), THEN not_sym]
  by (auto simp: hex_pairs_def)

text \<open>The string the loop prints when it has put a zero over the last blank.\<close>

lemma printed_line:
  assumes "take (3 * length bs) str = hex_pairs bs" and "bs \<noteq> []" and "3 * length bs \<le> length str"
  shows "takeWhile (\<lambda>c. c \<noteq> CHR 0x00) (str[3 * length bs - 1 := CHR 0x00]) = hex_line bs"
proof -
  let ?n = "3 * length bs - 1"
  have n: "?n < length str" using assms(2,3) by (cases bs) auto
  have "hex_line bs = take ?n str"
    unfolding hex_line_def assms(1) [symmetric] by (rule butlast_take [OF assms(3)])
  moreover have "CHR 0x00 \<notin> set (hex_line bs)"
    using hex_pairs_not_nul [of bs] by (auto simp: hex_line_def dest: in_set_butlastD)
  moreover have "str[?n := CHR 0x00] = take ?n str @ CHR 0x00 # drop (Suc ?n) str"
    by (rule upd_conv_take_nth_drop [OF n])
  ultimately show ?thesis by (auto simp: takeWhile_append)
qed

text \<open>The loop with the bytes of the unfinished line.\<close>

fun split_lines :: "bytes \<Rightarrow> bytes \<Rightarrow> string list \<times> bytes" where
  "split_lines acc [] = ([], acc)"
| "split_lines acc (b # bs) =
     (if length acc = 15 then (hex_line (acc @ [b]) # fst (split_lines [] bs), snd (split_lines [] bs))
      else split_lines (acc @ [b]) bs)"

lemma put_three: "length P = k \<Longrightarrow> take (k + 3) ((P @ x # y # z # r)[k := u, k + 1 := v, k + 2 := w]) = P @ [u, v, w]"
  by (simp add: list_update_append)

lemma put_pair:
  assumes "take (3 * j) str = hex_pairs acc" and "length acc = j" and "3 * j + 2 < length str"
  shows "take (3 * Suc j) (str[j * 3 := hex_char (unat (drop_bit 4 b)), j * 3 + 1 := hex_char (unat (b AND 0xf)),
     j * 3 + 2 := CHR '' '']) = hex_pairs (acc @ [b])"
proof -
  obtain x y z r where "drop (3 * j) str = x # y # z # r"
    using assms(3) by (cases "drop (3 * j) str" rule: list.exhaust; cases "tl (drop (3 * j) str)"; cases "tl (tl (drop (3 * j) str))")
      (auto simp: tl_drop dest!: arg_cong [of _ _ length])
  then have "str = hex_pairs acc @ x # y # z # r" using assms(1) append_take_drop_id [of "3 * j" str] by simp
  then show ?thesis
    using put_three [of "hex_pairs acc" "3 * j" x y z r "hex_char (unat (drop_bit 4 b))" "hex_char (unat (b AND 0xf))" "CHR '' ''"] assms(2)
    by (simp add: hex_pairs_def [of "[b]"] add.commute mult.commute [of j 3])
qed

lemma hexdump_loop_lines:
  assumes "length str = 48" and "take (3 * length acc) str = hex_pairs acc" and "i mod 16 = length acc"
  shows "\<exists>str'. hexdump_loop i bs str out = Ret (i + length bs, str', out @ fst (split_lines acc bs)) \<and>
     length str' = 48 \<and> take (3 * length (snd (split_lines acc bs))) str' = hex_pairs (snd (split_lines acc bs)) \<and>
     (i + length bs) mod 16 = length (snd (split_lines acc bs))"
  using assms
proof (induction bs arbitrary: i str out acc)
  case (Cons b bs)
  let ?j = "i mod 16"
  let ?s = "str[?j * 3 := hex_char (unat (drop_bit 4 b)), ?j * 3 + 1 := hex_char (unat (b AND 0xf)), ?j * 3 + 2 := CHR '' '']"
  have j: "3 * ?j + 2 < length str" using Cons.prems(1) by simp
  have s: "take (3 * Suc ?j) ?s = hex_pairs (acc @ [b])" "length ?s = 48"
    using put_pair [OF _ _ j] Cons.prems by simp_all
  show ?case
  proof (cases "?j = 15")
    case True
    then have full: "length (acc @ [b]) = 16" "(i + 1) mod 16 = 0" using Cons.prems(3) by (simp, presburger)
    have "take (3 * length (acc @ [b])) ?s = hex_pairs (acc @ [b])"
      using s(1) unfolding Cons.prems(3) by (simp only: length_append_singleton)
    then have "takeWhile (\<lambda>c. c \<noteq> CHR 0x00) (?s[3 * length (acc @ [b]) - 1 := CHR 0x00]) = hex_line (acc @ [b])"
      by (rule printed_line) (use full(1) s(2) in simp_all)
    moreover have "3 * length (acc @ [b]) - 1 = 47" using full(1) by simp
    ultimately have "takeWhile (\<lambda>c. c \<noteq> CHR 0x00) (?s[47 := CHR 0x00]) = hex_line (acc @ [b])" by (simp only:)
    moreover define t where "t = ?s[47 := CHR 0x00]"
    ultimately have "hexdump_loop i (b # bs) str out = hexdump_loop (i + 1) bs t (out @ [hex_line (acc @ [b])])"
      using j full(2) unfolding t_def by (simp add: mult.commute)
    moreover have "length t = 48" "take (3 * length ([] :: bytes)) t = hex_pairs []" "(i + 1) mod 16 = length ([] :: bytes)"
      using s(2) full(2) by (simp_all add: t_def hex_pairs_def)
    note Cons.IH [OF this, of "out @ [hex_line (acc @ [b])]"]
    moreover have "split_lines acc (b # bs) = (hex_line (acc @ [b]) # fst (split_lines [] bs), snd (split_lines [] bs))"
      using True Cons.prems(3) by simp
    ultimately show ?thesis by (simp only: fst_conv snd_conv list.size append_assoc append.simps add.assoc add.commute [of "Suc 0"] One_nat_def)
  next
    case False
    then have more: "(i + 1) mod 16 = length (acc @ [b])" "(i + 1) mod 16 \<noteq> 0" "length acc \<noteq> 15"
      using False Cons.prems(3) by (simp_all add: mod_Suc)
    define t where "t = ?s"
    have "hexdump_loop i (b # bs) str out = hexdump_loop (i + 1) bs t out"
      using j more(2) unfolding t_def by (simp add: mult.commute)
    moreover have "length t = 48" "take (3 * length (acc @ [b])) t = hex_pairs (acc @ [b])"
      using s Cons.prems(3) by (simp_all add: t_def)
    note Cons.IH [OF this more(1), of out]
    moreover have "split_lines acc (b # bs) = split_lines (acc @ [b]) bs" using more(3) by simp
    ultimately show ?thesis by (simp only: list.size add.assoc add.commute [of "Suc 0"] One_nat_def)
  qed
qed simp

lemma split_lines_all:
  "length acc < 16 \<Longrightarrow> fst (split_lines acc bs) @ (if snd (split_lines acc bs) = [] then [] else [hex_line (snd (split_lines acc bs))]) =
     hex_lines (acc @ bs)"
proof (induction acc bs rule: split_lines.induct)
  case (1 acc)
  then show ?case by (simp add: hex_lines.simps [of acc] hex_lines.simps [of "[]"])
next
  case (2 acc b bs)
  show ?case
  proof (cases "length acc = 15")
    case True
    then have "hex_lines (acc @ b # bs) = hex_line (acc @ [b]) # hex_lines bs"
      by (simp add: hex_lines.simps [of "acc @ b # bs"])
    then show ?thesis using 2(1,2) True by (simp split: if_splits)
  qed (use 2 in \<open>simp split: if_splits\<close>)
qed

text \<open>
  \<open>util_hexdump\<close> stays inside its string and its buffer and prints one line for every sixteen bytes.
\<close>

theorem util_hexdump_lines:
  assumes "length str = 48" and "len \<le> length b"
  shows "util_hexdump (Some b) len str = Ret (hex_lines (take len b))"
proof (cases "len = 0")
  case False
  let ?bs = "take len b"
  obtain str' where run: "hexdump_loop 0 ?bs str [] = Ret (len, str', fst (split_lines [] ?bs))" "length str' = 48"
      "take (3 * length (snd (split_lines [] ?bs))) str' = hex_pairs (snd (split_lines [] ?bs))"
      "len mod 16 = length (snd (split_lines [] ?bs))"
    using hexdump_loop_lines [OF assms(1), of "[]" 0 ?bs "[]"] assms(2) by (auto simp: hex_pairs_def)
  show ?thesis
    using printed_line [OF run(3)] run assms(2) False split_lines_all [of "[]" ?bs]
    by (auto simp: util_hexdump_def mult.commute split: if_splits)
qed (simp add: util_hexdump_def hex_lines.simps)

end
