(* ===== verification/Cfg_Links.thy ===== *)
theory Cfg_Links
  imports Cfg_Merge
begin

text \<open>
  The circular doubly linked lists of rtb_fwc.c on a heap of pointers: the operations copied from
  the kernel's \<open>list.h\<close>, \<open>merge_configs\<close>, and the release of both lists. The
  theorems relate them to the sequences of items the other theories work with.
\<close>

section \<open>The heap\<close>

text \<open>
  An address has a \<open>next\<close> and a \<open>prev\<close> field when a \<open>struct list_head\<close> lies there, and
  an item as well when it is the one of a \<open>struct cfg_list_item\<close>, whose first member it is (so
  \<open>list_entry\<close> does not change the address). Reading or writing any other address is undefined.
\<close>

type_synonym ptr = nat

record cfg_heap =
  next_of :: "ptr \<rightharpoonup> ptr"
  prev_of :: "ptr \<rightharpoonup> ptr"
  item_of :: "ptr \<rightharpoonup> cfg_item"

definition opt_res :: "'a option \<Rightarrow> 'a res" where
  "opt_res x = (case x of None \<Rightarrow> Fault | Some y \<Rightarrow> Ret y)"

lemma opt_res_simps [simp]: "opt_res (Some y) = Ret y" "opt_res None = Fault"
  by (simp_all add: opt_res_def)

definition get_next :: "ptr \<Rightarrow> cfg_heap \<Rightarrow> ptr res" where
  "get_next a h = opt_res (next_of h a)"

definition get_prev :: "ptr \<Rightarrow> cfg_heap \<Rightarrow> ptr res" where
  "get_prev a h = opt_res (prev_of h a)"

definition get_item :: "ptr \<Rightarrow> cfg_heap \<Rightarrow> cfg_item res" where
  "get_item a h = opt_res (item_of h a)"

definition set_next :: "ptr \<Rightarrow> ptr \<Rightarrow> cfg_heap \<Rightarrow> cfg_heap res" where
  "set_next a v h = check (next_of h a \<noteq> None) (Ret (h\<lparr>next_of := (next_of h)(a \<mapsto> v)\<rparr>))"

definition set_prev :: "ptr \<Rightarrow> ptr \<Rightarrow> cfg_heap \<Rightarrow> cfg_heap res" where
  "set_prev a v h = check (prev_of h a \<noteq> None) (Ret (h\<lparr>prev_of := (prev_of h)(a \<mapsto> v)\<rparr>))"

text \<open>\<open>malloc\<close>, \<open>memset\<close> and the filling of a new item, at an address given by the allocator.\<close>

definition new_item :: "ptr \<Rightarrow> cfg_item \<Rightarrow> cfg_heap \<Rightarrow> cfg_heap" where
  "new_item a i h = h\<lparr>next_of := (next_of h)(a \<mapsto> 0), prev_of := (prev_of h)(a \<mapsto> 0), item_of := (item_of h)(a \<mapsto> i)\<rparr>"

definition free_item :: "ptr \<Rightarrow> cfg_heap \<Rightarrow> cfg_heap res" where
  "free_item a h = check (item_of h a \<noteq> None) (Ret
     (h\<lparr>next_of := (next_of h)(a := None), prev_of := (prev_of h)(a := None), item_of := (item_of h)(a := None)\<rparr>))"

lemmas heap_defs = get_next_def get_prev_def get_item_def set_next_def set_prev_def check_def

section \<open>The operations of list.h\<close>

definition INIT_LIST_HEAD :: "ptr \<Rightarrow> cfg_heap \<Rightarrow> cfg_heap res" where
  "INIT_LIST_HEAD l h = rbind (set_next l l h) (set_prev l l)"

definition list_empty :: "ptr \<Rightarrow> cfg_heap \<Rightarrow> bool res" where
  "list_empty head h = rbind (get_next head h) (\<lambda>a. Ret (a = head))"

definition list_add0 :: "ptr \<Rightarrow> ptr \<Rightarrow> ptr \<Rightarrow> cfg_heap \<Rightarrow> cfg_heap res" where
  "list_add0 new pre nxt h =
     rbind (set_prev nxt new h) (\<lambda>h.
     rbind (set_next new nxt h) (\<lambda>h.
     rbind (set_prev new pre h) (\<lambda>h.
     set_next pre new h)))"

definition list_add_tail :: "ptr \<Rightarrow> ptr \<Rightarrow> cfg_heap \<Rightarrow> cfg_heap res" where
  "list_add_tail new head h = rbind (get_prev head h) (\<lambda>pre. list_add0 new pre head h)"

definition list_del0 :: "ptr \<Rightarrow> ptr \<Rightarrow> cfg_heap \<Rightarrow> cfg_heap res" where
  "list_del0 pre nxt h = rbind (set_prev nxt pre h) (set_next pre nxt)"

definition LIST_POISON1 :: ptr where "LIST_POISON1 = 0x00100100"
definition LIST_POISON2 :: ptr where "LIST_POISON2 = 0x00200200"

definition list_del :: "ptr \<Rightarrow> cfg_heap \<Rightarrow> cfg_heap res" where
  "list_del a h =
     rbind (get_prev a h) (\<lambda>pre. rbind (get_next a h) (\<lambda>nxt.
     rbind (list_del0 pre nxt h) (\<lambda>h.
     rbind (set_next a LIST_POISON1 h) (set_prev a LIST_POISON2))))"

definition list_splice0 :: "ptr \<Rightarrow> ptr \<Rightarrow> ptr \<Rightarrow> cfg_heap \<Rightarrow> cfg_heap res" where
  "list_splice0 l pre nxt h =
     rbind (get_next l h) (\<lambda>first. rbind (get_prev l h) (\<lambda>last.
     rbind (set_prev first pre h) (\<lambda>h.
     rbind (set_next pre first h) (\<lambda>h.
     rbind (set_next last nxt h) (\<lambda>h.
     set_prev nxt last h)))))"

definition list_splice_tail :: "ptr \<Rightarrow> ptr \<Rightarrow> cfg_heap \<Rightarrow> cfg_heap res" where
  "list_splice_tail l head h =
     rbind (list_empty l h) (\<lambda>e.
     if \<not> e then rbind (get_prev head h) (\<lambda>pre. list_splice0 l pre head h) else Ret h)"

definition list_replace :: "ptr \<Rightarrow> ptr \<Rightarrow> cfg_heap \<Rightarrow> cfg_heap res" where
  "list_replace old new h =
     rbind (get_next old h) (\<lambda>nxt.
     rbind (set_next new nxt h) (\<lambda>h.
     rbind (set_prev nxt new h) (\<lambda>h.
     rbind (get_prev old h) (\<lambda>pre.
     rbind (set_prev new pre h) (\<lambda>h.
     set_next pre new h)))))"

definition list_replace_init :: "ptr \<Rightarrow> ptr \<Rightarrow> cfg_heap \<Rightarrow> cfg_heap res" where
  "list_replace_init old new h = rbind (list_replace old new h) (INIT_LIST_HEAD old)"

text \<open>
  \<open>list_for_each_safe\<close>: the next address is read before the body runs. A list that is not
  closed would be walked for ever, so the loop is an optional outcome, and \<open>None\<close> means that it
  does not end.
\<close>

partial_function (option) list_walk ::
  "(ptr \<Rightarrow> cfg_heap \<Rightarrow> cfg_heap res option) \<Rightarrow> ptr \<Rightarrow> ptr \<Rightarrow> ptr \<Rightarrow> cfg_heap \<Rightarrow> cfg_heap res option" where
  "list_walk body head pos nxt h =
     (if pos = head then Some (Ret h) else
      case body pos h of
        None \<Rightarrow> None
      | Some m \<Rightarrow>
          (case rbind m (\<lambda>h. rbind (get_next nxt h) (\<lambda>nxt'. Ret (nxt', h))) of
             Ret x \<Rightarrow> list_walk body head nxt (fst x) (snd x)
           | Exit c \<Rightarrow> Some (Exit c) | Fault \<Rightarrow> Some Fault | Blocked \<Rightarrow> Some Blocked))"

definition list_for_each_safe ::
  "(ptr \<Rightarrow> cfg_heap \<Rightarrow> cfg_heap res option) \<Rightarrow> ptr \<Rightarrow> cfg_heap \<Rightarrow> cfg_heap res option" where
  "list_for_each_safe body head h =
     (case rbind (get_next head h) (\<lambda>pos. rbind (get_next pos h) (\<lambda>nxt. Ret (pos, nxt))) of
        Ret x \<Rightarrow> list_walk body head (fst x) (snd x) h
      | Exit c \<Rightarrow> Some (Exit c) | Fault \<Rightarrow> Some Fault | Blocked \<Rightarrow> Some Blocked)"

section \<open>The code on the lists\<close>

definition config_lists_init :: "ptr \<Rightarrow> ptr \<Rightarrow> cfg_heap \<Rightarrow> cfg_heap res" where
  "config_lists_init c e h = rbind (INIT_LIST_HEAD c h) (INIT_LIST_HEAD e)"

text \<open>The body of the inner loop of \<open>merge_configs\<close> at a configuration item.\<close>

definition merge_at :: "ptr \<Rightarrow> ptr \<Rightarrow> cfg_heap \<Rightarrow> cfg_heap res" where
  "merge_at epos pos h =
     rbind (get_item epos h) (\<lambda>extra. rbind (get_item pos h) (\<lambda>n.
     if ci_offset extra = ci_offset n then
       if ci_len extra < ci_len n then
         rbind (arr_slice (ci_data extra) 0 (unat (ci_len extra))) (\<lambda>d.
         rbind (arr_put (ci_data n) 0 d) (\<lambda>d.
         rbind (list_del epos (h\<lparr>item_of := (item_of h)(pos \<mapsto> n\<lparr>ci_data := d\<rparr>)\<rparr>)) (free_item epos)))
       else
         rbind (list_del epos h) (\<lambda>h.
         rbind (list_replace_init pos epos h) (free_item pos))
     else Ret h))"

definition merge_extra :: "ptr \<Rightarrow> ptr \<Rightarrow> cfg_heap \<Rightarrow> cfg_heap res option" where
  "merge_extra c epos = list_for_each_safe (\<lambda>pos h. Some (merge_at epos pos h)) c"

definition move_item :: "ptr \<Rightarrow> ptr \<Rightarrow> cfg_heap \<Rightarrow> cfg_heap res" where
  "move_item c epos h = rbind (list_del epos h) (list_add_tail epos c)"

text \<open>\<open>merge_configs\<close> itself, on the two list heads (which are never null).\<close>

definition merge_links :: "ptr \<Rightarrow> ptr \<Rightarrow> cfg_heap \<Rightarrow> cfg_heap res option" where
  "merge_links c e h =
     (case rbind (list_empty e h) (\<lambda>b2. if b2 then Ret (True, False) else
           rbind (list_empty c h) (\<lambda>b. Ret (False, b))) of
        Ret (b2, b) \<Rightarrow>
          if b2 then Some (Ret h)
          else if b then Some (rbind (list_splice_tail e c h) (INIT_LIST_HEAD e))
          else (case list_for_each_safe (merge_extra c) e h of
                  Some (Ret h) \<Rightarrow>
                    (case list_empty e h of
                       Ret b2 \<Rightarrow> if b2 then Some (Ret h)
                                 else list_for_each_safe (\<lambda>epos h. Some (move_item c epos h)) e h
                     | Exit k \<Rightarrow> Some (Exit k) | Fault \<Rightarrow> Some Fault | Blocked \<Rightarrow> Some Blocked)
                | r \<Rightarrow> r)
      | Exit k \<Rightarrow> Some (Exit k) | Fault \<Rightarrow> Some Fault | Blocked \<Rightarrow> Some Blocked)"

definition free_at :: "ptr \<Rightarrow> cfg_heap \<Rightarrow> cfg_heap res" where
  "free_at a h = rbind (list_del a h) (free_item a)"

definition config_lists_free :: "ptr \<Rightarrow> ptr \<Rightarrow> cfg_heap \<Rightarrow> cfg_heap res option" where
  "config_lists_free c e h =
     (case rbind (list_empty e h) (\<lambda>b. if \<not> b then list_splice_tail e c h else Ret h) of
        Ret h \<Rightarrow>
          (case list_for_each_safe (\<lambda>a h. Some (free_at a h)) c h of
             Some (Ret h) \<Rightarrow> Some (config_lists_init c e h)
           | r \<Rightarrow> r)
      | Exit k \<Rightarrow> Some (Exit k) | Fault \<Rightarrow> Some Fault | Blocked \<Rightarrow> Some Blocked)"

text \<open>Adding a new item at the end of a list, as the parsers do.\<close>

definition add_item :: "ptr \<Rightarrow> cfg_item \<Rightarrow> ptr \<Rightarrow> cfg_heap \<Rightarrow> cfg_heap res" where
  "add_item a i head h = list_add_tail a head (new_item a i h)"

section \<open>Closed lists\<close>

text \<open>The links from one address over a sequence of nodes to another address, in both directions.\<close>

fun seg :: "(ptr \<rightharpoonup> ptr) \<Rightarrow> (ptr \<rightharpoonup> ptr) \<Rightarrow> ptr \<Rightarrow> ptr list \<Rightarrow> ptr \<Rightarrow> bool" where
  "seg n p a [] b \<longleftrightarrow> n a = Some b \<and> p b = Some a"
| "seg n p a (x # xs) b \<longleftrightarrow> n a = Some x \<and> p x = Some a \<and> seg n p x xs b"

lemma seg_append [simp]: "seg n p a (xs @ x # ys) b \<longleftrightarrow> seg n p a xs x \<and> seg n p x ys b"
  by (induction xs arbitrary: a) auto

lemma seg_upd_next [simp]: "u \<noteq> a \<Longrightarrow> u \<notin> set xs \<Longrightarrow> seg (n(u := v)) p a xs b \<longleftrightarrow> seg n p a xs b"
  by (induction xs arbitrary: a) auto

lemma seg_upd_prev [simp]: "u \<noteq> b \<Longrightarrow> u \<notin> set xs \<Longrightarrow> seg n (p(u := v)) a xs b \<longleftrightarrow> seg n p a xs b"
  by (induction xs arbitrary: a) auto

lemma seg_dom: "seg n p a xs b \<Longrightarrow> a \<in> dom n \<and> set xs \<subseteq> dom n \<and> b \<in> dom p \<and> set xs \<subseteq> dom p"
  by (induction xs arbitrary: a) auto

text \<open>The neighbours of a node, and what is left when the node is taken out or replaced.\<close>

lemma seg_first: "seg n p a ys b \<Longrightarrow> n a = Some (hd (ys @ [b]))"
  by (cases ys) auto

lemma seg_last: "seg n p a xs b \<Longrightarrow> p b = Some (last (a # xs))"
  by (induction xs arbitrary: a) auto

lemma seg_join:
  assumes "seg n p a xs x" and "seg n p x ys b"
    and "distinct (a # xs @ x # ys)" and "distinct (xs @ x # ys @ [b])"
  shows "seg (n(last (a # xs) \<mapsto> hd (ys @ [b]))) (p(hd (ys @ [b]) \<mapsto> last (a # xs))) a (xs @ ys) b"
  using assms by (cases xs rule: rev_cases; cases ys) (auto simp: append_eq_append_conv2)

lemma seg_swap:
  assumes "seg n p a xs x" and "seg n p x ys b"
    and "distinct (a # xs @ x # ys)" and "distinct (xs @ x # ys @ [b])"
    and "y \<notin> set (a # b # xs @ x # ys)"
  shows "seg (n(y \<mapsto> hd (ys @ [b]), last (a # xs) \<mapsto> y)) (p(hd (ys @ [b]) \<mapsto> y, y \<mapsto> last (a # xs))) a (xs @ y # ys) b"
  using assms by (cases xs rule: rev_cases; cases ys) (auto simp: append_eq_append_conv2)

section \<open>The heap that holds both lists\<close>

text \<open>
  Two closed lists without a common address, given by the addresses of their nodes with the items
  in them.
\<close>

definition store :: "cfg_heap \<Rightarrow> ptr \<Rightarrow> (ptr \<times> cfg_item) list \<Rightarrow> ptr \<Rightarrow> (ptr \<times> cfg_item) list \<Rightarrow> bool" where
  "store h c ps e qs \<longleftrightarrow>
     seg (next_of h) (prev_of h) c (map fst ps) c \<and> seg (next_of h) (prev_of h) e (map fst qs) e \<and>
     distinct (c # map fst ps @ e # map fst qs) \<and> list_all (\<lambda>x. item_of h (fst x) = Some (snd x)) (ps @ qs)"

text \<open>An address that is allocated as an item and on neither list.\<close>

definition loose :: "cfg_heap \<Rightarrow> ptr \<Rightarrow> bool" where
  "loose h a \<longleftrightarrow> next_of h a \<noteq> None \<and> prev_of h a \<noteq> None \<and> item_of h a \<noteq> None"

lemma store_sym: "store h c ps e qs \<longleftrightarrow> store h e qs c ps"
  by (auto simp: store_def)

lemma list_del_Ret:
  assumes "prev_of h x = Some u" and "next_of h x = Some v" and "next_of h u \<noteq> None" and "prev_of h v \<noteq> None"
  shows "list_del x h = Ret (h\<lparr>next_of := (next_of h)(u \<mapsto> v, x \<mapsto> LIST_POISON1),
     prev_of := (prev_of h)(v \<mapsto> u, x \<mapsto> LIST_POISON2)\<rparr>)"
  using assms by (auto simp: list_del_def list_del0_def heap_defs)

text \<open>What is known about a node and its two neighbours.\<close>

lemma store_at:
  assumes "store h c (ps @ (x, i) # ps') e qs"
  obtains u v where "u = last (c # map fst ps)" and "v = hd (map fst ps' @ [c])"
    and "prev_of h x = Some u" and "next_of h x = Some v" and "next_of h u = Some x" and "prev_of h v = Some x"
    and "u \<noteq> x" and "v \<noteq> x" and "{u, v, x} \<inter> set (e # map fst qs) = {}"
    and "{u, v} \<subseteq> set (c # map fst ps @ map fst ps')"
proof -
  define u v where "u = last (c # map fst ps)" and "v = hd (map fst ps' @ [c])"
  have s: "seg (next_of h) (prev_of h) c (map fst ps) x" "seg (next_of h) (prev_of h) x (map fst ps') c"
    and d: "distinct (c # map fst ps @ x # map fst ps')"
    and disj: "set (c # map fst ps @ x # map fst ps') \<inter> set (e # map fst qs) = {}"
    using assms by (auto simp: store_def)
  have u: "u \<in> set (c # map fst ps)" unfolding u_def by (rule last_in_set) simp
  have "v \<in> set (map fst ps' @ [c])" unfolding v_def by (rule hd_in_set) simp
  then have uv: "{u, v} \<subseteq> set (c # map fst ps @ map fst ps')" using u by auto
  have "prev_of h x = Some u" unfolding u_def by (rule seg_last [OF s(1)])
  moreover have "next_of h x = Some v" unfolding v_def by (rule seg_first [OF s(2)])
  moreover have "next_of h u = Some x" using s(1) by (cases ps rule: rev_cases) (auto simp: u_def)
  moreover have "prev_of h v = Some x" using s(2) by (cases ps') (auto simp: v_def)
  moreover have "u \<noteq> x" "v \<noteq> x" using uv d by auto
  moreover have "{u, v, x} \<inter> set (e # map fst qs) = {}" using uv disj by auto
  ultimately show ?thesis using uv by (intro that [OF u_def v_def])
qed

lemma list_del_store:
  assumes "store h c (ps @ (x, i) # ps') e qs"
  obtains h' where "list_del x h = Ret h'" and "store h' c (ps @ ps') e qs"
    and "item_of h' = item_of h" and "loose h' x"
proof -
  obtain u v where uv: "u = last (c # map fst ps)" "v = hd (map fst ps' @ [c])"
    and nb: "prev_of h x = Some u" "next_of h x = Some v" "next_of h u = Some x" "prev_of h v = Some x" "u \<noteq> x" "v \<noteq> x"
    and disj: "{u, v, x} \<inter> set (e # map fst qs) = {}"
    using store_at [OF assms] .
  let ?h = "h\<lparr>next_of := (next_of h)(u \<mapsto> v, x \<mapsto> LIST_POISON1), prev_of := (prev_of h)(v \<mapsto> u, x \<mapsto> LIST_POISON2)\<rparr>"
  have s: "seg (next_of h) (prev_of h) c (map fst ps) x" "seg (next_of h) (prev_of h) x (map fst ps') c"
    "distinct (c # map fst ps @ x # map fst ps')" "distinct (map fst ps @ x # map fst ps' @ [c])"
    and e: "seg (next_of h) (prev_of h) e (map fst qs) e"
    using assms by (auto simp: store_def)
  have "list_del x h = Ret ?h" using nb by (intro list_del_Ret) simp_all
  moreover have "store ?h c (ps @ ps') e qs"
    unfolding store_def
  proof (intro conjI)
    show "seg (next_of ?h) (prev_of ?h) c (map fst (ps @ ps')) c"
      using seg_join [OF s, folded uv] s(3,4) by simp
    show "seg (next_of ?h) (prev_of ?h) e (map fst qs) e" using e disj by simp
  qed (use assms in \<open>auto simp: store_def\<close>)
  moreover have "item_of ?h = item_of h" "loose ?h x" using assms by (auto simp: loose_def store_def)
  ultimately show ?thesis by (rule that)
qed

lemma list_replace_Ret:
  assumes "prev_of h x = Some u" and "next_of h x = Some v" and "next_of h u \<noteq> None" and "prev_of h v \<noteq> None"
    and "next_of h y \<noteq> None" and "prev_of h y \<noteq> None" and "x \<noteq> u" and "x \<noteq> v" and "x \<noteq> y"
  shows "list_replace_init x y h = Ret (h\<lparr>next_of := (next_of h)(y \<mapsto> v, u \<mapsto> y, x \<mapsto> x),
     prev_of := (prev_of h)(v \<mapsto> y, y \<mapsto> u, x \<mapsto> x)\<rparr>)"
  using assms by (simp add: list_replace_init_def list_replace_def INIT_LIST_HEAD_def heap_defs)

lemma list_replace_store:
  assumes "store h c (ps @ (x, i) # ps') e qs" and "loose h y" and "item_of h y = Some j"
    and "y \<notin> set (c # map fst (ps @ (x, i) # ps') @ e # map fst qs)"
  obtains h' where "list_replace_init x y h = Ret h'" and "store h' c (ps @ (y, j) # ps') e qs"
    and "item_of h' = item_of h" and "loose h' x"
proof -
  obtain u v where uv: "u = last (c # map fst ps)" "v = hd (map fst ps' @ [c])"
    and nb: "prev_of h x = Some u" "next_of h x = Some v" "next_of h u = Some x" "prev_of h v = Some x" "u \<noteq> x" "v \<noteq> x"
    and disj: "{u, v, x} \<inter> set (e # map fst qs) = {}" and mem: "{u, v} \<subseteq> set (c # map fst ps @ map fst ps')"
    using store_at [OF assms(1)] .
  let ?h = "h\<lparr>next_of := (next_of h)(y \<mapsto> v, u \<mapsto> y, x \<mapsto> x), prev_of := (prev_of h)(v \<mapsto> y, y \<mapsto> u, x \<mapsto> x)\<rparr>"
  have s: "seg (next_of h) (prev_of h) c (map fst ps) x" "seg (next_of h) (prev_of h) x (map fst ps') c"
    "distinct (c # map fst ps @ x # map fst ps')" "distinct (map fst ps @ x # map fst ps' @ [c])"
    and e: "seg (next_of h) (prev_of h) e (map fst qs) e"
    using assms(1) by (auto simp: store_def)
  have y: "y \<notin> set (c # c # map fst ps @ x # map fst ps')" "y \<notin> set (e # map fst qs)" "x \<noteq> y"
    using assms(4) by auto
  have "list_replace_init x y h = Ret ?h"
    using nb y(3) assms(2) by (intro list_replace_Ret) (simp_all add: loose_def)
  moreover have "store ?h c (ps @ (y, j) # ps') e qs"
    unfolding store_def
  proof (intro conjI)
    have "x \<noteq> c" "x \<notin> set (map fst ps @ y # map fst ps')" using s(3) y(3) by auto
    then show "seg (next_of ?h) (prev_of ?h) c (map fst (ps @ (y, j) # ps')) c"
      using seg_swap [OF s y(1), folded uv] by (simp del: seg_append)
    show "seg (next_of ?h) (prev_of ?h) e (map fst qs) e" using e disj y(2) by simp
  qed (use assms in \<open>auto simp: store_def\<close>)
  moreover have "item_of ?h = item_of h" "loose ?h x" using assms by (auto simp: loose_def store_def)
  ultimately show ?thesis by (rule that)
qed

lemma seg_snoc:
  assumes "seg n p a xs b" and "y \<notin> set (a # b # xs)" and "distinct (a # xs)" and "b \<notin> set xs"
  shows "seg (n(y \<mapsto> b, last (a # xs) \<mapsto> y)) (p(b \<mapsto> y, y \<mapsto> last (a # xs))) a (xs @ [y]) b"
  using assms by (cases xs rule: rev_cases) auto

lemma store_head: "store h c ps e qs \<Longrightarrow> next_of h c = Some (hd (map fst ps @ [c])) \<and> prev_of h c = Some (last (c # map fst ps))"
  unfolding store_def using seg_first seg_last by blast

lemma store_last:
  assumes "store h c ps e qs"
  obtains u where "u = last (c # map fst ps)" and "prev_of h c = Some u" and "next_of h u \<noteq> None"
    and "u \<in> set (c # map fst ps)" and "u \<notin> set (e # map fst qs)"
proof -
  define u where "u = last (c # map fst ps)"
  have mem: "u \<in> set (c # map fst ps)" unfolding u_def by (rule last_in_set) simp
  have s: "seg (next_of h) (prev_of h) c (map fst ps) c" using assms by (simp add: store_def)
  have "set (c # map fst ps) \<inter> set (e # map fst qs) = {}" using assms by (auto simp: store_def)
  then have "u \<notin> set (e # map fst qs)" using mem by blast
  moreover have "prev_of h c = Some u" unfolding u_def by (rule seg_last [OF s])
  moreover have "next_of h u \<noteq> None" using mem seg_dom [OF s] by auto
  ultimately show ?thesis using mem u_def that by blast
qed

lemma list_add_tail_store:
  assumes "store h c ps e qs" and "loose h y" and "item_of h y = Some j"
    and "y \<notin> set (c # map fst ps @ e # map fst qs)"
  obtains h' where "list_add_tail y c h = Ret h'" and "store h' c (ps @ [(y, j)]) e qs" and "item_of h' = item_of h"
    and "dom (next_of h') = dom (next_of h)"
proof -
  obtain u where u: "u = last (c # map fst ps)" "prev_of h c = Some u" "next_of h u \<noteq> None"
    "u \<in> set (c # map fst ps)" "u \<notin> set (e # map fst qs)"
    using store_last [OF assms(1)] .
  let ?h = "h\<lparr>next_of := (next_of h)(y \<mapsto> c, u \<mapsto> y), prev_of := (prev_of h)(c \<mapsto> y, y \<mapsto> u)\<rparr>"
  have s: "seg (next_of h) (prev_of h) c (map fst ps) c" "distinct (c # map fst ps)" "c \<notin> set (map fst ps)"
    and e: "seg (next_of h) (prev_of h) e (map fst qs) e" "c \<notin> set (e # map fst qs)"
    using assms(1) by (auto simp: store_def)
  have y: "y \<notin> set (c # c # map fst ps)" "y \<notin> set (e # map fst qs)" "y \<noteq> u" "y \<noteq> c"
    using assms(4) u(4) by auto
  have "list_add_tail y c h = Ret ?h"
    using u(2,3) y(3,4) assms(2) by (simp add: list_add_tail_def list_add0_def heap_defs loose_def fun_upd_twist)
  moreover have "store ?h c (ps @ [(y, j)]) e qs"
    unfolding store_def
  proof (intro conjI)
    show "seg (next_of ?h) (prev_of ?h) c (map fst (ps @ [(y, j)])) c"
      using seg_snoc [OF s(1) y(1) s(2,3), folded u(1)] by (simp del: seg_append)
    show "seg (next_of ?h) (prev_of ?h) e (map fst qs) e" using e u(5) y(2) by simp
  qed (use assms in \<open>auto simp: store_def\<close>)
  moreover have "item_of ?h = item_of h" by simp
  moreover have "dom (next_of ?h) = dom (next_of h)" using u(3) assms(2) by (auto simp: loose_def)
  ultimately show ?thesis by (rule that)
qed

lemma seg_cong:
  assumes "seg n p a xs b" and "\<forall>x \<in> set (a # xs). n' x = n x" and "\<forall>x \<in> set (xs @ [b]). p' x = p x"
  shows "seg n' p' a xs b"
  using assms by (induction xs arbitrary: a) simp_all

lemma store_cong:
  assumes "store h c ps e qs"
    and "\<forall>a \<in> set (c # map fst ps @ e # map fst qs). next_of h' a = next_of h a \<and> prev_of h' a = prev_of h a"
    and "\<forall>a \<in> set (map fst ps @ map fst qs). item_of h' a = item_of h a"
  shows "store h' c ps e qs"
proof -
  have s: "seg (next_of h) (prev_of h) c (map fst ps) c" "seg (next_of h) (prev_of h) e (map fst qs) e"
    using assms(1) by (simp_all add: store_def)
  have "seg (next_of h') (prev_of h') c (map fst ps) c" by (rule seg_cong [OF s(1)]) (use assms(2) in auto)
  moreover have "seg (next_of h') (prev_of h') e (map fst qs) e" by (rule seg_cong [OF s(2)]) (use assms(2) in auto)
  moreover have "list_all (\<lambda>x. item_of h' (fst x) = Some (snd x)) (ps @ qs)"
    unfolding list_all_iff
  proof
    fix x assume x: "x \<in> set (ps @ qs)"
    then have "fst x \<in> set (map fst ps @ map fst qs)" by auto
    then have "item_of h' (fst x) = item_of h (fst x)" using assms(3) by blast
    then show "item_of h' (fst x) = Some (snd x)" using assms(1) x by (simp add: store_def list_all_iff)
  qed
  ultimately show ?thesis using assms(1) by (auto simp: store_def)
qed

lemma free_item_store:
  assumes "store h c ps e qs" and "item_of h x \<noteq> None" and "x \<notin> set (c # map fst ps @ e # map fst qs)"
  obtains h' where "free_item x h = Ret h'" and "store h' c ps e qs" and "item_of h' = (item_of h)(x := None)"
proof -
  let ?h = "h\<lparr>next_of := (next_of h)(x := None), prev_of := (prev_of h)(x := None), item_of := (item_of h)(x := None)\<rparr>"
  have "free_item x h = Ret ?h" using assms(2) by (simp add: free_item_def)
  moreover have "store ?h c ps e qs" by (rule store_cong [OF assms(1)]) (use assms(3) in auto)
  moreover have "item_of ?h = (item_of h)(x := None)" by simp
  ultimately show ?thesis by (rule that)
qed

lemma new_item_store:
  assumes "store h c ps e qs" and "next_of h x = None"
  shows "store (new_item x i h) c ps e qs" and "loose (new_item x i h) x"
    and "x \<notin> set (c # map fst ps @ e # map fst qs)"
proof -
  have "seg (next_of h) (prev_of h) c (map fst ps) c" "seg (next_of h) (prev_of h) e (map fst qs) e"
    using assms(1) by (simp_all add: store_def)
  from seg_dom [OF this(1)] seg_dom [OF this(2)]
  show x: "x \<notin> set (c # map fst ps @ e # map fst qs)" using assms(2) by auto
  show "store (new_item x i h) c ps e qs"
    by (rule store_cong [OF assms(1)]) (use x in \<open>auto simp: new_item_def\<close>)
qed (simp add: loose_def new_item_def)

lemma set_item_store:
  assumes "store h c (ps @ (x, i) # ps') e qs"
  shows "store (h\<lparr>item_of := (item_of h)(x \<mapsto> j)\<rparr>) c (ps @ (x, j) # ps') e qs"
proof -
  have other: "fst y \<noteq> x" if "y \<in> set (ps @ ps' @ qs)" for y
    using assms that by (auto simp: store_def dest: imageI [of _ _ fst])
  have "list_all (\<lambda>y. item_of h (fst y) = Some (snd y)) (ps @ ps' @ qs)" using assms by (simp add: store_def)
  then have "list_all (\<lambda>y. ((item_of h)(x \<mapsto> j)) (fst y) = Some (snd y)) (ps @ ps' @ qs)"
    using other by (auto simp: list_all_iff)
  then show ?thesis using assms by (simp add: store_def)
qed

lemma list_empty_store:
  assumes "store h c ps e qs" shows "list_empty c h = Ret (ps = [])"
proof (cases ps)
  case (Cons x ps')
  then have "next_of h c = Some (fst x)" "fst x \<noteq> c" using assms by (simp_all add: store_def)
  then show ?thesis by (simp add: list_empty_def get_next_def Cons)
qed (use assms in \<open>simp add: list_empty_def get_next_def store_def\<close>)

lemma list_empty_store2: "store h c ps e qs \<Longrightarrow> list_empty e h = Ret (qs = [])"
  using list_empty_store store_sym by blast

text \<open>Splicing the second list onto the first, and forgetting it.\<close>

lemma seg_concat:
  assumes "seg n p a xs b" and "seg n p d (y # ys) d" and "distinct (a # xs @ d # y # ys)" and "b \<notin> set (xs @ d # y # ys)"
  shows "seg (n(last (a # xs) \<mapsto> y, last (y # ys) \<mapsto> b)) (p(y \<mapsto> last (a # xs), b \<mapsto> last (y # ys))) a (xs @ y # ys) b"
  using assms by (cases xs rule: rev_cases; cases ys rule: rev_cases) (auto simp: fun_upd_twist)

lemma splice_store:
  assumes "store h c ps e qs" and "qs \<noteq> []"
  obtains h' where "rbind (list_splice_tail e c h) (INIT_LIST_HEAD e) = Ret h'" and "store h' c (ps @ qs) e []"
    and "item_of h' = item_of h"
proof -
  obtain y j qs' where qs: "qs = (y, j) # qs'" using assms(2) by (cases qs) auto
  obtain u where u: "u = last (c # map fst ps)" "prev_of h c = Some u" "next_of h u \<noteq> None"
    "u \<in> set (c # map fst ps)" "u \<notin> set (e # map fst qs)"
    using store_last [OF assms(1)] .
  define w where "w = last (y # map fst qs')"
  have w: "w \<in> set (map fst qs)" unfolding qs w_def by (metis last_in_set list.discI list.simps(9) fst_conv)
  have s: "seg (next_of h) (prev_of h) c (map fst ps) c" "seg (next_of h) (prev_of h) e (y # map fst qs') e"
    "distinct (c # map fst ps @ e # y # map fst qs')" "c \<notin> set (map fst ps @ e # y # map fst qs')"
    using assms(1) by (auto simp: store_def qs)
  have nb: "next_of h e = Some y" "prev_of h e = Some w" "prev_of h y = Some e" "w \<in> dom (next_of h)" "prev_of h c \<noteq> None"
    using s(2) seg_last [OF s(2)] seg_dom [OF s(2)] w u(2) by (auto simp: w_def qs)
  let ?h = "h\<lparr>next_of := (next_of h)(u \<mapsto> y, w \<mapsto> c, e \<mapsto> e), prev_of := (prev_of h)(y \<mapsto> u, c \<mapsto> w, e \<mapsto> e)\<rparr>"
  have ne: "y \<noteq> e" "y \<noteq> c" "w \<noteq> e" "c \<noteq> e" "u \<noteq> e" "w \<noteq> u" using s(3,4) u(4,5) w by (auto simp: qs)
  have "rbind (list_splice_tail e c h) (INIT_LIST_HEAD e) = Ret ?h"
    using nb u(2,3) ne
    by (auto simp: list_splice_tail_def list_splice0_def list_empty_def INIT_LIST_HEAD_def heap_defs)
  moreover have "store ?h c (ps @ qs) e []"
    unfolding store_def
  proof (intro conjI)
    have "e \<noteq> c" "e \<notin> set (map fst ps @ y # map fst qs')" using s(3) by auto
    then show "seg (next_of ?h) (prev_of ?h) c (map fst (ps @ qs)) c"
      using seg_concat [OF s, folded u(1) w_def] by (simp add: qs del: seg_append)
  qed (use assms in \<open>auto simp: store_def\<close>)
  moreover have "item_of ?h = item_of h" by simp
  ultimately show ?thesis by (rule that)
qed

section \<open>Building the lists\<close>

text \<open>\<open>config_lists_init\<close> starts with two empty lists, and each parser appends to one of them.\<close>

lemma config_lists_init_store:
  assumes "c \<noteq> e" and "{c, e} \<subseteq> dom (next_of h) \<inter> dom (prev_of h)"
  obtains h' where "config_lists_init c e h = Ret h'" and "store h' c [] e []" and "item_of h' = item_of h"
    and "dom (next_of h') = dom (next_of h)"
proof -
  let ?h = "h\<lparr>next_of := (next_of h)(c \<mapsto> c, e \<mapsto> e), prev_of := (prev_of h)(c \<mapsto> c, e \<mapsto> e)\<rparr>"
  have "config_lists_init c e h = Ret ?h"
    using assms by (auto simp: config_lists_init_def INIT_LIST_HEAD_def heap_defs)
  moreover have "store ?h c [] e []" using assms(1) by (simp add: store_def)
  ultimately show ?thesis using assms(2) by (intro that [of ?h]) auto
qed

lemma add_item_store:
  assumes "store h c ps e qs" and "next_of h x = None"
  obtains h' where "add_item x i c h = Ret h'" and "store h' c (ps @ [(x, i)]) e qs" and "item_of h' = (item_of h)(x \<mapsto> i)"
    and "dom (next_of h') = insert x (dom (next_of h))"
proof -
  have it: "item_of (new_item x i h) = (item_of h)(x \<mapsto> i)" by (simp add: new_item_def)
  then have "item_of (new_item x i h) x = Some i" by simp
  from list_add_tail_store [OF new_item_store(1,2) [OF assms] this new_item_store(3) [OF assms]]
  obtain h' where "list_add_tail x c (new_item x i h) = Ret h'" "store h' c (ps @ [(x, i)]) e qs"
      "item_of h' = item_of (new_item x i h)" "dom (next_of h') = dom (next_of (new_item x i h))" .
  then show ?thesis using that it by (simp add: add_item_def new_item_def)
qed

text \<open>A parser that appends item after item, each at a fresh address.\<close>

fun add_items :: "(ptr \<times> cfg_item) list \<Rightarrow> ptr \<Rightarrow> cfg_heap \<Rightarrow> cfg_heap res" where
  "add_items [] head h = Ret h"
| "add_items ((a, i) # xs) head h = rbind (add_item a i head h) (add_items xs head)"

lemma add_items_store:
  assumes "store h c ps e qs" and "distinct (map fst xs)" and "fst ` set xs \<inter> dom (next_of h) = {}"
  shows "\<exists>h'. add_items xs c h = Ret h' \<and> store h' c (ps @ xs) e qs \<and>
     dom (next_of h') = fst ` set xs \<union> dom (next_of h) \<and> (\<forall>a. a \<notin> fst ` set xs \<longrightarrow> item_of h' a = item_of h a)"
  using assms
proof (induction xs arbitrary: h ps)
  case (Cons x xs)
  obtain a i where x: "x = (a, i)" by (cases x)
  have "next_of h a = None" using Cons.prems(3) x by auto
  then obtain h1 where h1: "add_item a i c h = Ret h1" "store h1 c (ps @ [(a, i)]) e qs"
      "item_of h1 = (item_of h)(a \<mapsto> i)" "dom (next_of h1) = insert a (dom (next_of h))"
    using add_item_store [OF Cons.prems(1)] by blast
  have "distinct (map fst xs)" "fst ` set xs \<inter> dom (next_of h1) = {}"
    using Cons.prems(2,3) h1(4) by (auto simp: x)
  from Cons.IH [OF h1(2) this]
  show ?case using h1 by (auto simp: x)
qed simp

section \<open>Walking a list whose nodes may be removed\<close>

text \<open>An ending loop with the states it may end in, or undefined behaviour that the model shows too.\<close>

definition yields :: "cfg_heap res option \<Rightarrow> (cfg_heap \<Rightarrow> bool) \<Rightarrow> 'b res \<Rightarrow> bool" where
  "yields r Q d \<longleftrightarrow> (\<exists>h. r = Some (Ret h) \<and> Q h) \<or> r = Some Fault \<and> d = Fault"

lemma yields_Ret [simp]: "yields (Some (Ret h)) Q d \<longleftrightarrow> Q h"
  and yields_Fault [simp]: "yields (Some Fault) Q d \<longleftrightarrow> d = Fault"
  by (simp_all add: yields_def)

lemma yields_weaken: "yields r Q d \<Longrightarrow> (\<And>h. Q h \<Longrightarrow> Q' h) \<Longrightarrow> yields r Q' d"
  by (auto simp: yields_def)

text \<open>
  The contract of a body under \<open>list_for_each_safe\<close>: with the nodes still to visit linked up to
  the head, it keeps an invariant for the nodes behind it, and what the rest of the loop
  means (\<open>den\<close>) does not change. It may remove or free the node it is at.
\<close>

locale safe_walk =
  fixes body :: "ptr \<Rightarrow> cfg_heap \<Rightarrow> cfg_heap res option"
    and head :: ptr
    and visit :: "ptr list \<Rightarrow> 'a \<Rightarrow> cfg_heap \<Rightarrow> bool"
    and den :: "'a \<Rightarrow> 'b res"
  assumes link: "visit (x # xs) a h \<Longrightarrow> x \<noteq> head \<and> next_of h x = Some (hd (xs @ [head]))"
    and closed: "visit [] a h \<Longrightarrow> next_of h head \<noteq> None"
    and keeps: "visit (x # xs) a h \<Longrightarrow> yields (body x h) (\<lambda>h'. \<exists>a'. visit xs a' h' \<and> den a' = den a) (den a)"
begin

lemma next_defined: "visit xs a h \<Longrightarrow> \<exists>n. next_of h (hd (xs @ [head])) = Some n \<and> (xs \<noteq> [] \<longrightarrow> n = hd (tl xs @ [head]))"
  using link closed by (cases xs) fastforce+

lemma list_walk_yields:
  assumes "visit xs a h" and "xs \<noteq> [] \<longrightarrow> n = hd (tl xs @ [head])"
  shows "yields (list_walk body head (hd (xs @ [head])) n h) (\<lambda>h'. \<exists>a'. visit [] a' h' \<and> den a' = den a) (den a)"
  using assms
proof (induction xs arbitrary: a h n)
  case Nil
  then show ?case by (subst list_walk.simps) auto
next
  case (Cons x xs)
  have x: "x \<noteq> head" and n: "n = hd (xs @ [head])" using link [OF Cons.prems(1)] Cons.prems(2) by auto
  from keeps [OF Cons.prems(1)] consider
      h' a' where "body x h = Some (Ret h')" "visit xs a' h'" "den a' = den a"
    | "body x h = Some Fault" "den a = Fault"
    by (auto simp: yields_def)
  then show ?case
  proof cases
    case 1
    obtain n' where "next_of h' (hd (xs @ [head])) = Some n'" "xs \<noteq> [] \<longrightarrow> n' = hd (tl xs @ [head])"
      using next_defined [OF 1(2)] by blast
    then show ?thesis
      using Cons.IH [OF 1(2), of n'] 1 x by (subst list_walk.simps) (simp add: n get_next_def)
  qed (subst list_walk.simps, simp add: x)
qed

lemma for_each_yields:
  assumes "visit xs a h" and "next_of h head = Some (hd (xs @ [head]))"
  shows "yields (list_for_each_safe body head h) (\<lambda>h'. \<exists>a'. visit [] a' h' \<and> den a' = den a) (den a)"
proof -
  obtain n where "next_of h (hd (xs @ [head])) = Some n" "xs \<noteq> [] \<longrightarrow> n = hd (tl xs @ [head])"
    using next_defined [OF assms(1)] by blast
  then show ?thesis
    using list_walk_yields [OF assms(1), of n] assms(2) by (simp add: list_for_each_safe_def get_next_def)
qed

end

lemma store_next:
  assumes "store h c (ps @ (x, i) # ps') e qs"
  shows "x \<noteq> c" and "next_of h x = Some (hd (map fst ps' @ [c]))"
  using store_at [OF assms] assms by (auto simp: store_def)

section \<open>One extra item against the list of the file\<close>

text \<open>Taking the extra item out of the list it is in.\<close>

definition del_node :: "extra_place \<Rightarrow> 'a list \<Rightarrow> 'a list" where
  "del_node st passed = (case st of Placed k \<Rightarrow> take k passed @ drop (Suc k) passed | _ \<Rightarrow> passed)"

lemma map_del_node: "map snd (del_node st pp) = del_placed st (map snd pp)"
  by (simp add: del_node_def del_placed_def take_map drop_map split: extra_place.split)

text \<open>
  The items that are on neither list. That they stay the same is what is meant by not losing an
  item: one that leaves the lists is freed.
\<close>

definition outside :: "cfg_heap \<Rightarrow> (ptr \<times> cfg_item) list \<Rightarrow> ptr \<rightharpoonup> cfg_item" where
  "outside h ps = item_of h |` (- fst ` set ps)"

lemma outside_free:
  "item_of h' = (item_of h)(x := None) \<Longrightarrow> fst ` set ps = insert x (fst ` set ps') \<Longrightarrow> outside h' ps' = outside h ps"
  by (auto simp: outside_def restrict_map_def fun_eq_iff)

lemma outside_same: "item_of h' = item_of h \<Longrightarrow> fst ` set ps = fst ` set ps' \<Longrightarrow> outside h' ps' = outside h ps"
  by (simp add: outside_def)

lemma outside_set: "x \<in> fst ` set ps \<Longrightarrow> outside (h\<lparr>item_of := (item_of h)(x \<mapsto> i)\<rparr>) ps = outside h ps"
  by (auto simp: outside_def restrict_map_def fun_eq_iff)

definition extra_visit ::
  "ptr \<Rightarrow> ptr \<Rightarrow> ptr \<Rightarrow> cfg_item \<Rightarrow> (ptr \<times> cfg_item) list \<Rightarrow> (ptr \<times> cfg_item) list \<Rightarrow> (ptr \<rightharpoonup> cfg_item) \<Rightarrow> ptr list \<Rightarrow>
   extra_place \<times> (ptr \<times> cfg_item) list \<times> (ptr \<times> cfg_item) list \<Rightarrow> cfg_heap \<Rightarrow> bool" where
  "extra_visit c e ep extra dn td R xs a h \<longleftrightarrow>
     (case a of (st, pp, rs) \<Rightarrow>
        map fst rs = xs \<and> store h c (pp @ rs) e (dn @ (if st = Own then [(ep, extra)] else []) @ td) \<and>
        (\<forall>k. st = Placed k \<longrightarrow> k < length pp \<and> pp ! k = (ep, extra)) \<and> (st = Freed \<longrightarrow> item_of h ep = None) \<and>
        outside h (pp @ rs @ dn @ (if st = Own then [(ep, extra)] else []) @ td) = R)"

definition extra_den :: "cfg_item \<Rightarrow> extra_place \<times> (ptr \<times> cfg_item) list \<times> (ptr \<times> cfg_item) list \<Rightarrow>
    (extra_place \<times> cfg_item list) res" where
  "extra_den extra a = (case a of (st, pp, rs) \<Rightarrow> merge_scan extra st (map snd pp) (map snd rs))"

lemma extra_item:
  assumes "extra_visit c e ep extra dn td R xs (st, pp, rs) h" and "st \<noteq> Freed"
  shows "item_of h ep = Some extra"
proof -
  have "(ep, extra) \<in> set ((pp @ rs) @ dn @ (if st = Own then [(ep, extra)] else []) @ td)"
  proof (cases st)
    case (Placed k)
    then have "(ep, extra) \<in> set pp" using assms(1) by (auto simp: extra_visit_def in_set_conv_nth)
    then show ?thesis by simp
  qed (use assms(2) in auto)
  then show ?thesis
    using assms(1) by (fastforce simp: extra_visit_def store_def list_all_iff simp del: set_append)
qed

lemma extra_taken:
  assumes "extra_visit c e ep extra dn td R xs (st, pp, rs) h" and "st \<noteq> Freed"
  obtains h' where "list_del ep h = Ret h'" and "store h' c (del_node st pp @ rs) e (dn @ td)"
    and "item_of h' = item_of h" and "loose h' ep"
    and "ep \<notin> set (c # map fst (del_node st pp @ rs) @ e # map fst (dn @ td))"
    and "fst ` set (pp @ rs @ dn @ (if st = Own then [(ep, extra)] else []) @ td) = insert ep (fst ` set (del_node st pp @ rs @ dn @ td))"
proof (cases st)
  case Own
  then have s: "store h c (pp @ rs) e (dn @ (ep, extra) # td)" using assms(1) by (simp add: extra_visit_def)
  then have "store h e (dn @ (ep, extra) # td) c (pp @ rs)" by (simp only: store_sym)
  then obtain h' where h: "list_del ep h = Ret h'" "store h' e (dn @ td) c (pp @ rs)" "item_of h' = item_of h" "loose h' ep"
    using list_del_store by blast
  have "store h' c (pp @ rs) e (dn @ td)" using h(2) by (simp only: store_sym)
  moreover have "ep \<notin> set (c # map fst (pp @ rs) @ e # map fst (dn @ td))" using s by (auto simp: store_def)
  moreover have "fst ` set (pp @ rs @ dn @ [(ep, extra)] @ td) = insert ep (fst ` set (pp @ rs @ dn @ td))" by auto
  ultimately show ?thesis using h that by (simp add: Own del_node_def)
next
  case (Placed k)
  then have k: "k < length pp" "pp ! k = (ep, extra)" using assms(1) by (auto simp: extra_visit_def)
  then have pp: "take k pp @ (ep, extra) # drop (Suc k) pp = pp" using id_take_nth_drop [of k pp] by simp
  have "store h c ((take k pp @ (ep, extra) # drop (Suc k) pp) @ rs) e (dn @ td)"
    unfolding pp using assms(1) Placed by (simp add: extra_visit_def)
  then have s: "store h c (take k pp @ (ep, extra) # (drop (Suc k) pp @ rs)) e (dn @ td)" by simp
  then obtain h' where h: "list_del ep h = Ret h'" "store h' c (take k pp @ (drop (Suc k) pp @ rs)) e (dn @ td)"
      "item_of h' = item_of h" "loose h' ep"
    using list_del_store by blast
  have "ep \<notin> set (c # map fst (take k pp @ drop (Suc k) pp @ rs) @ e # map fst (dn @ td))"
    using s by (auto simp: store_def)
  moreover have "fst ` set pp = insert ep (fst ` set (take k pp) \<union> fst ` set (drop (Suc k) pp))"
    by (subst pp [symmetric]) (simp add: image_Un)
  then have "fst ` set (pp @ rs @ dn @ td) = insert ep (fst ` set (take k pp @ drop (Suc k) pp @ rs @ dn @ td))"
    unfolding set_append image_Un by blast
  ultimately show ?thesis using h that by (simp add: Placed del_node_def del: set_append)
qed (use assms(2) in simp)

text \<open>The three ways through the body: the extra item overrides in place, replaces, or passes on.\<close>

lemma set_item_visit:
  assumes "extra_visit c e ep extra dn td R xs (st, pp, (x, n) # rs) h"
    and "ep \<noteq> x"
  shows "extra_visit c e ep extra dn td R xs (st, pp, (x, n') # rs) (h\<lparr>item_of := (item_of h)(x \<mapsto> n')\<rparr>)"
proof -
  have "outside (h\<lparr>item_of := (item_of h)(x \<mapsto> n')\<rparr>) (pp @ ((x, n') # rs) @ dn @ (if st = Own then [(ep, extra)] else []) @ td) =
      outside h (pp @ ((x, n) # rs) @ dn @ (if st = Own then [(ep, extra)] else []) @ td)"
    by (subst outside_set) (auto simp: outside_def)
  then show ?thesis using assms set_item_store [of h c pp x n rs] by (auto simp: extra_visit_def)
qed

lemma extra_other:
  assumes "extra_visit c e ep extra dn td R xs (st, pp, (x, n) # rs) h" and "st \<noteq> Freed"
  shows "ep \<noteq> x" and "item_of h x = Some n" and "x \<noteq> c" and "next_of h x = Some (hd (map fst rs @ [c]))"
    and "x \<notin> set (c # map fst (del_node st pp @ rs) @ e # map fst (dn @ td))"
proof -
  have s: "store h c (pp @ (x, n) # rs) e (dn @ (if st = Own then [(ep, extra)] else []) @ td)"
    and k: "st = Placed k \<Longrightarrow> (ep, extra) \<in> set pp" for k
    using assms(1) by (auto simp: extra_visit_def in_set_conv_nth)
  have "set (del_node st pp) \<subseteq> set pp"
    by (auto simp: del_node_def split: extra_place.split dest: in_set_takeD in_set_dropD)
  then show "x \<notin> set (c # map fst (del_node st pp @ rs) @ e # map fst (dn @ td))"
    using s by (auto simp: store_def)
  show "item_of h x = Some n" using s by (simp add: store_def)
  show "x \<noteq> c" and "next_of h x = Some (hd (map fst rs @ [c]))" using store_next [OF s] .
  show "ep \<noteq> x"
  proof (cases st)
    case (Placed k)
    then have "ep \<in> fst ` set pp" using k by force
    then show ?thesis using s by (auto simp: store_def)
  qed (use s assms(2) in \<open>auto simp: store_def\<close>)
qed

lemma merge_at_override:
  assumes v: "extra_visit c e ep extra dn td R (x # xs) (st, pp, (x, n) # rs) h" and "st \<noteq> Freed"
    and "ci_offset extra = ci_offset n" and "ci_len extra < ci_len n"
    and "arr_slice (ci_data extra) 0 (unat (ci_len extra)) = Ret d" and "arr_put (ci_data n) 0 d = Ret d'"
  shows "\<exists>h'. merge_at ep x h = Ret h' \<and>
     extra_visit c e ep extra dn td R xs (Freed, del_node st pp @ [(x, n\<lparr>ci_data := d'\<rparr>)], rs) h'"
proof -
  note o1 = extra_other [OF v assms(2)]
  let ?h = "h\<lparr>item_of := (item_of h)(x \<mapsto> n\<lparr>ci_data := d'\<rparr>)\<rparr>"
  have "extra_visit c e ep extra dn td R (x # xs) (st, pp, (x, n\<lparr>ci_data := d'\<rparr>) # rs) ?h"
    by (rule set_item_visit [OF v]) (use o1(1) in simp)
  note v2 = this
  from extra_taken [OF this assms(2)]
  obtain h1 where h1: "list_del ep ?h = Ret h1" "store h1 c (del_node st pp @ (x, n\<lparr>ci_data := d'\<rparr>) # rs) e (dn @ td)"
      "loose h1 ep" and same: "item_of h1 = item_of ?h" and ep: "ep \<notin> set (c # map fst (del_node st pp @ (x, n\<lparr>ci_data := d'\<rparr>) # rs) @ e # map fst (dn @ td))"
      and ptrs: "fst ` set (pp @ ((x, n\<lparr>ci_data := d'\<rparr>) # rs) @ dn @ (if st = Own then [(ep, extra)] else []) @ td) =
        insert ep (fst ` set (del_node st pp @ ((x, n\<lparr>ci_data := d'\<rparr>) # rs) @ dn @ td))" .
  from h1(3) have "item_of h1 ep \<noteq> None" by (simp add: loose_def)
  then obtain h2 where h2: "free_item ep h1 = Ret h2"
      "store h2 c (del_node st pp @ (x, n\<lparr>ci_data := d'\<rparr>) # rs) e (dn @ td)" "item_of h2 = (item_of h1)(ep := None)"
    using free_item_store [OF h1(2) _ ep] by blast
  have "outside h2 (del_node st pp @ ((x, n\<lparr>ci_data := d'\<rparr>) # rs) @ dn @ td) =
      outside ?h (pp @ ((x, n\<lparr>ci_data := d'\<rparr>) # rs) @ dn @ (if st = Own then [(ep, extra)] else []) @ td)"
    by (rule outside_free [OF _ ptrs]) (simp add: h2(3) same)
  moreover have "merge_at ep x h = Ret h2"
    using assms(3-6) extra_item [OF v assms(2)] o1(2) h1(1) h2(1) by (simp add: merge_at_def get_item_def)
  ultimately show ?thesis using h2(2,3) v v2 by (auto simp: extra_visit_def)
qed

lemma merge_at_replace:
  assumes v: "extra_visit c e ep extra dn td R (x # xs) (st, pp, (x, n) # rs) h" and "st \<noteq> Freed"
    and "ci_offset extra = ci_offset n" and "\<not> ci_len extra < ci_len n"
  shows "\<exists>h'. merge_at ep x h = Ret h' \<and>
     extra_visit c e ep extra dn td R xs (Placed (length (del_node st pp)), del_node st pp @ [(ep, extra)], rs) h'"
proof -
  note o1 = extra_other [OF v assms(2)]
  from extra_taken [OF v assms(2)]
  obtain h1 where h1: "list_del ep h = Ret h1" "store h1 c (del_node st pp @ (x, n) # rs) e (dn @ td)"
      "item_of h1 = item_of h" "loose h1 ep" "ep \<notin> set (c # map fst (del_node st pp @ (x, n) # rs) @ e # map fst (dn @ td))"
      and ptrs: "fst ` set (pp @ ((x, n) # rs) @ dn @ (if st = Own then [(ep, extra)] else []) @ td) =
        insert ep (fst ` set (del_node st pp @ ((x, n) # rs) @ dn @ td))" .
  have "item_of h1 ep = Some extra" using h1(3) extra_item [OF v assms(2)] by simp
  from list_replace_store [OF h1(2,4) this h1(5)]
  obtain h2 where h2: "list_replace_init x ep h1 = Ret h2" "store h2 c (del_node st pp @ (ep, extra) # rs) e (dn @ td)"
      "item_of h2 = item_of h1" "loose h2 x" .
  from h2(4) have "item_of h2 x \<noteq> None" by (simp add: loose_def)
  moreover have "x \<notin> set (c # map fst (del_node st pp @ (ep, extra) # rs) @ e # map fst (dn @ td))"
    using o1(1,5) by auto
  ultimately obtain h3 where h3: "free_item x h2 = Ret h3" "store h3 c (del_node st pp @ (ep, extra) # rs) e (dn @ td)"
      "item_of h3 = (item_of h2)(x := None)"
    using free_item_store [OF h2(2)] by blast
  have "fst ` set (pp @ ((x, n) # rs) @ dn @ (if st = Own then [(ep, extra)] else []) @ td) =
      insert x (fst ` set (del_node st pp @ ((ep, extra) # rs) @ dn @ td))"
    unfolding ptrs by auto
  then have "outside h3 (del_node st pp @ ((ep, extra) # rs) @ dn @ td) =
      outside h (pp @ ((x, n) # rs) @ dn @ (if st = Own then [(ep, extra)] else []) @ td)"
    by (rule outside_free [rotated]) (simp add: h3(3) h2(3) h1(3))
  moreover have "merge_at ep x h = Ret h3"
    using assms(3,4) extra_item [OF v assms(2)] o1(2) h1(1) h2(1) h3(1) by (simp add: merge_at_def get_item_def)
  ultimately show ?thesis using h3(2) v by (auto simp: extra_visit_def nth_append)
qed

lemma merge_at_keeps:
  assumes v: "extra_visit c e ep extra dn td R (x # xs) a h"
  shows "yields (Some (merge_at ep x h)) (\<lambda>h'. \<exists>a'. extra_visit c e ep extra dn td R xs a' h' \<and> extra_den extra a' = extra_den extra a)
     (extra_den extra a)"
proof -
  obtain st pp n rs where a: "a = (st, pp, (x, n) # rs)" using v by (cases a) (auto simp: extra_visit_def)
  show ?thesis
  proof (cases "st = Freed")
    case True
    then have "item_of h ep = None" using v by (simp add: extra_visit_def a)
    then show ?thesis using True by (simp add: a merge_at_def get_item_def extra_den_def)
  next
    case nf: False
    note v' = v [unfolded a]
    note items = extra_item [OF v' nf] extra_other(2) [OF v' nf]
    show ?thesis
    proof (cases "ci_offset extra = ci_offset n \<and> ci_len extra < ci_len n")
      case short: True
      show ?thesis
      proof (cases "\<exists>d d'. arr_slice (ci_data extra) 0 (unat (ci_len extra)) = Ret d \<and> arr_put (ci_data n) 0 d = Ret d'")
        case True
        then obtain d d' where d: "arr_slice (ci_data extra) 0 (unat (ci_len extra)) = Ret d" "arr_put (ci_data n) 0 d = Ret d'"
          by blast
        obtain h' where h': "merge_at ep x h = Ret h'"
            "extra_visit c e ep extra dn td R xs (Freed, del_node st pp @ [(x, n\<lparr>ci_data := d'\<rparr>)], rs) h'"
          using merge_at_override [OF v' nf _ _ d] short by blast
        moreover have "extra_den extra (Freed, del_node st pp @ [(x, n\<lparr>ci_data := d'\<rparr>)], rs) = extra_den extra a"
          using nf short d by (simp add: extra_den_def a map_del_node)
        ultimately show ?thesis by auto
      next
        case False
        then show ?thesis using nf short items
          by (auto simp: a merge_at_def get_item_def extra_den_def arr_slice_def arr_put_def split: if_splits)
      qed
    next
      case long: False
      show ?thesis
      proof (cases "ci_offset extra = ci_offset n")
        case True
        obtain h' where h': "merge_at ep x h = Ret h'"
            "extra_visit c e ep extra dn td R xs (Placed (length (del_node st pp)), del_node st pp @ [(ep, extra)], rs) h'"
          using merge_at_replace [OF v' nf True] long True by blast
        moreover have "extra_den extra (Placed (length (del_node st pp)), del_node st pp @ [(ep, extra)], rs) = extra_den extra a"
          using nf long True
          by (simp add: extra_den_def a map_del_node Let_def flip: length_map [of snd "del_node st pp"])
        ultimately show ?thesis by auto
      next
        case False
        have "extra_visit c e ep extra dn td R xs (st, pp @ [(x, n)], rs) h"
          using v' by (auto simp: extra_visit_def nth_append)
        moreover have "merge_at ep x h = Ret h" using False items by (simp add: merge_at_def get_item_def)
        moreover have "extra_den extra (st, pp @ [(x, n)], rs) = extra_den extra a"
          using False nf by (simp add: extra_den_def a)
        ultimately show ?thesis by auto
      qed
    qed
  qed
qed

interpretation extra: safe_walk "\<lambda>pos h. Some (merge_at ep pos h)" c "extra_visit c e ep extra dn td R" "extra_den extra"
  for ep c e extra dn td R
proof
  fix x xs a h
  assume v: "extra_visit c e ep extra dn td R (x # xs) a h"
  then obtain st pp n rs where a: "a = (st, pp, (x, n) # rs)" by (cases a) (auto simp: extra_visit_def)
  then have "store h c (pp @ (x, n) # rs) e (dn @ (if st = Own then [(ep, extra)] else []) @ td)" "xs = map fst rs"
    using v by (auto simp: extra_visit_def)
  then show "x \<noteq> c \<and> next_of h x = Some (hd (xs @ [c]))" using store_next by blast
  show "yields (Some (merge_at ep x h)) (\<lambda>h'. \<exists>a'. extra_visit c e ep extra dn td R xs a' h' \<and> extra_den extra a' = extra_den extra a)
     (extra_den extra a)"
    by (rule merge_at_keeps [OF v])
next
  fix a h
  assume "extra_visit c e ep extra dn td R [] a h"
  then show "next_of h c \<noteq> None" using store_head by (cases a) (auto simp: extra_visit_def)
qed

section \<open>The merge\<close>

lemma merge_extra_yields:
  assumes "store h c ps e (dn @ (ep, extra) # td)"
  shows "yields (merge_extra c ep h)
     (\<lambda>h'. \<exists>st pp. store h' c pp e (dn @ (if st = Own then [(ep, extra)] else []) @ td) \<and>
        outside h' (pp @ dn @ (if st = Own then [(ep, extra)] else []) @ td) = outside h (ps @ dn @ (ep, extra) # td) \<and>
        merge_scan extra Own [] (map snd ps) = Ret (st, map snd pp))
     (merge_scan extra Own [] (map snd ps))"
proof -
  define R where "R = outside h (ps @ dn @ (ep, extra) # td)"
  have "extra_visit c e ep extra dn td R (map fst ps) (Own, [], ps) h" using assms by (simp add: extra_visit_def R_def)
  moreover have "next_of h c = Some (hd (map fst ps @ [c]))" using store_head [OF assms] ..
  ultimately have "yields (merge_extra c ep h)
     (\<lambda>h'. \<exists>a'. extra_visit c e ep extra dn td R [] a' h' \<and> extra_den extra a' = extra_den extra (Own, [], ps))
     (extra_den extra (Own, [], ps))"
    unfolding merge_extra_def by (rule extra.for_each_yields)
  moreover have "extra_den extra (Own, [], ps) = merge_scan extra Own [] (map snd ps)" by (simp add: extra_den_def)
  ultimately have "yields (merge_extra c ep h)
     (\<lambda>h'. \<exists>a'. extra_visit c e ep extra dn td R [] a' h' \<and> extra_den extra a' = merge_scan extra Own [] (map snd ps))
     (merge_scan extra Own [] (map snd ps))" by simp
  then show ?thesis
  proof (rule yields_weaken, elim exE conjE)
    fix h' a'
    assume a: "extra_visit c e ep extra dn td R [] a' h'" "extra_den extra a' = merge_scan extra Own [] (map snd ps)"
    obtain st pp where "a' = (st, pp, [])" using a(1) by (cases a') (auto simp: extra_visit_def)
    then show "\<exists>st pp. store h' c pp e (dn @ (if st = Own then [(ep, extra)] else []) @ td) \<and>
        outside h' (pp @ dn @ (if st = Own then [(ep, extra)] else []) @ td) = outside h (ps @ dn @ (ep, extra) # td) \<and>
        merge_scan extra Own [] (map snd ps) = Ret (st, map snd pp)"
      using a by (intro exI [of _ st] exI [of _ pp]) (simp add: extra_visit_def extra_den_def R_def)
  qed
qed

definition merge_visit ::
  "ptr \<Rightarrow> ptr \<Rightarrow> (ptr \<rightharpoonup> cfg_item) \<Rightarrow> ptr list \<Rightarrow> (ptr \<times> cfg_item) list \<times> (ptr \<times> cfg_item) list \<times> (ptr \<times> cfg_item) list \<Rightarrow> cfg_heap \<Rightarrow> bool" where
  "merge_visit c e R xs a h \<longleftrightarrow> (case a of (ps, dn, rs) \<Rightarrow>
     map fst rs = xs \<and> store h c ps e (dn @ rs) \<and> outside h (ps @ dn @ rs) = R)"

definition merge_den :: "(ptr \<times> cfg_item) list \<times> (ptr \<times> cfg_item) list \<times> (ptr \<times> cfg_item) list \<Rightarrow>
    (cfg_item list \<times> cfg_item list) res" where
  "merge_den a = (case a of (ps, dn, rs) \<Rightarrow>
     rbind (merge_each (map snd ps) (map snd rs)) (\<lambda>(ns, left). Ret (ns, map snd dn @ left)))"

interpretation extras: safe_walk "merge_extra c" e "merge_visit c e R" merge_den for c e R
proof
  fix x xs a h
  assume v: "merge_visit c e R (x # xs) a h"
  then obtain ps dn i rs where a: "a = (ps, dn, (x, i) # rs)" by (cases a) (auto simp: merge_visit_def)
  then have s: "store h c ps e (dn @ (x, i) # rs)" "xs = map fst rs" "outside h (ps @ dn @ (x, i) # rs) = R"
    using v by (auto simp: merge_visit_def)
  then have "store h e (dn @ (x, i) # rs) c ps" by (simp only: store_sym)
  then show "x \<noteq> e \<and> next_of h x = Some (hd (xs @ [e]))" using store_next s(2) by blast
  have "\<exists>a'. merge_visit c e R xs a' h' \<and> merge_den a' = merge_den a"
    if h': "store h' c pp e (dn @ (if st = Own then [(x, i)] else []) @ rs)" "outside h' (pp @ dn @ (if st = Own then [(x, i)] else []) @ rs) = outside h (ps @ dn @ (x, i) # rs)"
      "merge_scan i Own [] (map snd ps) = Ret (st, map snd pp)"
    for h' st pp
    using that s(2,3)
    by (intro exI [of _ "(pp, dn @ (if st = Own then [(x, i)] else []), rs)"])
      (auto simp: merge_visit_def merge_den_def a rbind_assoc split: prod.splits intro!: arg_cong2 [of _ _ _ _ rbind])
  then show "yields (merge_extra c x h) (\<lambda>h'. \<exists>a'. merge_visit c e R xs a' h' \<and> merge_den a' = merge_den a) (merge_den a)"
    using merge_extra_yields [OF s(1)] by (auto simp: yields_def merge_den_def a)
next
  fix a h
  assume "merge_visit c e R [] a h"
  then show "next_of h e \<noteq> None" using store_head store_sym by (cases a) (fastforce simp: merge_visit_def)
qed

text \<open>The items that found no counterpart move to the end of the first list.\<close>

definition move_visit ::
  "ptr \<Rightarrow> ptr \<Rightarrow> (ptr \<rightharpoonup> cfg_item) \<Rightarrow> ptr list \<Rightarrow> (ptr \<times> cfg_item) list \<times> (ptr \<times> cfg_item) list \<Rightarrow> cfg_heap \<Rightarrow> bool" where
  "move_visit c e R xs a h \<longleftrightarrow> map fst (snd a) = xs \<and> store h c (fst a) e (snd a) \<and> outside h (fst a @ snd a) = R"

lemma move_item_store:
  assumes "store h c ps e ((x, i) # rs)"
  obtains h' where "move_item c x h = Ret h'" and "store h' c (ps @ [(x, i)]) e rs" and "item_of h' = item_of h"
proof -
  have "store h e ([] @ (x, i) # rs) c ps" using assms by (simp add: store_sym)
  then obtain h1 where h1: "list_del x h = Ret h1" "store h1 e ([] @ rs) c ps" "item_of h1 = item_of h" "loose h1 x"
    using list_del_store by blast
  have "store h1 c ps e rs" using h1(2) by (simp add: store_sym)
  moreover have "item_of h1 x = Some i" "x \<notin> set (c # map fst ps @ e # map fst rs)"
    using assms h1(3) by (auto simp: store_def)
  ultimately obtain h2 where h2: "list_add_tail x c h1 = Ret h2" "store h2 c (ps @ [(x, i)]) e rs" "item_of h2 = item_of h1"
    by (rule list_add_tail_store [OF _ h1(4)])
  show ?thesis by (rule that [of h2]) (use h1(1,3) h2 in \<open>simp_all add: move_item_def\<close>)
qed

interpretation rest: safe_walk "\<lambda>epos h. Some (move_item c epos h)" e "move_visit c e R" "\<lambda>a. Ret (map snd (fst a @ snd a))"
  for c e R
proof
  fix x xs a h
  assume v: "move_visit c e R (x # xs) a h"
  then obtain ps i rs where a: "a = (ps, (x, i) # rs)" by (cases a) (auto simp: move_visit_def)
  then have s: "store h c ps e ((x, i) # rs)" "xs = map fst rs" "outside h (ps @ (x, i) # rs) = R"
    using v by (auto simp: move_visit_def)
  then have "store h e ([] @ (x, i) # rs) c ps" by (simp add: store_sym)
  then show "x \<noteq> e \<and> next_of h x = Some (hd (xs @ [e]))" using store_next s(2) by blast
  obtain h' where h': "move_item c x h = Ret h'" "store h' c (ps @ [(x, i)]) e rs" "item_of h' = item_of h"
    using move_item_store [OF s(1)] .
  then have "outside h' ((ps @ [(x, i)]) @ rs) = R"
    using s(3) outside_same [OF h'(3), of "ps @ (x, i) # rs" "(ps @ [(x, i)]) @ rs"] by simp
  then show "yields (Some (move_item c x h)) (\<lambda>h'. \<exists>a'. move_visit c e R xs a' h' \<and>
      (Ret (map snd (fst a' @ snd a')) :: cfg_item list res) = Ret (map snd (fst a @ snd a)))
      (Ret (map snd (fst a @ snd a)))"
    using s(2) h'(1,2) by (simp add: a move_visit_def, intro exI [of _ "ps @ [(x, i)]"] exI [of _ rs], simp)
next
  fix a h
  assume "move_visit c e R [] a h"
  then show "next_of h e \<noteq> None" using store_head store_sym by (fastforce simp: move_visit_def)
qed

lemma rest_moved:
  assumes "store h c ps e qs"
  shows "\<exists>h' ps'. (if qs = [] then Some (Ret h) else list_for_each_safe (\<lambda>epos h. Some (move_item c epos h)) e h) = Some (Ret h') \<and>
     store h' c ps' e [] \<and> map snd ps @ map snd qs = map snd ps' \<and> outside h' ps' = outside h (ps @ qs)"
proof (cases "qs = []")
  case False
  define R where "R = outside h (ps @ qs)"
  have "move_visit c e R (map fst qs) (ps, qs) h" using assms by (simp add: move_visit_def R_def)
  moreover have "next_of h e = Some (hd (map fst qs @ [e]))" using store_head assms store_sym by blast
  ultimately have "yields (list_for_each_safe (\<lambda>epos h. Some (move_item c epos h)) e h)
     (\<lambda>h'. \<exists>a'. move_visit c e R [] a' h' \<and> (Ret (map snd (fst a' @ snd a')) :: cfg_item list res) = Ret (map snd (ps @ qs)))
     (Ret (map snd (ps @ qs)))"
    using rest.for_each_yields [of c e R "map fst qs" "(ps, qs)" h] by simp
  then show ?thesis using False by (fastforce simp: yields_def move_visit_def R_def)
qed (use assms in auto)

text \<open>Both lists at once, through the three branches of the function.\<close>

lemma merge_links_yields:
  assumes "store h c ps e qs"
  shows "yields (merge_links c e h)
     (\<lambda>h'. \<exists>ps' qs'. store h' c ps' e qs' \<and> outside h' (ps' @ qs') = outside h (ps @ qs) \<and>
        merge_configs (map snd ps) (map snd qs) = Ret (map snd ps', map snd qs'))
     (merge_configs (map snd ps) (map snd qs))"
proof -
  have e: "list_empty c h = Ret (ps = [])" "list_empty e h = Ret (qs = [])"
    using list_empty_store assms store_sym by blast+
  consider "qs = []" | "qs \<noteq> []" "ps = []" | "qs \<noteq> []" "ps \<noteq> []" by blast
  then show ?thesis
  proof cases
    case 1
    then show ?thesis using assms e
      by (simp add: merge_links_def merge_configs_def) blast
  next
    case 2
    obtain h' where "rbind (list_splice_tail e c h) (INIT_LIST_HEAD e) = Ret h'" "store h' c (ps @ qs) e []"
        "item_of h' = item_of h"
      using splice_store [OF assms 2(1)] .
    moreover from this have "outside h' (ps @ qs) = outside h (ps @ qs)" by (simp add: outside_def)
    ultimately show ?thesis using 2 e
      by (auto simp: merge_links_def merge_configs_def simp del: rbind_eq_Ret intro!: exI [of _ qs])
  next
    case 3
    define R where "R = outside h (ps @ qs)"
    have "merge_visit c e R (map fst qs) (ps, [], qs) h" using assms by (simp add: merge_visit_def R_def)
    moreover have "next_of h e = Some (hd (map fst qs @ [e]))" using store_head assms store_sym by blast
    ultimately have walk: "yields (list_for_each_safe (merge_extra c) e h)
       (\<lambda>h'. \<exists>a'. merge_visit c e R [] a' h' \<and> merge_den a' = merge_den (ps, [], qs)) (merge_den (ps, [], qs))"
      by (rule extras.for_each_yields)
    have den: "merge_den (ps, [], qs) = merge_each (map snd ps) (map snd qs)"
      by (simp add: merge_den_def)
    from walk consider
        h1 pp dn where "list_for_each_safe (merge_extra c) e h = Some (Ret h1)" "store h1 c pp e dn" "outside h1 (pp @ dn) = outside h (ps @ qs)"
          "merge_each (map snd ps) (map snd qs) = Ret (map snd pp, map snd dn)"
      | "list_for_each_safe (merge_extra c) e h = Some Fault" "merge_each (map snd ps) (map snd qs) = Fault"
      unfolding den by (fastforce simp: yields_def merge_visit_def merge_den_def R_def)
    then show ?thesis
    proof cases
      case 1
      have "list_empty e h1 = Ret (dn = [])" using 1(2) list_empty_store store_sym by blast
      then show ?thesis
        using 3 e 1 rest_moved [OF 1(2)] by (auto simp: merge_links_def merge_configs_def yields_def)
    qed (use 3 e in \<open>simp add: merge_links_def merge_configs_def\<close>)
  qed
qed

section \<open>Releasing the lists\<close>

text \<open>
  \<open>config_lists_free\<close> walks the first list while the head of the second, spliced away, still
  points into it; \<open>heal\<close> is the heap in which that head is closed.
\<close>

definition heal :: "ptr \<Rightarrow> cfg_heap \<Rightarrow> cfg_heap" where
  "heal e h = h\<lparr>next_of := (next_of h)(e \<mapsto> e), prev_of := (prev_of h)(e \<mapsto> e)\<rparr>"

lemma item_of_heal [simp]: "item_of (heal e h) = item_of h"
  by (simp add: heal_def)

definition free_visit ::
  "ptr \<Rightarrow> ptr \<Rightarrow> (ptr \<rightharpoonup> cfg_item) \<Rightarrow> ptr list \<Rightarrow> ptr set \<times> (ptr \<times> cfg_item) list \<Rightarrow> cfg_heap \<Rightarrow> bool" where
  "free_visit c e it xs a h \<longleftrightarrow> map fst (snd a) = xs \<and> store (heal e h) c (snd a) e [] \<and>
     e \<in> dom (next_of h) \<inter> dom (prev_of h) \<and> item_of h = it |` (- fst a)"

lemma free_at_Ret:
  assumes "prev_of h x = Some u" and "next_of h x = Some v" and "next_of h u \<noteq> None" and "prev_of h v \<noteq> None"
    and "item_of h x \<noteq> None"
  shows "free_at x h = Ret (h\<lparr>next_of := (next_of h)(u \<mapsto> v, x := None), prev_of := (prev_of h)(v \<mapsto> u, x := None),
     item_of := (item_of h)(x := None)\<rparr>)"
  using list_del_Ret [OF assms(1-4)] assms(5) by (simp add: free_at_def free_item_def)

lemma free_at_store:
  assumes s: "store (heal e h) c ((x, i) # rs) e []" and e: "e \<in> dom (next_of h) \<inter> dom (prev_of h)"
  obtains h' where "free_at x h = Ret h'" and "store (heal e h') c rs e []"
    and "e \<in> dom (next_of h') \<inter> dom (prev_of h')" and "item_of h' = (item_of h)(x := None)"
proof -
  let ?m = "heal e h"
  have s': "store ?m c ([] @ (x, i) # rs) e []" using s by simp
  obtain u v where nb: "prev_of ?m x = Some u" "next_of ?m x = Some v" "next_of ?m u = Some x" "prev_of ?m v = Some x"
    and ne: "{u, v, x} \<inter> set (e # map fst ([] :: (ptr \<times> cfg_item) list)) = {}"
    using store_at [OF s'] .
  have ne: "u \<noteq> e" "v \<noteq> e" "x \<noteq> e" using ne by auto
  then have nb': "prev_of h x = Some u" "next_of h x = Some v" "next_of h u = Some x" "prev_of h v = Some x"
    using nb by (auto simp: heal_def)
  have i: "item_of h x = Some i" using s by (simp add: store_def)
  let ?upd = "\<lambda>h. h\<lparr>next_of := (next_of h)(u \<mapsto> v, x := None), prev_of := (prev_of h)(v \<mapsto> u, x := None),
     item_of := (item_of h)(x := None)\<rparr>"
  obtain h1 where h1: "list_del x ?m = Ret h1" "store h1 c ([] @ rs) e []" "item_of h1 = item_of ?m" "loose h1 x"
    using list_del_store [OF s'] .
  have "x \<notin> set (c # map fst rs @ e # map fst [])" using s by (auto simp: store_def)
  moreover have "item_of h1 x \<noteq> None" "store h1 c rs e []" using h1 i by simp_all
  ultimately obtain h2 where h2: "free_item x h1 = Ret h2" "store h2 c rs e []"
    using free_item_store by blast
  have "free_at x ?m = Ret (?upd ?m)" by (rule free_at_Ret) (use nb i in simp_all)
  then have "h2 = ?upd ?m" using h1(1) h2(1) by (simp add: free_at_def)
  moreover have "?upd ?m = heal e (?upd h)" using ne by (simp add: heal_def fun_eq_iff)
  ultimately have "store (heal e (?upd h)) c rs e []" using h2(2) by simp
  moreover have "free_at x h = Ret (?upd h)" by (rule free_at_Ret) (use nb' i in simp_all)
  ultimately show ?thesis using e ne by (intro that [of "?upd h"]) auto
qed

interpretation frees: safe_walk "\<lambda>a h. Some (free_at a h)" c "free_visit c e it"
    "\<lambda>a. Ret (fst a \<union> fst ` set (snd a))" for c e it
proof
  fix x xs a h
  assume v: "free_visit c e it (x # xs) a h"
  then obtain D i rs where a: "a = (D, (x, i) # rs)" by (cases a) (auto simp: free_visit_def)
  then have s: "store (heal e h) c ((x, i) # rs) e []" "xs = map fst rs" "item_of h = it |` (- D)"
      "e \<in> dom (next_of h) \<inter> dom (prev_of h)"
    using v by (auto simp: free_visit_def)
  have "x \<noteq> c" "next_of (heal e h) x = Some (hd (map fst rs @ [c]))" "x \<noteq> e"
    using store_next [of "heal e h" c "[]" x i rs e "[]"] s(1) by (auto simp: store_def)
  then show "x \<noteq> c \<and> next_of h x = Some (hd (xs @ [c]))" using s(2) by (simp add: heal_def)
  obtain h' where h': "free_at x h = Ret h'" "store (heal e h') c rs e []" "e \<in> dom (next_of h') \<inter> dom (prev_of h')"
      "item_of h' = (item_of h)(x := None)"
    using free_at_store [OF s(1,4)] .
  have "free_visit c e it xs (insert x D, rs) h'"
    using h'(2-4) s(2,3) by (auto simp: free_visit_def restrict_map_def fun_eq_iff)
  then show "yields (Some (free_at x h)) (\<lambda>h'. \<exists>a'. free_visit c e it xs a' h' \<and>
      (Ret (fst a' \<union> fst ` set (snd a')) :: ptr set res) = Ret (fst a \<union> fst ` set (snd a)))
      (Ret (fst a \<union> fst ` set (snd a)))"
    using h'(1) by (simp only: yields_Ret, intro exI [of _ "(insert x D, rs)"]) (simp add: a)
next
  fix a h
  assume "free_visit c e it [] a h"
  then have "next_of (heal e h) c \<noteq> None" "c \<noteq> e" using store_head by (fastforce simp: free_visit_def store_def)+
  then show "next_of h c \<noteq> None" by (simp add: heal_def)
qed

lemma splice_heal:
  assumes "store h c ps e qs"
  obtains h' where "rbind (list_empty e h) (\<lambda>b. if \<not> b then list_splice_tail e c h else Ret h) = Ret h'"
    and "store (heal e h') c (ps @ qs) e []" and "e \<in> dom (next_of h') \<inter> dom (prev_of h')" and "item_of h' = item_of h"
proof (cases "qs = []")
  case True
  then have "next_of h e = Some e" "prev_of h e = Some e" using assms by (simp_all add: store_def)
  moreover from this have "heal e h = h" by (simp add: heal_def fun_upd_idem)
  ultimately show ?thesis
    using that [of h] assms True list_empty_store2 [OF assms] by (simp add: dom_def)
next
  case False
  obtain h' where "rbind (list_splice_tail e c h) (INIT_LIST_HEAD e) = Ret h'"
    and h': "store h' c (ps @ qs) e []" "item_of h' = item_of h"
    using splice_store [OF assms False] .
  then obtain h1 where h1: "list_splice_tail e c h = Ret h1" "INIT_LIST_HEAD e h1 = Ret h'" by auto
  then have m: "h' = heal e h1" "e \<in> dom (next_of h1) \<inter> dom (prev_of h1)"
    by (auto simp: INIT_LIST_HEAD_def heap_defs heal_def split: if_splits)
  have "list_empty e h = Ret False" using list_empty_store2 [OF assms] False by simp
  then show ?thesis using that [of h1] h1(1) h' m by simp
qed

lemma init_heal:
  assumes "store (heal e h) c ps e qs" and "e \<in> dom (next_of h) \<inter> dom (prev_of h)"
  obtains h' where "config_lists_init c e h = Ret h'" and "store h' c [] e []" and "item_of h' = item_of h"
proof (rule config_lists_init_store [of c e h])
  show c: "c \<noteq> e" using assms(1) by (simp add: store_def)
  then show "{c, e} \<subseteq> dom (next_of h) \<inter> dom (prev_of h)"
    using store_head [OF assms(1)] assms(2) by (auto simp: heal_def)
qed (rule that)

text \<open>\<open>config_lists_free\<close> empties both lists and frees exactly their items, each once.\<close>

lemma free_lists:
  assumes "store h c ps e qs"
  shows "\<exists>h'. config_lists_free c e h = Some (Ret h') \<and> store h' c [] e [] \<and> item_of h' = outside h (ps @ qs)"
proof -
  obtain h1 where h1: "rbind (list_empty e h) (\<lambda>b. if \<not> b then list_splice_tail e c h else Ret h) = Ret h1"
      "store (heal e h1) c (ps @ qs) e []" "e \<in> dom (next_of h1) \<inter> dom (prev_of h1)" "item_of h1 = item_of h"
    using splice_heal [OF assms] .
  have "free_visit c e (item_of h) (map fst (ps @ qs)) ({}, ps @ qs) h1"
    using h1(2-4) by (simp add: free_visit_def restrict_map_def)
  moreover have "next_of h1 c = Some (hd (map fst (ps @ qs) @ [c]))"
    using store_head [OF h1(2)] assms by (auto simp: heal_def store_def split: if_splits)
  ultimately have "yields (list_for_each_safe (\<lambda>a h. Some (free_at a h)) c h1)
     (\<lambda>h'. \<exists>a'. free_visit c e (item_of h) [] a' h' \<and>
        (Ret (fst a' \<union> fst ` set (snd a')) :: ptr set res) = Ret (fst ({} :: ptr set, ps @ qs) \<union> fst ` set (snd ({} :: ptr set, ps @ qs))))
     (Ret (fst ({} :: ptr set, ps @ qs) \<union> fst ` set (snd ({} :: ptr set, ps @ qs))) :: ptr set res)"
    by (rule frees.for_each_yields)
  then obtain h2 D where h2: "list_for_each_safe (\<lambda>a h. Some (free_at a h)) c h1 = Some (Ret h2)"
      "free_visit c e (item_of h) [] (D, []) h2" "D = fst ` set (ps @ qs)"
    by (auto simp: yields_def free_visit_def)
  then have "store (heal e h2) c [] e []" "e \<in> dom (next_of h2) \<inter> dom (prev_of h2)" "item_of h2 = item_of h |` (- D)"
    by (auto simp: free_visit_def)
  from init_heal [OF this(1,2)] this(3)
  obtain h3 where "config_lists_init c e h2 = Ret h3" "store h3 c [] e []" "item_of h3 = item_of h |` (- D)" by metis
  then show ?thesis using h1(1) h2(1,3) by (simp add: config_lists_free_def outside_def del: rbind_eq_Ret)
qed

section \<open>Properties\<close>

text \<open>
  Claim C6. On every heap that holds the two lists, \<open>merge_configs\<close> on the pointers ends, and does
  exactly what the model on sequences says: it returns with the heap holding the two resulting
  sequences and every other item as it was (so that what left the lists was freed), or it uses freed memory when, and only when, the sequences say so.
\<close>
theorem merge_links_refines:
  assumes "store h c ps e qs"
  shows "case merge_configs (map snd ps) (map snd qs) of
       Ret (ns, es) \<Rightarrow> \<exists>h' ps' qs'. merge_links c e h = Some (Ret h') \<and> store h' c ps' e qs' \<and>
          map snd ps' = ns \<and> map snd qs' = es \<and> outside h' (ps' @ qs') = outside h (ps @ qs)
     | m \<Rightarrow> m = Fault \<and> merge_links c e h = Some Fault"
  using merge_links_yields [OF assms] by (fastforce simp: yields_def)


text \<open>A heap with one item on each list.\<close>

definition demo_links :: cfg_heap where
  "demo_links = \<lparr>next_of = [1 \<mapsto> 3, 3 \<mapsto> 1, 2 \<mapsto> 4, 4 \<mapsto> 2], prev_of = [1 \<mapsto> 3, 3 \<mapsto> 1, 2 \<mapsto> 4, 4 \<mapsto> 2],
     item_of = [3 \<mapsto> \<lparr>ci_offset = 0x30, ci_len = 1, ci_data = [1]\<rparr>, 4 \<mapsto> \<lparr>ci_offset = 0x30, ci_len = 2, ci_data = [4, 5]\<rparr>]\<rparr>"

lemma demo_store: "store demo_links 1 [(3, \<lparr>ci_offset = 0x30, ci_len = 1, ci_data = [1]\<rparr>)]
    2 [(4, \<lparr>ci_offset = 0x30, ci_len = 2, ci_data = [4, 5]\<rparr>)]"
  by (simp add: store_def demo_links_def)

lemma merge_links_refines_witness:
  "\<exists>h' ps' qs'. merge_links 1 2 demo_links = Some (Ret h') \<and> store h' 1 ps' 2 qs' \<and>
     map snd ps' = [\<lparr>ci_offset = 0x30, ci_len = 2, ci_data = [4, 5]\<rparr>] \<and> map snd qs' = [] \<and>
     outside h' (ps' @ qs') = outside demo_links ([(3, \<lparr>ci_offset = 0x30, ci_len = 1, ci_data = [1]\<rparr>)] @
       [(4, \<lparr>ci_offset = 0x30, ci_len = 2, ci_data = [4, 5]\<rparr>)])"
  using merge_links_refines [OF demo_store]
  by (simp add: merge_configs_def del_placed_def)


end
