(* ===== verification/Vendor_Storage.thy ===== *)
theory Vendor_Storage
  imports Cfg_File C_Lib
begin

text \<open>
  The other build of rtb_fwc.c, with \<open>BT_ADDR_FROM_VENDOR_STORAGE\<close>: the device address comes from
  the vendor storage of the board instead of a file, and a random one is stored when it has none.
  The storage driver is a parameter.
\<close>

section \<open>The storage device\<close>

definition VENDOR_REQ_TAG :: u32 where "VENDOR_REQ_TAG = 0x56524551"

definition vendor_id_table :: "string list" where
  "vendor_id_table = [''VENDOR_SN_ID'', ''VENDOR_WIFI_MAC_ID'', ''VENDOR_LAN_MAC_ID'', ''VENDOR_BT_MAC_ID'', ''VENDOR_IMEI_ID'']"

definition VENDOR_SN_ID :: u16 where "VENDOR_SN_ID = 1"
definition VENDOR_BT_MAC_ID :: u16 where "VENDOR_BT_MAC_ID = 4"
definition VENDOR_IMEI_ID :: u16 where "VENDOR_IMEI_ID = 5"

text \<open>
  A \<open>struct rk_vendor_req\<close> laid over the array \<open>p_buf\<close> of 100 bytes, which leaves 92 bytes for
  its data.
\<close>

record rk_vendor_req =
  vr_tag :: u32
  vr_id :: u16
  vr_len :: u16
  vr_data :: bytes

definition P_BUF_DATA :: nat where "P_BUF_DATA = 92"

text \<open>Whether the device opens, and what its two requests answer.\<close>

record vendor_dev =
  dv_open :: bool
  dv_read :: "rk_vendor_req \<Rightarrow> int \<times> rk_vendor_req"
  dv_write :: "rk_vendor_req \<Rightarrow> int"

text \<open>What the calls leave: the requests written to the device, and the line that is printed.\<close>

record vendor_out =
  vo_written :: "rk_vendor_req list"
  vo_stdout :: string

section \<open>The code\<close>

text \<open>\<open>rtk_get_ram_addr\<close> takes the low byte of a random number; four of them make an address.\<close>

definition rknand_get_randeom_btaddr :: "u32 list \<Rightarrow> bytes" where
  "rknand_get_randeom_btaddr rs = map (\<lambda>i. if i < length rs then ucast (rs ! i) else 0) [0..<4] @ [0x22, 0x22]"

text \<open>
  \<open>rknand_print_hex_data\<close>: the counter is an \<open>unsigned char\<close>, but the data ends before it can wrap.
\<close>

fun print_data :: "bool \<Rightarrow> nat \<Rightarrow> bytes \<Rightarrow> string res" where
  "print_data text n [] = check (n = 0) (Ret [])"
| "print_data text n (b # bs) =
     (if n = 0 then Ret []
      else rbind (print_data text (n - 1) bs) (\<lambda>r.
        Ret ((if text then [char_of (unat b)] else hexw 2 (unat b)) @ r)))"

definition rknand_print_hex_data :: "rk_vendor_req \<Rightarrow> nat \<Rightarrow> string res" where
  "rknand_print_hex_data req len =
     check (1 \<le> vr_id req \<and> vr_id req \<le> 5) (
     rbind (print_data (vr_id req \<in> {VENDOR_SN_ID, VENDOR_IMEI_ID}) len (vr_data req)) (\<lambda>r.
       Ret (vendor_id_table ! (unat (vr_id req) - 1) @ '': '' @ r @ [CHR 0x0A])))"

definition vendor_storage_read :: "vendor_dev \<Rightarrow> u16 \<Rightarrow> bytes \<Rightarrow> (int \<times> bytes \<times> string) res" where
  "vendor_storage_read dev cmd buf =
     (if \<not> dv_open dev then Ret (-1, buf, []) else
      case dv_read dev \<lparr>vr_tag = VENDOR_REQ_TAG, vr_id = cmd, vr_len = 50, vr_data = replicate P_BUF_DATA 0\<rparr> of
        (ret, req) \<Rightarrow>
          if ret \<noteq> 0 then Ret (-1, buf, []) else
          rbind (rknand_print_hex_data req (unat (vr_len req))) (\<lambda>out.
          rbind (arr_slice (vr_data req) 0 (unat (vr_len req))) (\<lambda>d.
          rbind (arr_put buf 0 d) (\<lambda>buf.
            Ret (int (unat (vr_len req)), buf, out)))))"

text \<open>\<open>junk\<close> is what the array \<open>p_buf\<close>, which is not cleared here, holds behind the request.\<close>

definition vendor_storage_write :: "vendor_dev \<Rightarrow> u16 \<Rightarrow> bytes \<Rightarrow> bytes \<Rightarrow> (int \<times> vendor_out) res" where
  "vendor_storage_write dev cmd num junk =
     (if \<not> dv_open dev then Ret (-1, \<lparr>vo_written = [], vo_stdout = []\<rparr>) else
      rbind (if cmd \<noteq> VENDOR_SN_ID \<and> cmd \<noteq> VENDOR_IMEI_ID then Ret 6
             else check (0 \<in> set num) (Ret (of_nat (length (c_str num))))) (\<lambda>len :: u16.
      rbind (arr_slice num 0 (unat len)) (\<lambda>d.
      rbind (arr_put junk 0 d) (\<lambda>data.
      let req = \<lparr>vr_tag = VENDOR_REQ_TAG, vr_id = cmd, vr_len = len, vr_data = data\<rparr>
      in if dv_write dev req \<noteq> 0 then Ret (-1, \<lparr>vo_written = [req], vo_stdout = []\<rparr>)
         else rbind (rknand_print_hex_data req (unat len)) (\<lambda>out.
           Ret (0, \<lparr>vo_written = [req], vo_stdout = out\<rparr>))))))"

text \<open>The loop of \<open>sprintf\<close>s: each writes two digits, a colon and the end of the string.\<close>

definition hexl :: "nat \<Rightarrow> u8" where
  "hexl n = (if n < 10 then of_nat (48 + n) else of_nat (87 + n))"

fun put_octets :: "nat \<Rightarrow> bytes \<Rightarrow> bytes \<Rightarrow> bytes res" where
  "put_octets i [] tbuf = Ret tbuf"
| "put_octets i (b # bs) tbuf =
     rbind (arr_put tbuf (i * 3) [hexl (unat b div 16), hexl (unat b mod 16), 58, 0]) (put_octets (Suc i) bs)"

definition vendor_storage_read_bt_addr :: "vendor_dev \<Rightarrow> bytes \<Rightarrow> (int \<times> bytes \<times> string) res" where
  "vendor_storage_read_bt_addr dev tbuf =
     rbind (vendor_storage_read dev VENDOR_BT_MAC_ID (replicate 100 0)) (\<lambda>(raw_len, raw_buf, out).
     if raw_len < 0 then Ret (-1, tbuf, out) else
     rbind (put_octets 0 (take 6 raw_buf) tbuf) (\<lambda>tbuf.
     rbind (arr_put tbuf 17 [0]) (\<lambda>tbuf.
       Ret (17, tbuf, out))))"

definition vendor_storage_write_bt_addr :: "vendor_dev \<Rightarrow> bytes \<Rightarrow> bytes \<Rightarrow> (int \<times> vendor_out) res" where
  "vendor_storage_write_bt_addr dev tbuf junk = vendor_storage_write dev VENDOR_BT_MAC_ID tbuf junk"

text \<open>
  The block of \<open>rtb_read_config\<close> for this build, with the array \<open>tbuf\<close> as an argument: the extra
  items and the requests written.
\<close>

definition vendor_bdaddr ::
  "vendor_dev \<Rightarrow> u32 list \<Rightarrow> bytes \<Rightarrow> bytes \<Rightarrow> u8 \<Rightarrow> cfg_item list \<Rightarrow> 'a world_scheme \<Rightarrow>
   (cfg_item list \<times> rk_vendor_req list \<times> 'a world_scheme) res" where
  "vendor_bdaddr dev rs junk tbuf chip extracfgs s =
     rbind (vendor_storage_read_bt_addr dev tbuf) (\<lambda>(ret, tbuf, out).
     let ret = (if 0 \<le> ret \<and> bachk (Some (c_str tbuf)) < 0 then -1 else ret) in
     if ret < 0 then
       rbind (vendor_storage_write_bt_addr dev (rknand_get_randeom_btaddr rs) junk) (\<lambda>(_, w).
         Ret (extracfgs, vo_written w, s))
     else
       (case do_malloc s of (ok, s) \<Rightarrow>
          Ret (if ok then extracfgs @ [\<lparr>ci_offset = get_mac_offset chip, ci_len = 6,
                 ci_data = bdaddr_lap (bdaddr_read tbuf)\<rparr>] else extracfgs, [], s)))"

section \<open>The text of a stored address\<close>

lemma hex_val_hexl: "n < 16 \<Longrightarrow> hex_val (hexl n) = Some n"
proof -
  have "list_all (\<lambda>n. hex_val (hexl n) = Some n) [0..<16]" by code_simp
  then show "n < 16 \<Longrightarrow> hex_val (hexl n) = Some n" by (simp add: list_all_iff)
qed

definition octet :: "u8 \<Rightarrow> bytes" where
  "octet b = [hexl (unat b div 16), hexl (unat b mod 16)]"

lemma octet_digits: "hex_val (hexl (unat b div 16)) = Some (unat b div 16)"
    "hex_val (hexl (unat b mod 16)) = Some (unat b mod 16)" for b :: u8
  using unat_u8_lt [of b] by (simp_all add: hex_val_hexl)

lemma length_6: "length a = 6 \<Longrightarrow> \<exists>x0 x1 x2 x3 x4 x5. a = [x0, x1, x2, x3, x4, x5]"
  by (auto simp: numeral_eq_Suc length_Suc_conv)

lemma length_18: "length t = Suc 17 \<Longrightarrow> \<exists>u v. t = u @ [v] \<and> length u = 17"
  by (metis append_butlast_last_id length_append_singleton list.size(3) nat.distinct(1) old.nat.inject)

text \<open>The six octets need nineteen bytes.\<close>

lemma put_octets_six:
  assumes "length a = 6" and "length tbuf = 18 \<or> 19 \<le> length tbuf"
  shows "put_octets 0 a tbuf =
     (if length tbuf = 18 then Fault else Ret (concat (map (\<lambda>b. octet b @ [58]) a) @ 0 # drop 19 tbuf))"
proof -
  obtain x0 x1 x2 x3 x4 x5 where "a = [x0, x1, x2, x3, x4, x5]" using length_6 [OF assms(1)] by blast
  then show ?thesis using assms(2) by (auto simp: arr_put_def octet_def)
qed

text \<open>What the array holds then, with the last colon replaced by the end of the string.\<close>

definition vendor_text :: "bytes \<Rightarrow> bytes" where
  "vendor_text a = joined 58 (map octet a)"

lemma vendor_text_six:
  assumes "length a = 6"
  shows "concat (map (\<lambda>b. octet b @ [58]) a) = vendor_text a @ [58]" and "length (vendor_text a) = 17"
    and "0 \<notin> set (vendor_text a)" and "bachk (Some (vendor_text a)) = 0"
    and "bdaddr_read (vendor_text a @ 0 # 0 # r) = rev a"
proof -
  obtain x0 x1 x2 x3 x4 x5 where a: "a = [x0, x1, x2, x3, x4, x5]" using length_6 [OF assms] by blast
  show "concat (map (\<lambda>b. octet b @ [58]) a) = vendor_text a @ [58]" "length (vendor_text a) = 17"
    by (simp_all add: a vendor_text_def octet_def)
  have nz: "hexl (unat b div 16) \<noteq> 0" "hexl (unat b mod 16) \<noteq> 0" for b :: u8
    using hex_val_digit(8) [OF octet_digits(1)] hex_val_digit(8) [OF octet_digits(2)] by simp_all
  then show "0 \<notin> set (vendor_text a)" by (auto simp: a vendor_text_def octet_def)
  have "vendor_text a = pairs_text (map (\<lambda>b. (hexl (unat b div 16), hexl (unat b mod 16))) a)"
    by (simp add: a vendor_text_def octet_def pairs_text_def)
  then show "bachk (Some (vendor_text a)) = 0"
    unfolding bachk_pairs using assms by (intro exI conjI) (auto simp: isxdigit_def octet_digits list_all_iff)
  show "bdaddr_read (vendor_text a @ 0 # 0 # r) = rev a"
    by (simp add: a bdaddr_read_def vendor_text_def octet_def strtoul16_pair [OF octet_digits]
        upt_rec unsigned_of_nat hex_val_def ucast_ucast_u8)
qed

lemma print_data_ok: "n \<le> length bs \<Longrightarrow> \<exists>r. print_data b n bs = Ret r"
  by (induction b n bs rule: print_data.induct) auto

text \<open>A device that answers with a request the array can hold.\<close>

definition vendor_answers :: "vendor_dev \<Rightarrow> rk_vendor_req \<Rightarrow> bool" where
  "vendor_answers dev req \<longleftrightarrow> dv_open dev \<and>
     dv_read dev \<lparr>vr_tag = VENDOR_REQ_TAG, vr_id = VENDOR_BT_MAC_ID, vr_len = 50, vr_data = replicate P_BUF_DATA 0\<rparr> = (0, req) \<and>
     1 \<le> vr_id req \<and> vr_id req \<le> 5 \<and> length (vr_data req) = P_BUF_DATA \<and> 6 \<le> unat (vr_len req) \<and> unat (vr_len req) \<le> P_BUF_DATA"

lemma vendor_read_answer:
  assumes "vendor_answers dev req"
  shows "\<exists>buf out. vendor_storage_read dev VENDOR_BT_MAC_ID (replicate 100 0) = Ret (int (unat (vr_len req)), buf, out) \<and>
     take 6 buf = take 6 (vr_data req)"
proof -
  have len: "unat (vr_len req) \<le> length (vr_data req)" using assms by (simp add: vendor_answers_def)
  obtain r where "print_data (vr_id req \<in> {VENDOR_SN_ID, VENDOR_IMEI_ID}) (unat (vr_len req)) (vr_data req) = Ret r"
    using print_data_ok [OF len] by blast
  moreover have "unat (vr_len req) \<le> 100" "min 6 (unat (vr_len req)) = 6" using assms by (simp_all add: vendor_answers_def P_BUF_DATA_def)
  ultimately show ?thesis
    using assms len by (simp add: vendor_storage_read_def vendor_answers_def rknand_print_hex_data_def)
qed

section \<open>Properties\<close>

text \<open>
  Claim C35. When the storage holds an address, the text of it needs nineteen bytes, with the colon
  and the end of the string the last \<open>sprintf\<close> writes: in the array of eighteen bytes the code has
  (\<open>BDADDR_STRING_LEN + 1\<close>) it is written beyond the end; in a larger array the address item
  is added with the octets of the storage, the first one as the last.
\<close>
theorem vendor_bdaddr_overflow:
  assumes "vendor_answers dev req" and "length tbuf = BDADDR_STRING_LEN + 1 \<or> 19 \<le> length tbuf"
    and "malloc_q s = []"
  shows "vendor_bdaddr dev rs junk tbuf chip extracfgs s =
     (if length tbuf = BDADDR_STRING_LEN + 1 then Fault
      else Ret (extracfgs @ [\<lparr>ci_offset = get_mac_offset chip, ci_len = 6, ci_data = bdaddr_lap (rev (take 6 (vr_data req)))\<rparr>], [], s))"
proof -
  define a where "a = take 6 (vr_data req)"
  have a: "length a = 6" using assms(1) by (simp add: a_def vendor_answers_def P_BUF_DATA_def)
  obtain buf out where rd: "vendor_storage_read dev VENDOR_BT_MAC_ID (replicate 100 0) = Ret (int (unat (vr_len req)), buf, out)"
    and buf: "take 6 buf = a"
    using vendor_read_answer [OF assms(1)] by (auto simp: a_def)
  note tx = vendor_text_six [OF a]
  have put: "put_octets 0 a tbuf = (if length tbuf = 18 then Fault else Ret ((vendor_text a @ [58]) @ 0 # drop 19 tbuf))"
    using put_octets_six [OF a] assms(2) by (simp add: BDADDR_STRING_LEN_def tx(1))
  show ?thesis
  proof (cases "length tbuf = 18")
    case True
    then show ?thesis using rd buf put
      by (simp add: vendor_bdaddr_def vendor_storage_read_bt_addr_def BDADDR_STRING_LEN_def)
  next
    case False
    have "arr_put ((vendor_text a @ [58]) @ 0 # drop 19 tbuf) 17 [0] = Ret (vendor_text a @ 0 # 0 # drop 19 tbuf)"
      using tx(2) by (simp add: arr_put_def)
    moreover have "c_str (vendor_text a @ 0 # 0 # drop 19 tbuf) = vendor_text a"
      using tx(3) by (auto simp: c_str_def takeWhile_append)
    ultimately show ?thesis using rd buf put False assms(3) tx(4,5)
      by (simp add: vendor_bdaddr_def vendor_storage_read_bt_addr_def BDADDR_STRING_LEN_def a_def)
  qed
qed

lemma vendor_bdaddr_overflow_witness:
  "vendor_bdaddr \<lparr>dv_open = True, dv_read = (\<lambda>req. (0, req\<lparr>vr_len := 6, vr_data := [1, 2, 3, 4, 5, 6] @ replicate 86 0\<rparr>)),
      dv_write = (\<lambda>req. 0)\<rparr> [] [] (replicate 18 0) CHIP_8822CS [] rtb_cfg = Fault"
  using vendor_bdaddr_overflow [of "\<lparr>dv_open = True, dv_read = (\<lambda>req. (0, req\<lparr>vr_len := 6, vr_data := [1, 2, 3, 4, 5, 6] @ replicate 86 0\<rparr>)),
      dv_write = (\<lambda>req. 0)\<rparr>" "\<lparr>vr_tag = VENDOR_REQ_TAG, vr_id = VENDOR_BT_MAC_ID, vr_len = 6, vr_data = [1, 2, 3, 4, 5, 6] @ replicate 86 0\<rparr>"
      "replicate 18 0" rtb_cfg]
  by (simp add: vendor_answers_def P_BUF_DATA_def VENDOR_BT_MAC_ID_def BDADDR_STRING_LEN_def)

text \<open>
  Without an address in the storage a random one is written to it, but this run of the program goes
  on without an address item.
\<close>

lemma vendor_bdaddr_generated:
  assumes "dv_open dev" and "fst (dv_read dev \<lparr>vr_tag = VENDOR_REQ_TAG, vr_id = VENDOR_BT_MAC_ID, vr_len = 50,
      vr_data = replicate P_BUF_DATA 0\<rparr>) \<noteq> 0" and "length junk = P_BUF_DATA"
  shows "vendor_bdaddr dev rs junk tbuf chip extracfgs s = Ret (extracfgs,
     [\<lparr>vr_tag = VENDOR_REQ_TAG, vr_id = VENDOR_BT_MAC_ID, vr_len = 6,
       vr_data = rknand_get_randeom_btaddr rs @ drop 6 junk\<rparr>], s)"
proof -
  have len: "length (rknand_get_randeom_btaddr rs) = 6" by (simp add: rknand_get_randeom_btaddr_def)
  define req where "req = \<lparr>vr_tag = VENDOR_REQ_TAG, vr_id = VENDOR_BT_MAC_ID, vr_len = 6,
     vr_data = rknand_get_randeom_btaddr rs @ drop 6 junk\<rparr>"
  obtain ret req' where ans: "dv_read dev \<lparr>vr_tag = VENDOR_REQ_TAG, vr_id = VENDOR_BT_MAC_ID, vr_len = 50,
      vr_data = replicate P_BUF_DATA 0\<rparr> = (ret, req')" by fastforce
  then have rd: "vendor_storage_read_bt_addr dev tbuf = Ret (-1, tbuf, [])"
    using assms(1,2) by (simp add: vendor_storage_read_bt_addr_def vendor_storage_read_def)
  have "6 \<le> length (vr_data req)" using len by (simp add: req_def)
  from print_data_ok [OF this] obtain r where "print_data False 6 (vr_data req) = Ret r" by blast
  then have "\<exists>out. rknand_print_hex_data req 6 = Ret out"
    by (simp add: rknand_print_hex_data_def req_def VENDOR_BT_MAC_ID_def VENDOR_SN_ID_def VENDOR_IMEI_ID_def)
  then obtain out where out: "rknand_print_hex_data req 6 = Ret out" ..
  have "\<exists>c w. vendor_storage_write_bt_addr dev (rknand_get_randeom_btaddr rs) junk = Ret (c, w) \<and> vo_written w = [req]"
    using assms(1,3) len out
    by (simp add: vendor_storage_write_bt_addr_def vendor_storage_write_def VENDOR_BT_MAC_ID_def VENDOR_SN_ID_def
        VENDOR_IMEI_ID_def P_BUF_DATA_def Let_def flip: req_def [unfolded VENDOR_BT_MAC_ID_def])
  then show ?thesis by (auto simp: vendor_bdaddr_def rd simp flip: req_def)
qed

end
