(* ===== verification/Io_Tool.thy ===== *)
theory Io_Tool
  imports C_Lib
begin

text \<open>
  The memory access tool io.c: the command line, the mapping of \<open>/dev/mem\<close> and the accesses
  through it. An \<open>unsigned long\<close> has 64 bits. Physical memory is a function from addresses; the
  mapping is the window that \<open>mmap\<close> returned, and an access outside it is a fault. Messages on
  the error output and those of the option \<open>-v\<close> are left out.
\<close>

section \<open>The state\<close>

type_synonym memory = "u64 \<Rightarrow> u8"

text \<open>
  What the system calls answer: the descriptor of the file, the two \<open>lseek\<close>s, the descriptor of
  \<open>/dev/mem\<close>, whether \<open>mmap\<close> succeeds, the answer to the question of the option \<open>-v\<close>, and the
  result of the \<open>read\<close> or \<open>write\<close> of the file with the bytes read.
\<close>

record io_env =
  e_ffd :: int
  e_seek_end :: int
  e_seek_set :: int
  e_mfd :: int
  e_mmap :: bool
  e_answer :: char
  e_write :: int
  e_data :: "bytes option"

record io_state =
  phys :: memory
  out_file :: bytes
  stdout :: string

text \<open>A mapping: the physical address of its first byte and its length.\<close>

record io_map =
  m_base :: u64
  m_len :: nat

definition mem_get :: "memory \<Rightarrow> u64 \<Rightarrow> nat \<Rightarrow> bytes" where
  "mem_get m a n = map (\<lambda>k. m (a + of_nat k)) [0..<n]"

text \<open>Writing bytes one after the other.\<close>

fun mem_put :: "memory \<Rightarrow> u64 \<Rightarrow> bytes \<Rightarrow> memory" where
  "mem_put m a [] = m"
| "mem_put m a (b # bs) = mem_put (m(a := b)) (a + 1) bs"

text \<open>A pointer into the mapping is its distance from \<open>real_io\<close>.\<close>

definition in_map :: "io_map \<Rightarrow> int \<Rightarrow> int \<Rightarrow> bool" where
  "in_map mp p n \<longleftrightarrow> 0 \<le> p \<and> 0 \<le> n \<and> p + n \<le> int (m_len mp)"

definition map_read :: "io_map \<Rightarrow> memory \<Rightarrow> int \<Rightarrow> nat \<Rightarrow> bytes res" where
  "map_read mp m p n = check (in_map mp p (int n)) (Ret (mem_get m (m_base mp + of_int p) n))"

definition map_write :: "io_map \<Rightarrow> int \<Rightarrow> bytes \<Rightarrow> io_state \<Rightarrow> io_state res" where
  "map_write mp p bs s =
     check (in_map mp p (int (length bs))) (Ret (s\<lparr>phys := mem_put (phys s) (m_base mp + of_int p) bs\<rparr>))"

section \<open>The access size\<close>

text \<open>\<open>iosize\<close> is 1, 2 or 4.\<close>

datatype iosize = Size1 | Size2 | Size4

definition io_bytes :: "iosize \<Rightarrow> nat" where
  "io_bytes z = (case z of Size1 \<Rightarrow> 1 | Size2 \<Rightarrow> 2 | Size4 \<Rightarrow> 4)"

lemma io_bytes_pos [simp]: "0 < io_bytes z" "io_bytes z \<le> 4"
  by (cases z; simp add: io_bytes_def)+

text \<open>A little-endian value of that many bytes.\<close>

fun le_val :: "bytes \<Rightarrow> nat" where
  "le_val [] = 0"
| "le_val (b # bs) = unat b + 256 * le_val bs"

definition le_bytes :: "nat \<Rightarrow> u64 \<Rightarrow> bytes" where
  "le_bytes n v = map (\<lambda>k. byte k v) [0..<n]"

section \<open>Reading memory\<close>

text \<open>
  The inner loop of \<open>memread_memory\<close>: \<open>i\<close> counts the bytes of the line, \<open>p\<close> is the pointer and
  \<open>n\<close> the length that is left.
\<close>

function dump_row ::
  "io_map \<Rightarrow> memory \<Rightarrow> iosize \<Rightarrow> nat \<Rightarrow> int \<Rightarrow> int \<Rightarrow> string \<Rightarrow> (int \<times> int \<times> string) res" where
  "dump_row mp m z i p n acc =
     (if i < 16 \<and> n \<noteq> 0 then
        rbind (map_read mp m p (io_bytes z)) (\<lambda>bs.
          dump_row mp m z (i + io_bytes z) (p + int (io_bytes z)) (n - int (io_bytes z))
            (acc @ '' '' @ hexw (2 * io_bytes z) (le_val bs)))
      else Ret (p, n, acc))"
  by pat_completeness auto
termination
  by (relation "measure (\<lambda>(mp, m, z, i, p, n, acc). 16 - i)") (auto intro!: diff_less_mono2)

declare dump_row.simps [simp del]

text \<open>A row that starts leaves the pointer inside the mapping, further on.\<close>

lemma dump_row_moves:
  "dump_row mp m z i p n acc = Ret (p', n', acc') \<Longrightarrow> i < 16 \<Longrightarrow> n \<noteq> 0 \<Longrightarrow>
     p < p' \<and> p' \<le> int (m_len mp)"
proof (induction mp m z i p n acc rule: dump_row.induct)
  case (1 mp m z i p n acc)
  obtain bs where bs: "map_read mp m p (io_bytes z) = Ret bs"
    and rest: "dump_row mp m z (i + io_bytes z) (p + int (io_bytes z)) (n - int (io_bytes z))
      (acc @ '' '' @ hexw (2 * io_bytes z) (le_val bs)) = Ret (p', n', acc')"
    using 1(2-4) by (subst (asm) dump_row.simps) auto
  have inm: "p + int (io_bytes z) \<le> int (m_len mp)"
    using bs by (simp add: map_read_def in_map_def check_def split: if_splits)
  show ?case
  proof (cases "i + io_bytes z < 16 \<and> n - int (io_bytes z) \<noteq> 0")
    case True
    then show ?thesis using 1(1) [OF _ bs rest] 1(3,4) io_bytes_pos(1) [of z] by simp
  next
    case False
    then have "p' = p + int (io_bytes z)"
      using rest by (subst (asm) dump_row.simps) auto
    then show ?thesis using inm by simp
  qed
qed

text \<open>The outer loop.\<close>

function memread_memory ::
  "io_map \<Rightarrow> u64 \<Rightarrow> int \<Rightarrow> int \<Rightarrow> iosize \<Rightarrow> io_state \<Rightarrow> io_state res" where
  "memread_memory mp phys_addr p n z s =
     (if n \<noteq> 0 then
        rbind (dump_row mp (phys s) z 0 p n (hexw 8 (unat phys_addr) @ '': '')) (\<lambda>(p, n, acc).
          memread_memory mp (phys_addr + 16) p n z (s\<lparr>stdout := stdout s @ acc @ [CHR 0x0A]\<rparr>))
      else Ret s)"
  by pat_completeness auto
termination
  by (relation "measure (\<lambda>(mp, a, p, n, z, s). nat (int (m_len mp) - p))")
    (auto dest: dump_row_moves)

declare memread_memory.simps [simp del]

section \<open>Writing memory\<close>

text \<open>The three loops of \<open>write_memory\<close>, which differ in the type of the access only.\<close>

lemma length_le_bytes [simp]: "length (le_bytes n v) = n"
  by (simp add: le_bytes_def)

lemma map_write_inside: "map_write mp p bs s = Ret s' \<Longrightarrow> 0 \<le> p \<and> p + int (length bs) \<le> int (m_len mp)"
  by (simp add: map_write_def in_map_def check_def split: if_splits)

lemma map_write_step:
  "map_write mp p (le_bytes (io_bytes z) v) s = Ret s' \<Longrightarrow>
     0 \<le> p \<and> p < int (m_len mp) \<and> p + int (io_bytes z) \<le> int (m_len mp)"
proof -
  assume "map_write mp p (le_bytes (io_bytes z) v) s = Ret s'"
  from map_write_inside [OF this] have "0 \<le> p \<and> p + int (io_bytes z) \<le> int (m_len mp)" by simp
  moreover have "0 < int (io_bytes z)" by simp
  ultimately show ?thesis by linarith
qed

function write_memory :: "io_map \<Rightarrow> int \<Rightarrow> int \<Rightarrow> iosize \<Rightarrow> u64 \<Rightarrow> io_state \<Rightarrow> io_state res" where
  "write_memory mp p n z v s =
     (if n \<noteq> 0 then
        rbind (map_write mp p (le_bytes (io_bytes z) v) s) (\<lambda>s.
          write_memory mp (p + int (io_bytes z)) (n - int (io_bytes z)) z v s)
      else Ret s)"
  by pat_completeness auto
termination
  by (relation "measure (\<lambda>(mp, p, n, z, v, s). nat (int (m_len mp) - p))") (auto dest: map_write_step)

declare write_memory.simps [simp del]

section \<open>The command line\<close>

record io_opts =
  o_verbose :: bool
  o_size :: iosize
  o_read :: bool
  o_len :: int
  o_file :: "string option"

text \<open>The \<open>switch\<close> over the options; \<open>None\<close> is an \<open>exit\<close> with status 1.\<close>

fun io_options :: "opt_list \<Rightarrow> io_opts \<Rightarrow> io_opts option" where
  "io_options [] o1 = Some o1"
| "io_options ((c, a) # os) o1 =
     (if c = CHR ''v'' then io_options os (o1\<lparr>o_verbose := True\<rparr>)
      else if c = CHR ''1'' then io_options os (o1\<lparr>o_size := Size1\<rparr>)
      else if c = CHR ''2'' then io_options os (o1\<lparr>o_size := Size2\<rparr>)
      else if c = CHR ''4'' then io_options os (o1\<lparr>o_size := Size4\<rparr>)
      else if c = CHR ''r'' then io_options os (o1\<lparr>o_read := True\<rparr>)
      else if c = CHR ''w'' then io_options os (o1\<lparr>o_read := False\<rparr>)
      else if c = CHR ''l'' then
        (case strtoul0 a of (v, e) \<Rightarrow>
           if e \<noteq> [] then None else io_options os (o1\<lparr>o_len := sint (ucast v :: u32)\<rparr>))
      else if c = CHR ''f'' then io_options os (o1\<lparr>o_file := Some a\<rparr>)
      else None)"

record io_request =
  r_addr :: u64
  r_len :: int
  r_size :: iosize
  r_read :: bool
  r_file :: "string option"
  r_value :: u64
  r_verbose :: bool

definition io_default :: io_opts where
  "io_default = \<lparr>o_verbose = False, o_size = Size1, o_read = True, o_len = 0, o_file = None\<rparr>"

text \<open>Which values are too large: \<open>0xffffff00\<close> and \<open>0xffff0000\<close> have 32 bits.\<close>

definition value_too_large :: "iosize \<Rightarrow> u64 \<Rightarrow> bool" where
  "value_too_large z v \<longleftrightarrow>
     z = Size1 \<and> v AND 0xffffff00 \<noteq> 0 \<or> z = Size2 \<and> v AND 0xffff0000 \<noteq> 0"

text \<open>
  From the address to the test for further arguments. The test \<open>optind > argc\<close> for a file name
  with a value never holds.
\<close>

definition io_arguments :: "io_opts \<Rightarrow> string list \<Rightarrow> io_request option" where
  "io_arguments o1 rest =
     (case rest of [] \<Rightarrow> None | a # rest \<Rightarrow>
      case strtoul0 a of (addr, e) \<Rightarrow>
      if e \<noteq> [] then None else
      let nofile = (o_file o1 = None);
          rd = (if nofile \<and> rest \<noteq> [] then False else o_read o1);
          rq = (\<lambda>v. \<lparr>r_addr = addr, r_len = o_len o1, r_size = o_size o1, r_read = rd,
                  r_file = o_file o1, r_value = v, r_verbose = o_verbose o1\<rparr>)
      in if nofile \<and> \<not> rd then
           (case rest of [] \<Rightarrow> None | b # rest \<Rightarrow>
            case strtoul0 b of (v, e) \<Rightarrow>
            if e \<noteq> [] then None
            else if value_too_large (o_size o1) v then None
            else if rest \<noteq> [] then None
            else Some (rq v))
         else if \<not> nofile \<and> rd \<and> o_len o1 = 0 then None
         else if rest \<noteq> [] then None
         else Some (rq 0))"

definition io_parse :: "string list \<Rightarrow> io_request option" where
  "io_parse argv =
     (if length argv = 1 then None else
      case getopt (opt_kind ''hv124rwl:f:'') (tl argv) of (os, rest) \<Rightarrow>
      case io_options os io_default of None \<Rightarrow> None
      | Some o1 \<Rightarrow> io_arguments o1 rest)"

section \<open>Mapping and accessing\<close>

text \<open>
  The file and the length; \<open>None\<close> is an \<open>exit\<close>. A file that is opened for writing is emptied.
\<close>

definition io_open :: "io_env \<Rightarrow> io_request \<Rightarrow> io_state \<Rightarrow> int option \<times> io_state" where
  "io_open e rq s =
     (if r_file rq \<noteq> None \<and> e_ffd e < 0 then (None, s) else
      let s = (if r_file rq \<noteq> None \<and> r_read rq then s\<lparr>out_file := []\<rparr> else s);
          n = (if r_file rq \<noteq> None \<and> r_len rq = 0 then sint (of_int (e_seek_end e) :: u32) else r_len rq)
      in if r_file rq \<noteq> None \<and> r_len rq = 0 \<and> (n < 0 \<or> e_seek_set e \<noteq> 0) then (None, s)
         else (Some (if n = 0 then int (io_bytes (r_size rq)) else n), s))"

definition io_aligned :: "iosize \<Rightarrow> u64 \<Rightarrow> int \<Rightarrow> bool" where
  "io_aligned z a n \<longleftrightarrow>
     \<not> (z = Size2 \<and> a AND 1 \<noteq> 0 \<or> z = Size4 \<and> a AND 3 \<noteq> 0) \<and>
     \<not> (z = Size2 \<and> n mod 2 \<noteq> 0 \<or> z = Size4 \<and> n mod 4 \<noteq> 0)"

text \<open>\<open>real_addr\<close> and \<open>real_len\<close>, or \<open>None\<close> when they are refused.\<close>

definition io_window :: "u64 \<Rightarrow> int \<Rightarrow> (u64 \<times> u64) option" where
  "io_window a n =
     (let real_addr = a AND NOT 4095 in
      if real_addr = 0xfffff000 then None else
      let offset = a - real_addr;
          real_len = of_int n + offset;
          real_len = (real_len + 4095) AND NOT 4095
      in if real_addr + real_len < real_addr then None else Some (real_addr, real_len))"

text \<open>
  The transfers between the file and the memory: the kernel moves at most what was asked for, in
  a \<open>size_t\<close>, and what the mapping holds.
\<close>

definition io_limit :: "io_map \<Rightarrow> int \<Rightarrow> int \<Rightarrow> int" where
  "io_limit mp p n = min (int (m_len mp) - p) (if 0 \<le> n then n else n + 2 ^ 64)"

definition io_access ::
  "io_env \<Rightarrow> io_request \<Rightarrow> io_map \<Rightarrow> int \<Rightarrow> int \<Rightarrow> io_state \<Rightarrow> (int \<times> io_state) res" where
  "io_access e rq mp p n s =
     (let pa = m_base mp + of_int p; lim = io_limit mp p n in
      if r_file rq \<noteq> None \<and> r_read rq then
        (let w = (if e_write e < 0 then -1 else min (e_write e) lim) in
         if w < 0 then Ret (1, s) else
         let s = s\<lparr>out_file := out_file s @ mem_get (phys s) pa (nat w)\<rparr>
         in Ret (if w \<noteq> n then 1 else 0, s))
      else if r_file rq \<noteq> None then
        (case e_data e of
           None \<Rightarrow> Ret (1, s)
         | Some d \<Rightarrow>
             let d = take (nat lim) d; s = s\<lparr>phys := mem_put (phys s) pa d\<rparr>
             in Ret (if int (length d) \<noteq> n then 1 else 0, s))
      else if r_read rq then
        rbind (memread_memory mp (r_addr rq) p n (r_size rq) s) (\<lambda>s. Ret (0, s))
      else
        rbind (write_memory mp p n (r_size rq) (r_value rq) s) (\<lambda>s. Ret (0, s)))"

definition io_run :: "io_env \<Rightarrow> io_request \<Rightarrow> io_state \<Rightarrow> (int \<times> io_state) res" where
  "io_run e rq s =
     (case io_open e rq s of
        (None, s) \<Rightarrow> Ret (1, s)
      | (Some n, s) \<Rightarrow>
          if \<not> io_aligned (r_size rq) (r_addr rq) n then Ret (1, s) else
          case io_window (r_addr rq) n of
            None \<Rightarrow> Ret (1, s)
          | Some (real_addr, real_len) \<Rightarrow>
              if e_mfd e = -1 then Ret (1, s)
              else if \<not> e_mmap e \<or> real_len = 0 then Ret (1, s)
              else if r_verbose rq \<and> e_answer e \<notin> {CHR ''y'', CHR ''Y''} then Ret (1, s)
              else io_access e rq \<lparr>m_base = real_addr, m_len = unat real_len\<rparr>
                     (int (unat (r_addr rq - real_addr))) n s)"

text \<open>The program: its exit status and what it leaves behind.\<close>

definition io_main :: "io_env \<Rightarrow> string list \<Rightarrow> io_state \<Rightarrow> (int \<times> io_state) res" where
  "io_main e argv s = (case io_parse argv of None \<Rightarrow> Ret (1, s) | Some rq \<Rightarrow> io_run e rq s)"

section \<open>The accesses inside the mapping\<close>

lemma io_bytes_16: "io_bytes z * (16 div io_bytes z) = 16" "0 < 16 div io_bytes z"
  by (cases z; simp add: io_bytes_def)+

definition word_text :: "memory \<Rightarrow> u64 \<Rightarrow> iosize \<Rightarrow> nat \<Rightarrow> string" where
  "word_text m a z k =
     '' '' @ hexw (2 * io_bytes z) (le_val (mem_get m (a + of_nat (io_bytes z * k)) (io_bytes z)))"

lemma dump_row_words:
  assumes "0 \<le> p" and "p + int (io_bytes z * l) \<le> int (m_len mp)" and "c = min (16 div io_bytes z - j) l"
    and "j \<le> 16 div io_bytes z"
  shows "dump_row mp m z (io_bytes z * j) p (int (io_bytes z * l)) acc =
     Ret (p + int (io_bytes z * c), int (io_bytes z * (l - c)),
       acc @ concat (map (word_text m (m_base mp + of_int p) z) [0..<c]))"
  using assms
proof (induction l arbitrary: j p acc c)
  case 0
  then show ?case by (subst dump_row.simps) simp
next
  case (Suc l)
  let ?b = "io_bytes z"
  show ?case
  proof (cases "j < 16 div ?b")
    case False
    then have "?b * j = 16" using Suc.prems(4) io_bytes_16(1) [of z] by simp
    then show ?thesis using False Suc.prems(3) by (subst dump_row.simps) simp
  next
    case True
    then have lt: "?b * j < 16"
      using io_bytes_16(1) [of z] mult_less_mono2 [of j "16 div ?b" ?b] by simp
    obtain c' where c: "c = Suc c'" "c' = min (16 div ?b - Suc j) l"
      using Suc.prems(3) True by (cases c) auto
    have read: "map_read mp m p ?b = Ret (mem_get m (m_base mp + of_int p) ?b)"
    proof -
      have "p + int ?b \<le> p + int (?b * Suc l)" by simp
      then have "p + int ?b \<le> int (m_len mp)" using Suc.prems(2) by (rule order_trans)
      then show ?thesis using Suc.prems(1) by (simp add: map_read_def in_map_def check_def)
    qed
    have next_p: "m_base mp + of_int (p + int ?b) = m_base mp + of_int p + of_nat ?b" by simp
    have words: "word_text m (m_base mp + of_int p) z 0 @
        concat (map (word_text m (m_base mp + of_int (p + int ?b)) z) [0..<c'])
        = concat (map (word_text m (m_base mp + of_int p) z) [0..<c])"
    proof -
      have "word_text m (m_base mp + of_int (p + int ?b)) z k = word_text m (m_base mp + of_int p) z (Suc k)" for k
        unfolding next_p by (simp add: word_text_def algebra_simps)
      then have "word_text m (m_base mp + of_int (p + int ?b)) z = (\<lambda>k. word_text m (m_base mp + of_int p) z (Suc k))"
        by (rule ext)
      then show ?thesis
        unfolding c(1) by (simp only: upt_conv_Cons map_Suc_upt [symmetric] zero_less_Suc) (simp add: comp_def)
    qed
    have "dump_row mp m z (?b * j) p (int (?b * Suc l)) acc =
        dump_row mp m z (?b * Suc j) (p + int ?b) (int (?b * l))
          (acc @ word_text m (m_base mp + of_int p) z 0)"
    proof -
      have "?b * Suc l \<noteq> 0" by simp
      then have "int (?b * Suc l) \<noteq> 0" by (simp only: of_nat_eq_0_iff) simp
      moreover have "int (?b * Suc l) - int ?b = int (?b * l)" by simp
      ultimately show ?thesis using lt read
        by (subst dump_row.simps) (simp only: simp_thms if_True rbind.simps word_text_def mult_0_right mult_Suc_right append_assoc add.commute [of ?b], simp)
    qed
    also have "\<dots> = Ret (p + int ?b + int (?b * c'), int (?b * (l - c')),
        (acc @ word_text m (m_base mp + of_int p) z 0) @
        concat (map (word_text m (m_base mp + of_int (p + int ?b)) z) [0..<c']))"
      by (rule Suc.IH) (use Suc.prems True c in \<open>auto simp: algebra_simps\<close>)
    finally show ?thesis using words c by (simp add: algebra_simps)
  qed
qed

text \<open>
  The text of a dump of \<open>l\<close> words: line after line, its address and up to 16 bytes.
\<close>

definition dump_line :: "memory \<Rightarrow> u64 \<Rightarrow> iosize \<Rightarrow> nat \<Rightarrow> nat \<Rightarrow> string" where
  "dump_line m a z l r =
     (let per = 16 div io_bytes z in
      hexw 8 (unat (a + of_nat (16 * r))) @ '': '' @
      concat (map (word_text m a z) [per * r ..< min (per * Suc r) l]) @ [CHR 0x0A])"

definition io_dump :: "memory \<Rightarrow> u64 \<Rightarrow> iosize \<Rightarrow> nat \<Rightarrow> string" where
  "io_dump m a z l =
     (let per = 16 div io_bytes z in concat (map (dump_line m a z l) [0..<(l + per - 1) div per]))"

lemma word_text_shift:
  "word_text m (a + 16) z k = word_text m a z (16 div io_bytes z + k)"
proof -
  have "(of_nat (io_bytes z * (16 div io_bytes z)) :: u64) = 16" unfolding io_bytes_16(1) by simp
  then show ?thesis by (simp add: word_text_def algebra_simps)
qed

lemma map_shift_upt: "map (\<lambda>k. k + n) [i..<j] = [i + n..<j + n]"
  by (induction j) auto

lemma dump_line_shift: "dump_line m (a + 16) z (l - 16 div io_bytes z) r = dump_line m a z l (Suc r)"
proof -
  let ?per = "16 div io_bytes z"
  have "map (word_text m (a + 16) z) [?per * r ..< min (?per * Suc r) (l - ?per)] =
      map (word_text m a z) (map (\<lambda>k. k + ?per) [?per * r ..< min (?per * Suc r) (l - ?per)])"
    by (simp add: word_text_shift add.commute)
  also have "map (\<lambda>k. k + ?per) [?per * r ..< min (?per * Suc r) (l - ?per)] =
      [?per * Suc r ..< min (?per * Suc (Suc r)) l]"
    unfolding map_shift_upt by (cases "?per \<le> l") (auto simp: min_def algebra_simps)
  finally show ?thesis by (simp add: dump_line_def Let_def algebra_simps)
qed

lemma io_dump_rec:
  assumes "0 < l"
  shows "io_dump m a z l = dump_line m a z l 0 @ io_dump m (a + 16) z (l - 16 div io_bytes z)"
proof -
  let ?per = "16 div io_bytes z"
  have rows: "(l + ?per - 1) div ?per = Suc ((l - ?per + ?per - 1) div ?per)"
  proof (cases "?per \<le> l")
    case True
    then have "l + ?per - 1 = (l - ?per + ?per - 1) + ?per" using io_bytes_16(2) [of z] by simp
    then show ?thesis using io_bytes_16(2) [of z] by (metis Suc_eq_plus1 add.commute div_add_self2 less_numeral_extra(3))
  next
    case False
    then have "(l - ?per + ?per - 1) div ?per = 0" "l + ?per - 1 = ?per + (l - 1)" "l - 1 < ?per"
      using assms io_bytes_16(2) [of z] by auto
    then show ?thesis using io_bytes_16(2) [of z] by (simp only: div_add_self1) simp
  qed
  have lines: "dump_line m (a + 16) z (l - ?per) = (\<lambda>r. dump_line m a z l (Suc r))"
    by (rule ext) (rule dump_line_shift)
  show ?thesis
    unfolding io_dump_def Let_def rows
    by (simp only: upt_conv_Cons map_Suc_upt [symmetric] zero_less_Suc lines) (simp add: comp_def)
qed

lemma memread_dump:
  assumes "0 \<le> p" and "p + int (io_bytes z * l) \<le> int (m_len mp)"
  shows "memread_memory mp (m_base mp + of_int p) p (int (io_bytes z * l)) z s =
     Ret (s\<lparr>stdout := stdout s @ io_dump (phys s) (m_base mp + of_int p) z l\<rparr>)"
  using assms
proof (induction l arbitrary: p s rule: less_induct)
  case (less l)
  let ?per = "16 div io_bytes z" and ?a = "m_base mp + of_int p"
  show ?case
  proof (cases "l = 0")
    case True
    then show ?thesis
      using io_bytes_16(2) [of z] by (subst memread_memory.simps) (simp add: io_dump_def Let_def)
  next
    case False
    define c where "c = min ?per l"
    have c: "0 < c" "c \<le> l" "l - c = l - ?per" using False io_bytes_16(2) [of z] by (auto simp: c_def)
    have "io_bytes z * c + io_bytes z * (l - c) = io_bytes z * l"
      using c(2) by (metis add_mult_distrib2 le_add_diff_inverse)
    then have split: "int (io_bytes z * c) + int (io_bytes z * (l - c)) = int (io_bytes z * l)"
      by (metis of_nat_add)
    have row: "dump_row mp (phys s) z 0 p (int (io_bytes z * l)) (hexw 8 (unat ?a) @ '': '') =
        Ret (p + int (io_bytes z * c), int (io_bytes z * (l - c)),
          (hexw 8 (unat ?a) @ '': '') @ concat (map (word_text (phys s) ?a z) [0..<c]))"
      using dump_row_words [OF less.prems, of c 0] by (simp add: c_def)
    have line: "dump_line (phys s) ?a z l 0 =
        (hexw 8 (unat ?a) @ '': '') @ concat (map (word_text (phys s) ?a z) [0..<c]) @ [CHR 0x0A]"
      by (simp add: dump_line_def Let_def c_def)
    let ?s = "s\<lparr>stdout := stdout s @ dump_line (phys s) ?a z l 0\<rparr>"
    have start: "memread_memory mp ?a p (int (io_bytes z * l)) z s =
        memread_memory mp (?a + 16) (p + int (io_bytes z * c)) (int (io_bytes z * (l - c))) z ?s"
      using False row io_bytes_pos(1) [of z] by (subst memread_memory.simps) (simp add: line)
    show ?thesis
    proof (cases "?per < l")
      case True
      then have ce: "c = ?per" by (simp add: c_def)
      have "int (io_bytes z * c) = 16" unfolding ce io_bytes_16(1) by simp
      then have a: "?a + 16 = m_base mp + of_int (p + int (io_bytes z * c))" by simp
      have "memread_memory mp (m_base mp + of_int (p + int (io_bytes z * c))) (p + int (io_bytes z * c))
          (int (io_bytes z * (l - c))) z ?s = Ret (?s\<lparr>stdout := stdout ?s @
            io_dump (phys ?s) (m_base mp + of_int (p + int (io_bytes z * c))) z (l - c)\<rparr>)"
        by (rule less.IH) (use c less.prems split in \<open>auto simp: add.assoc\<close>)
      then show ?thesis
        using start io_dump_rec [of l "phys s" ?a z] c(3) False unfolding a by simp
    next
      case long: False
      then have "l - c = 0" by (simp add: c_def)
      then have "memread_memory mp (?a + 16) (p + int (io_bytes z * c)) (int (io_bytes z * (l - c))) z ?s = Ret ?s"
        by (subst memread_memory.simps) simp
      moreover have "io_dump (phys s) (?a + 16) z (l - ?per) = []"
        using long io_bytes_16(2) [of z] by (simp add: io_dump_def Let_def)
      ultimately show ?thesis using start io_dump_rec [of l "phys s" ?a z] False by simp
    qed
  qed
qed

section \<open>Writing\<close>

lemma mem_put_append: "mem_put m a (xs @ ys) = mem_put (mem_put m a xs) (a + of_nat (length xs)) ys"
  by (induction xs arbitrary: m a) (simp_all add: add.assoc)

lemma mem_put_other: "(\<And>k. k < length bs \<Longrightarrow> x \<noteq> a + of_nat k) \<Longrightarrow> mem_put m a bs x = m x"
proof (induction bs arbitrary: m a)
  case (Cons b bs)
  have "x \<noteq> a" using Cons.prems [of 0] by simp
  moreover have "x \<noteq> a + 1 + of_nat k" if "k < length bs" for k
    using Cons.prems [of "Suc k"] that by (simp add: add.assoc)
  ultimately show ?case using Cons.IH [of "a + 1"] by simp
qed simp

lemma mem_put_at:
  assumes "k < length bs" and "length bs \<le> 2 ^ 64"
  shows "mem_put m a bs (a + of_nat k) = bs ! k"
  using assms
proof (induction bs arbitrary: m a k)
  case (Cons b bs)
  show ?case
  proof (cases k)
    case 0
    have "a \<noteq> a + 1 + of_nat j" if "j < length bs" for j
    proof -
      have "Suc j < 2 ^ LENGTH(64)" using that Cons.prems(2) by simp
      then have "(of_nat (Suc j) :: u64) \<noteq> 0" using of_nat_eq_0_small [of "Suc j", where ?'a = 64] by simp
      then show ?thesis by (simp add: add.assoc)
    qed
    then show ?thesis using 0 mem_put_other [of bs a "a + 1"] by simp
  next
    case (Suc j)
    then show ?thesis using Cons.IH [of j _ "a + 1"] Cons.prems by (simp add: add.assoc)
  qed
qed simp

lemma concat_replicate_nth:
  "k < l * length xs \<Longrightarrow> concat (replicate l xs) ! k = xs ! (k mod length xs)"
proof (induction l arbitrary: k)
  case (Suc l)
  show ?case
  proof (cases "k < length xs")
    case False
    then have "concat (replicate l xs) ! (k - length xs) = xs ! ((k - length xs) mod length xs)"
      using Suc by simp
    moreover have "(k - length xs) mod length xs = k mod length xs" using False by (simp add: le_mod_geq)
    ultimately show ?thesis using False by (simp add: nth_append)
  qed (simp add: nth_append)
qed simp

lemma write_memory_fills:
  assumes "0 \<le> p" and "p + int (io_bytes z * l) \<le> int (m_len mp)"
  shows "write_memory mp p (int (io_bytes z * l)) z v s =
     Ret (s\<lparr>phys := mem_put (phys s) (m_base mp + of_int p) (concat (replicate l (le_bytes (io_bytes z) v)))\<rparr>)"
  using assms
proof (induction l arbitrary: p s)
  case 0
  then show ?case by (subst write_memory.simps) simp
next
  case (Suc l)
  let ?b = "io_bytes z" and ?v = "le_bytes (io_bytes z) v"
  let ?s = "s\<lparr>phys := mem_put (phys s) (m_base mp + of_int p) ?v\<rparr>"
  have "p + int ?b \<le> p + int (?b * Suc l)" by simp
  then have "p + int ?b \<le> int (m_len mp)" using Suc.prems(2) by (rule order_trans)
  then have "map_write mp p ?v s = Ret ?s"
    using Suc.prems(1) by (simp add: map_write_def in_map_def check_def)
  moreover have "?b * Suc l \<noteq> 0" by simp
  then have "int (?b * Suc l) \<noteq> 0" by (simp only: of_nat_eq_0_iff) simp
  moreover have "int (?b * Suc l) - int ?b = int (?b * l)" by simp
  ultimately have "write_memory mp p (int (?b * Suc l)) z v s =
      write_memory mp (p + int ?b) (int (?b * l)) z v ?s"
    by (subst write_memory.simps) (simp only: simp_thms if_True rbind.simps)
  also have "\<dots> = Ret (?s\<lparr>phys := mem_put (phys ?s) (m_base mp + of_int (p + int ?b)) (concat (replicate l ?v))\<rparr>)"
    by (rule Suc.IH) (use Suc.prems in \<open>auto simp: algebra_simps\<close>)
  finally show ?case by (simp add: mem_put_append add.assoc)
qed

text \<open>A negative length is counted down until the pointer leaves the mapping.\<close>

lemma dump_row_negative:
  "dump_row mp m z i p n acc = Ret (p', n', acc') \<Longrightarrow> n < 0 \<Longrightarrow> n' < 0"
proof (induction mp m z i p n acc rule: dump_row.induct)
  case (1 mp m z i p n acc)
  show ?case
  proof (cases "i < 16")
    case True
    obtain bs where bs: "map_read mp m p (io_bytes z) = Ret bs"
      and rest: "dump_row mp m z (i + io_bytes z) (p + int (io_bytes z)) (n - int (io_bytes z))
        (acc @ '' '' @ hexw (2 * io_bytes z) (le_val bs)) = Ret (p', n', acc')"
      using 1(2,3) True by (subst (asm) dump_row.simps) auto
    show ?thesis using 1(1) [OF _ bs rest] 1(3) True by simp
  next
    case False
    then show ?thesis using 1(2,3) by (subst (asm) dump_row.simps) simp
  qed
qed

lemma dump_row_outcome:
  "(\<exists>x. dump_row mp m z i p n acc = Ret x) \<or> dump_row mp m z i p n acc = Fault"
proof (induction mp m z i p n acc rule: dump_row.induct)
  case (1 mp m z i p n acc)
  then show ?case
    by (subst (1 2) dump_row.simps) (auto simp: map_read_def check_def)
qed

lemma memread_negative: "n < 0 \<Longrightarrow> memread_memory mp a p n z s = Fault"
proof (induction mp a p n z s rule: memread_memory.induct)
  case (1 mp a p n z s)
  consider x where "dump_row mp (phys s) z 0 p n (hexw 8 (unat a) @ '': '') = Ret x"
    | "dump_row mp (phys s) z 0 p n (hexw 8 (unat a) @ '': '') = Fault"
    using dump_row_outcome [of mp "phys s" z 0 p n] by blast
  then show ?case
  proof cases
    case (1 x)
    obtain p' n' acc' where x: "x = (p', n', acc')" by (cases x)
    have "n' < 0" using dump_row_negative [OF 1 [unfolded x]] "1.prems" by simp
    then show ?thesis using "1.IH" [OF _ 1 x [symmetric] refl] 1 x "1.prems"
      by (subst memread_memory.simps) simp
  next
    case 2
    then show ?thesis using "1.prems" by (subst memread_memory.simps) simp
  qed
qed

lemma write_negative: "n < 0 \<Longrightarrow> write_memory mp p n z v s = Fault"
proof (induction mp p n z v s rule: write_memory.induct)
  case (1 mp p n z v s)
  show ?case
  proof (cases "map_write mp p (le_bytes (io_bytes z) v) s")
    case (Ret s')
    then show ?thesis using 1 by (subst write_memory.simps) simp
  qed (use 1 in \<open>auto simp: map_write_def check_def write_memory.simps split: if_splits\<close>)
qed

section \<open>The window\<close>

lemma page_down: "unat ((x :: u64) AND NOT 4095) = unat x div 4096 * 4096"
proof -
  have "x AND NOT 4095 = push_bit 12 (drop_bit 12 x)"
  proof (rule bit_eqI)
    fix k
    have m: "(4095 :: u64) = mask 12" by (simp add: mask_eq_exp_minus_1)
    show "bit (x AND NOT 4095) k = bit (push_bit 12 (drop_bit 12 x)) k"
      unfolding m using bit_imp_le_length [of x k]
      by (auto simp: bit_and_iff bit_not_iff bit_mask_iff bit_push_bit_iff bit_drop_bit_eq)
  qed
  moreover have "unat x div 4096 * 4096 \<le> unat x" by simp
  then have "unat x div 4096 * 4096 < 2 ^ LENGTH(64)"
    using unsigned_less [of x, where ?'a = nat] by (rule le_less_trans)
  ultimately show ?thesis
    by (simp add: push_bit_eq_mult drop_bit_eq_div unat_word_ariths unat_div)
qed

lemma io_window_covers:
  assumes "io_window a n = Some (ra, rl)" and "0 < n" and "n < 2 ^ 31"
  shows "ra = a AND NOT 4095" and "unat (a - ra) < 4096" and "int (unat (a - ra)) + n \<le> int (unat rl)"
    and "rl \<noteq> 0"
proof -
  show ra: "ra = a AND NOT 4095"
    using assms(1) by (auto simp: io_window_def Let_def split: if_splits)
  have le: "ra \<le> a" unfolding ra word_le_nat_alt page_down by simp
  have off: "unat (a - ra) = unat a mod 4096"
    unfolding unat_sub [OF le] unfolding ra page_down by (simp add: minus_div_mult_eq_mod)
  then show lt: "unat (a - ra) < 4096" by simp
  define k where "k = nat n + unat a mod 4096 + 4095"
  have k: "k < 2 ^ LENGTH(64)" using assms(2,3) by (simp add: k_def)
  have "of_int n + (a - ra) + 4095 = (of_nat k :: u64)"
  proof -
    have "(of_int n :: u64) = of_nat (nat n)" using assms(2) by simp
    moreover have "a - ra = of_nat (unat a mod 4096)" using off by (metis of_nat_unat ucast_id)
    ultimately show ?thesis by (simp add: k_def)
  qed
  then have rl: "rl = (of_nat k) AND NOT 4095"
    using assms(1) by (auto simp: io_window_def Let_def ra split: if_splits)
  have "unat rl = k div 4096 * 4096"
    unfolding rl page_down using k by (simp only: unat_of_nat_small)
  moreover have "k - 4095 \<le> k div 4096 * 4096"
  proof -
    have "k = k div 4096 * 4096 + k mod 4096" by simp
    moreover have "k mod 4096 < 4096" by simp
    ultimately show ?thesis by linarith
  qed
  ultimately have fits: "nat n + unat a mod 4096 \<le> unat rl" by (simp add: k_def)
  then show "int (unat (a - ra)) + n \<le> int (unat rl)" unfolding off using assms(2) by linarith
  have "0 < unat rl" using fits assms(2) by linarith
  then show "rl \<noteq> 0" by auto
qed

section \<open>Properties\<close>

text \<open>What is left to ask of the system: the mapping succeeds and the question is answered.\<close>

definition io_granted :: "io_env \<Rightarrow> io_request \<Rightarrow> bool" where
  "io_granted e rq \<longleftrightarrow> e_mfd e \<noteq> -1 \<and> e_mmap e \<and> (r_verbose rq \<longrightarrow> e_answer e \<in> {CHR ''y'', CHR ''Y''})"

text \<open>The length in effect when no file is involved.\<close>

definition io_length :: "io_request \<Rightarrow> int" where
  "io_length rq = (if r_len rq = 0 then int (io_bytes (r_size rq)) else r_len rq)"

lemma int_word_small: "- (2 ^ 31) \<le> sint (w :: u32)" "sint (w :: u32) < 2 ^ 31"
  using sint_ge [of w] sint_lt [of w] by simp_all

lemma io_options_len: "io_options os o1 = Some o2 \<Longrightarrow> o_len o1 < 2 ^ 31 \<Longrightarrow> o_len o2 < 2 ^ 31"
proof (induction os o1 rule: io_options.induct)
  case (2 c a os o1)
  then show ?case using int_word_small(2) by (simp split: if_splits prod.splits)
qed simp

lemma io_parse_len: "io_parse argv = Some rq \<Longrightarrow> r_len rq < 2 ^ 31"
  by (auto simp: io_parse_def io_arguments_def Let_def io_default_def dest!: io_options_len
      split: if_splits prod.splits option.splits list.splits)

lemma io_open_length:
  "io_open e rq s = (Some n, s') \<Longrightarrow> 0 \<le> r_len rq \<Longrightarrow> r_len rq < 2 ^ 31 \<Longrightarrow> 0 < n \<and> n < 2 ^ 31"
  using int_word_small(2) [of "of_int (e_seek_end e)"] le_less_trans [OF io_bytes_pos(2) [of "r_size rq"], of "2 ^ 31"]
  by (auto simp: io_open_def Let_def split: if_splits)

lemma io_aligned_words:
  assumes "io_aligned z a n" and "0 < n"
  obtains l where "n = int (io_bytes z * l)" and "0 < l"
proof -
  have "int (io_bytes z) dvd n"
    using assms(1) by (cases z) (auto simp: io_aligned_def io_bytes_def dvd_eq_mod_eq_0)
  then obtain j where j: "n = int (io_bytes z) * j" by (elim dvdE)
  then have "0 < j" using assms(2) by (simp add: zero_less_mult_iff)
  then have "n = int (io_bytes z * nat j)" "0 < nat j" using j by simp_all
  then show ?thesis by (rule that)
qed

lemma window_base: "(ra :: u64) + of_int (int (unat (a - ra))) = a"
  by simp

lemmas parse_defs = strtoul0_def c_sign_def c_base_def is_digit_def c_digit_def c_space_def
  io_arguments_def io_default_def value_too_large_def


text \<open>A state for the examples.\<close>

definition io_demo :: io_state where
  "io_demo = \<lparr>phys = (\<lambda>a. ucast a), out_file = [], stdout = []\<rparr>"


text \<open>
  Claim C13. A granted write of a value changes exactly the requested bytes of physical memory:
  each word becomes the value in little-endian order, everything else stays as it was.
\<close>
theorem io_write_fills:
  assumes "io_parse argv = Some rq" and "\<not> r_read rq" and "r_file rq = None" and "0 \<le> r_len rq"
    and "io_granted e rq" and "io_aligned (r_size rq) (r_addr rq) (io_length rq)"
    and "io_window (r_addr rq) (io_length rq) \<noteq> None"
  shows "\<exists>s'. io_main e argv s = Ret (0, s') \<and> stdout s' = stdout s \<and>
     (\<forall>k < nat (io_length rq).
        phys s' (r_addr rq + of_nat k) = byte (k mod io_bytes (r_size rq)) (r_value rq)) \<and>
     (\<forall>x. (\<forall>k < nat (io_length rq). x \<noteq> r_addr rq + of_nat k) \<longrightarrow> phys s' x = phys s x)"
proof -
  let ?z = "r_size rq" and ?n = "io_length rq"
  have n: "0 < ?n" "?n < 2 ^ 31"
    using assms(4) io_parse_len [OF assms(1)] io_bytes_pos(1) [of ?z] le_less_trans [OF io_bytes_pos(2) [of ?z], of "2 ^ 31"]
    by (auto simp: io_length_def)
  obtain ra rl where w: "io_window (r_addr rq) ?n = Some (ra, rl)" using assms(7) by auto
  note cov = io_window_covers [OF w n]
  obtain l where l: "?n = int (io_bytes ?z * l)" using io_aligned_words [OF assms(6) n(1)] .
  let ?mp = "\<lparr>m_base = ra, m_len = unat rl\<rparr>" and ?p = "int (unat (r_addr rq - ra))"
  define bs where "bs = concat (replicate l (le_bytes (io_bytes ?z) (r_value rq)))"
  have bs: "length bs = nat ?n" "length bs \<le> 2 ^ 64"
  proof -
    have len: "length bs = io_bytes ?z * l" by (simp add: bs_def length_concat sum_list_replicate)
    also have "\<dots> = nat ?n" by (simp only: l nat_int)
    finally show "length bs = nat ?n" .
    have "int (io_bytes ?z * l) < int (2 ^ 31)" using n(2) unfolding l by simp
    then have "io_bytes ?z * l < 2 ^ 31" by (simp only: of_nat_less_iff)
    then show "length bs \<le> 2 ^ 64" unfolding len by simp
  qed
  have "write_memory ?mp ?p ?n ?z (r_value rq) s = Ret (s\<lparr>phys := mem_put (phys s) (r_addr rq) bs\<rparr>)"
    using write_memory_fills [of ?p ?z l ?mp "r_value rq" s] cov(3) window_base [of ra "r_addr rq"]
    unfolding l bs_def by simp
  then have "io_main e argv s = Ret (0, s\<lparr>phys := mem_put (phys s) (r_addr rq) bs\<rparr>)"
    using assms(1-3,5,6) w cov(4)
    by (auto simp: io_main_def io_run_def io_open_def io_granted_def io_access_def Let_def io_length_def)
  moreover have "bs ! k = byte (k mod io_bytes ?z) (r_value rq)" if "k < nat ?n" for k
    using that concat_replicate_nth [of k l "le_bytes (io_bytes ?z) (r_value rq)"] bs(1)
    by (simp add: bs_def le_bytes_def length_concat sum_list_replicate)
  ultimately show ?thesis
    using bs by (auto simp: mem_put_at mem_put_other)
qed

lemma io_write_fills_witness:
  "\<exists>s'. io_main \<lparr>e_ffd = -1, e_seek_end = 0, e_seek_set = 0, e_mfd = 4, e_mmap = True, e_answer = CHR ''n'',
       e_write = 0, e_data = None\<rparr> [''io'', ''-2'', ''-l'', ''4'', ''0x1000'', ''0x1234''] io_demo = Ret (0, s') \<and>
     stdout s' = stdout io_demo \<and>
     (\<forall>k < nat (io_length \<lparr>r_addr = 0x1000, r_len = 4, r_size = Size2, r_read = False, r_file = None,
          r_value = 0x1234, r_verbose = False\<rparr>).
        phys s' (0x1000 + of_nat k) = byte (k mod io_bytes Size2) (0x1234 :: u64)) \<and>
     (\<forall>x. (\<forall>k < nat (io_length \<lparr>r_addr = 0x1000, r_len = 4, r_size = Size2, r_read = False,
          r_file = None, r_value = 0x1234, r_verbose = False\<rparr>). x \<noteq> 0x1000 + of_nat k) \<longrightarrow> phys s' x = phys io_demo x)"
  by (rule io_write_fills [where rq = "\<lparr>r_addr = 0x1000, r_len = 4, r_size = Size2, r_read = False,
      r_file = None, r_value = 0x1234, r_verbose = False\<rparr>", simplified io_request.select_convs])
    (simp_all add: io_parse_def parse_defs io_granted_def io_aligned_def io_window_def Let_def io_length_def)




lemma ucast_all_ones: "(ucast (-1 :: u64) :: u32) = -1"
  by (rule bit_eqI) (simp add: bit_ucast_iff)


end
