(* ===== verification/Brcm_Opts.thy ===== *)
theory Brcm_Opts
  imports C_Lib Cfg_Text
begin

text \<open>
  The Broadcom loader brcm_patchram_plus1.c: its state, the commands it sends, and the command
  line. Strings of the command line are character lists; the arrays \<open>buffer\<close>, \<open>local_name\<close> and
  \<open>fw_folder_path\<close> are arrays of bytes of their declared size. The disk is a parameter; what
  \<open>writeApName\<close> stores for the next start of the program is kept in the state.
\<close>

section \<open>The state\<close>

text \<open>
  The globals of the program with the world. The option flags are booleans; \<open>hcd\<close> is what is left
  to read of the firmware file, or \<open>None\<close> when reading it fails, and \<open>alarm_q\<close> how often the alarm
  expires during each reset command that is waited for; \<open>ap_written\<close> is what \<open>writeApName\<close> put into
  its file at offset 36.
\<close>

record brcm = world +
  uart_fd :: int
  hcdfile_fd :: int
  termios_baudrate :: int
  bdaddr_flag :: bool
  enable_lpm :: bool
  enable_hci :: bool
  use_baudrate_for_download :: bool
  debug :: bool
  scopcm :: bool
  i2s :: bool
  no2bytes :: bool
  tosleep :: int
  buffer :: bytes
  local_name :: bytes
  fw_folder_path :: bytes
  hci_update_baud_rate :: bytes
  hci_write_bd_addr :: bytes
  hci_write_sco_pcm_int :: bytes
  hci_write_pcm_data_format :: bytes
  hci_write_i2spcm_interface_param :: bytes
  hcd :: "bytes option"
  rand_q :: "nat list"
  alarm_q :: "nat list"
  ap_written :: "bytes option"

definition hci_reset :: bytes where "hci_reset = [0x01, 0x03, 0x0c, 0x00]"
definition hci_read_local_name :: bytes where "hci_read_local_name = [0x01, 0x14, 0x0c, 0x00]"
definition hci_download_minidriver :: bytes where "hci_download_minidriver = [0x01, 0x2e, 0xfc, 0x00]"

definition hci_write_sleep_mode :: bytes where
  "hci_write_sleep_mode = [0x01, 0x27, 0xfc, 0x0c,
     0x01, 0x01, 0x01, 0x01, 0x01, 0x01, 0x01, 0x00, 0x00, 0x00, 0x00, 0x00]"

definition LOCAL_NAME_BUFFER_LEN :: nat where "LOCAL_NAME_BUFFER_LEN = 32"

text \<open>The values the globals start with, over a given world.\<close>

definition brcm_init :: "world \<Rightarrow> brcm" where
  "brcm_init w = world.extend w
     \<lparr>uart_fd = -1, hcdfile_fd = -1, termios_baudrate = 0, bdaddr_flag = False, enable_lpm = False,
      enable_hci = False, use_baudrate_for_download = False, debug = False, scopcm = False,
      i2s = False, no2bytes = False, tosleep = 0, buffer = replicate 1024 0,
      local_name = replicate 32 0, fw_folder_path = replicate 1024 0,
      hci_update_baud_rate = [0x01, 0x18, 0xfc, 0x06, 0x00, 0x00, 0x00, 0x00, 0x00, 0x00],
      hci_write_bd_addr = [0x01, 0x01, 0xfc, 0x06, 0x00, 0x00, 0x00, 0x00, 0x00, 0x00],
      hci_write_sco_pcm_int = [0x01, 0x1C, 0xFC, 0x05, 0x00, 0x00, 0x00, 0x00, 0x00],
      hci_write_pcm_data_format = [0x01, 0x1e, 0xFC, 0x05, 0x00, 0x00, 0x00, 0x00, 0x00],
      hci_write_i2spcm_interface_param = [0x01, 0x6d, 0xFC, 0x04, 0x00, 0x00, 0x00, 0x00],
      hcd = None, rand_q = [], alarm_q = [], ap_written = None\<rparr>"

section \<open>Option values\<close>

definition string_bytes :: "string \<Rightarrow> bytes" where
  "string_bytes s = map of_char s"

text \<open>
  \<open>parse_patchram\<close>: the part of the argument before its last slash becomes the folder; without a
  slash nothing changes. \<open>strcpy\<close> writes the end of the string too.
\<close>

definition parse_patchram :: "string \<Rightarrow> brcm \<Rightarrow> (int \<times> brcm) res" where
  "parse_patchram optarg s =
     (if CHR ''/'' \<in> set optarg then
        let dir = rev (tl (dropWhile (\<lambda>c. c \<noteq> CHR ''/'') (rev optarg)))
        in rbind (arr_put (fw_folder_path s) 0 (string_bytes dir @ [0])) (\<lambda>p.
             Ret (0, s\<lparr>fw_folder_path := p\<rparr>))
      else Ret (0, s))"

text \<open>\<open>BRCM_encode_baud_rate\<close> on the last four bytes of the command.\<close>

definition BRCM_encode_baud_rate :: "u32 \<Rightarrow> bytes \<Rightarrow> bytes" where
  "BRCM_encode_baud_rate baud_rate encoded_baud =
     (if baud_rate = 0 then encoded_baud else
      let e = encoded_baud[3 := ucast (drop_bit 24 baud_rate)];
          e = e[2 := ucast (drop_bit 16 baud_rate)];
          e = e[1 := ucast (drop_bit 8 baud_rate)]
      in e[0 := ucast (baud_rate AND 0xFF)])"

text \<open>A constant of termios is represented by its rate, as in the rest of the development.\<close>

definition baud_rates :: "(int \<times> int) list" where
  "baud_rates = map (\<lambda>r. (r, r)) [115200, 230400, 460800, 500000, 576000, 921600, 1000000, 1152000,
     1500000, 2000000, 2500000, 3000000, 3500000, 4000000]"

fun baud_scan :: "int \<Rightarrow> (int \<times> int) list \<Rightarrow> int option" where
  "baud_scan baud_rate [] = None"
| "baud_scan baud_rate ((r, v) # rs) = (if r = baud_rate then Some v else baud_scan baud_rate rs)"

definition validate_baudrate :: "int \<Rightarrow> int option" where
  "validate_baudrate baud_rate = baud_scan baud_rate baud_rates"

definition parse_baudrate :: "string \<Rightarrow> brcm \<Rightarrow> int \<times> brcm" where
  "parse_baudrate optarg s =
     (let baudrate = atoi optarg in
      case validate_baudrate baudrate of
        None \<Rightarrow> (0, s)
      | Some v \<Rightarrow>
          (0, s\<lparr>termios_baudrate := v, hci_update_baud_rate := take 6 (hci_update_baud_rate s) @
                BRCM_encode_baud_rate (of_int baudrate) (drop 6 (hci_update_baud_rate s))\<rparr>))"

text \<open>
  The conversion \<open>%02X\<close> of \<open>sscanf\<close>: at most two characters after white space, a sign among them.
\<close>

definition scan_hex2 :: "string \<Rightarrow> (int \<times> string) option" where
  "scan_hex2 str =
     (let s = dropWhile c_space str; f = take 2 s; (neg, g) = c_sign f;
          ds = takeWhile (is_digit 16) g; v = int (digits_val 16 0 ds)
      in if ds = [] \<or> (length f = 2 \<and> f ! 0 = CHR ''0'' \<and> f ! 1 \<in> {CHR ''x'', CHR ''X''}) then None
         else Some (if neg then - v else v, drop (length f - length g + length ds) s))"

text \<open>Six of them with colons between; a value that is missing is never set.\<close>

fun scan_addr :: "nat \<Rightarrow> string \<Rightarrow> int list res" where
  "scan_addr 0 s = Ret []"
| "scan_addr (Suc n) s =
     (case scan_hex2 s of
        None \<Rightarrow> Fault
      | Some (v, r) \<Rightarrow>
          if n = 0 then Ret [v]
          else (case r of [] \<Rightarrow> Fault | c # r \<Rightarrow>
                if c \<noteq> CHR '':'' then Fault else rbind (scan_addr n r) (\<lambda>vs. Ret (v # vs))))"

definition parse_bdaddr :: "string \<Rightarrow> brcm \<Rightarrow> (int \<times> brcm) res" where
  "parse_bdaddr optarg s =
     rbind (scan_addr 6 optarg) (\<lambda>vs.
       Ret (0, s\<lparr>hci_write_bd_addr := take 4 (hci_write_bd_addr s) @ map of_int (rev vs),
             bdaddr_flag := True\<rparr>))"

text \<open>
  \<open>readApName\<close>: the 18 bytes at offset 36 of the file, or \<open>None\<close> for the result -1. The caller reads
  them as a string, so they must have an end.
\<close>

definition AP_NAME_SUFFIX_LEN :: nat where "AP_NAME_SUFFIX_LEN = 18"

definition readApName :: "file_system \<Rightarrow> bytes option" where
  "readApName fs =
     (case fs ''/data/cfg/device_info.txt'' of
        None \<Rightarrow> None
      | Some f \<Rightarrow>
          if \<not> f_open f then None else
          case f_data f of None \<Rightarrow> Some []
          | Some d \<Rightarrow>
              let name = take AP_NAME_SUFFIX_LEN (drop 36 d)
              in if take 17 name = string_bytes ''11:22:33:44:55:66'' then None else Some name)"

text \<open>Seventeen characters, a colon at every third place and random digits at the others.\<close>

fun rand_text :: "nat list \<Rightarrow> nat list \<Rightarrow> string \<times> nat list" where
  "rand_text [] rq = ([], rq)"
| "rand_text (j # js) rq =
     (if j mod 3 = 2 then (case rand_text js rq of (t, rq) \<Rightarrow> (CHR '':'' # t, rq))
      else case (case rq of [] \<Rightarrow> (0, []) | r # rq \<Rightarrow> (r, rq)) of (r, rq) \<Rightarrow>
        (case rand_text js rq of (t, rq) \<Rightarrow> (''ABCDEF0123456789'' ! (r mod 16) # t, rq)))"

text \<open>
  \<open>writeApName\<close>: the text with the end of the string, unless the file cannot be opened. The string it
  compares has fourteen characters, so only that very text is left out.
\<close>

definition writeApName :: "file_system \<Rightarrow> string \<Rightarrow> nat \<Rightarrow> brcm \<Rightarrow> brcm" where
  "writeApName fs nm len s =
     (if len < 17 \<or> nm = ''11:22:33:44:55'' then s else
      case fs ''/data/cfg/device_info.txt'' of
        None \<Rightarrow> s
      | Some f \<Rightarrow>
          if \<not> f_open f then s
          else let b = take (AP_NAME_SUFFIX_LEN - 1) (string_bytes nm)
               in s\<lparr>ap_written := Some (b @ replicate (AP_NAME_SUFFIX_LEN - length b) 0)\<rparr>)"

definition parse_bdaddr_rand :: "file_system \<Rightarrow> brcm \<Rightarrow> (int \<times> brcm) res" where
  "parse_bdaddr_rand fs s =
     (case readApName fs of
        Some name \<Rightarrow> check (0 \<in> set name) (parse_bdaddr (map (\<lambda>b. char_of (unat b)) (c_str name)) s)
      | None \<Rightarrow> (case rand_text [0..<17] (rand_q s) of (t, rq) \<Rightarrow>
        parse_bdaddr t (writeApName fs t AP_NAME_SUFFIX_LEN (s\<lparr>rand_q := rq\<rparr>))))"

text \<open>The conversion \<open>%d\<close>, and a number of them with commas between: those that succeeded.\<close>

definition scan_int :: "string \<Rightarrow> (int \<times> string) option" where
  "scan_int str =
     (let (neg, s) = c_sign (dropWhile c_space str);
          ds = takeWhile (is_digit 10) s;
          v = int (digits_val 10 0 ds);
          l = (if neg then max (- (2 ^ 63)) (- v) else min (2 ^ 63 - 1) v)
      in if ds = [] then None
         else Some (sint (of_int l :: u32), dropWhile (is_digit 10) s))"

fun scan_ints :: "nat \<Rightarrow> string \<Rightarrow> int list" where
  "scan_ints 0 s = []"
| "scan_ints (Suc n) s =
     (case scan_int s of
        None \<Rightarrow> []
      | Some (v, r) \<Rightarrow>
          v # (case r of [] \<Rightarrow> [] | c # r \<Rightarrow> if c = CHR '','' then scan_ints n r else []))"

definition parse_scopcm :: "string \<Rightarrow> brcm \<Rightarrow> int \<times> brcm" where
  "parse_scopcm optarg s =
     (let param = scan_ints 10 optarg in
      if length param \<noteq> 10 then (1, s)
      else (0, s\<lparr>scopcm := True,
          hci_write_sco_pcm_int := take 4 (hci_write_sco_pcm_int s) @ map of_int (take 5 param),
          hci_write_pcm_data_format := take 4 (hci_write_pcm_data_format s) @ map of_int (drop 5 param)\<rparr>))"

definition parse_i2s :: "string \<Rightarrow> brcm \<Rightarrow> int \<times> brcm" where
  "parse_i2s optarg s =
     (let param = scan_ints 4 optarg in
      if length param \<noteq> 4 then (1, s)
      else (0, s\<lparr>i2s := True, hci_write_i2spcm_interface_param :=
          take 4 (hci_write_i2spcm_interface_param s) @ map of_int param\<rparr>))"

definition parse_tosleep :: "string \<Rightarrow> brcm \<Rightarrow> int \<times> brcm" where
  "parse_tosleep optarg s = (let t = atoi optarg in (if t \<le> 0 then 1 else 0, s\<lparr>tosleep := t\<rparr>))"

section \<open>getopt_long_only\<close>

text \<open>The long options with whether they take an argument.\<close>

definition long_options :: "(string \<times> bool) list" where
  "long_options = [(''patchram'', True), (''baudrate'', True), (''bd_addr'', True),
     (''bd_addr_rand'', False), (''enable_lpm'', False), (''enable_hci'', False),
     (''use_baudrate_for_download'', False), (''scopcm'', True), (''i2s'', True),
     (''no2bytes'', False), (''tosleep'', True)]"

text \<open>What one call returns: an entry of the table, the option \<open>d\<close>, or a question mark.\<close>

datatype long_event = LongOpt nat "string option" | DebugOpt | BadOpt

text \<open>An exact name, or a name with this beginning if there is only one.\<close>

definition long_match :: "string \<Rightarrow> nat list" where
  "long_match name =
     (case filter (\<lambda>i. fst (long_options ! i) = name) [0..<length long_options] of
        i # _ \<Rightarrow> [i]
      | [] \<Rightarrow> filter (\<lambda>i. take (length name) (fst (long_options ! i)) = name) [0..<length long_options])"

definition short_cluster :: "string \<Rightarrow> long_event list" where
  "short_cluster cs = map (\<lambda>c. if c = CHR ''d'' then DebugOpt else BadOpt) cs"

text \<open>
  All the calls: the events and the arguments that are left. An argument with one dash is tried as
  a long option unless it is the short option alone, and taken as short options when no long
  option fits and its first letter is one.
\<close>

fun long_only :: "string list \<Rightarrow> long_event list \<times> string list" where
  "long_only [] = ([], [])"
| "long_only (a # as) =
     (if a = ''--'' then ([], as)
      else if a = [] \<or> hd a \<noteq> CHR ''-'' \<or> a = ''-'' then
        (case long_only as of (es, rest) \<Rightarrow> (es, a # rest))
      else
        let two = (a ! 1 = CHR ''-''); body = drop (if two then 2 else 1) a;
            name = takeWhile (\<lambda>c. c \<noteq> CHR ''='') body;
            val = (case drop (length name) body of [] \<Rightarrow> None | _ # v \<Rightarrow> Some v)
        in if \<not> two \<and> body = ''d'' then (case long_only as of (es, rest) \<Rightarrow> (DebugOpt # es, rest))
           else (case long_match name of
             [i] \<Rightarrow>
               (if snd (long_options ! i) then
                  (case val of
                     Some v \<Rightarrow> (case long_only as of (es, rest) \<Rightarrow> (LongOpt i (Some v) # es, rest))
                   | None \<Rightarrow>
                       (case as of [] \<Rightarrow> ([BadOpt], [])
                        | v # as' \<Rightarrow> (case long_only as' of (es, rest) \<Rightarrow> (LongOpt i (Some v) # es, rest))))
                else (case long_only as of (es, rest) \<Rightarrow>
                  ((if val = None then LongOpt i None else BadOpt) # es, rest)))
           | [] \<Rightarrow>
               (case long_only as of (es, rest) \<Rightarrow>
                  (if \<not> two \<and> hd body = CHR ''d'' then (short_cluster body @ es, rest)
                   else (BadOpt # es, rest)))
           | _ \<Rightarrow> (case long_only as of (es, rest) \<Rightarrow> (BadOpt # es, rest))))"

section \<open>The command line\<close>

text \<open>The table \<open>parse\<close>; the value is present exactly for the options that take one.\<close>

definition parse_long :: "nat \<Rightarrow> string option \<Rightarrow> brcm \<Rightarrow> (int \<times> brcm) res" where
  "parse_long i optarg s =
     (if i = 0 then parse_patchram (the optarg) s
      else if i = 1 then Ret (parse_baudrate (the optarg) s)
      else if i = 2 then parse_bdaddr (the optarg) s
      else if i = 4 then Ret (0, s\<lparr>enable_lpm := True\<rparr>)
      else if i = 5 then Ret (0, s\<lparr>enable_hci := True\<rparr>)
      else if i = 6 then Ret (0, s\<lparr>use_baudrate_for_download := True\<rparr>)
      else if i = 7 then Ret (parse_scopcm (the optarg) s)
      else if i = 8 then Ret (parse_i2s (the optarg) s)
      else if i = 9 then Ret (0, s\<lparr>no2bytes := True\<rparr>)
      else Ret (parse_tosleep (the optarg) s))"

text \<open>The loop of \<open>parse_cmd_line\<close>: the first result that is not zero ends it.\<close>

fun parse_events :: "file_system \<Rightarrow> long_event list \<Rightarrow> brcm \<Rightarrow> (int \<times> brcm) res" where
  "parse_events fs [] s = Ret (0, s)"
| "parse_events fs (LongOpt i a # es) s =
     rbind (if i = 3 then parse_bdaddr_rand fs s else parse_long i a s) (\<lambda>(ret, s).
       if ret \<noteq> 0 then Ret (ret, s) else parse_events fs es s)"
| "parse_events fs (DebugOpt # es) s = parse_events fs es (s\<lparr>debug := True\<rparr>)"
| "parse_events fs (BadOpt # es) s = parse_events fs es s"

definition parse_cmd_line :: "file_system \<Rightarrow> string list \<Rightarrow> brcm \<Rightarrow> (int \<times> brcm) res" where
  "parse_cmd_line fs argv s =
     (case long_only (tl argv) of (es, rest) \<Rightarrow>
      rbind (parse_events fs es s) (\<lambda>(ret, s).
        if ret \<noteq> 0 then Ret (1, s)
        else if rest = [] then Ret (0, s)
        else case do_sys 3 s of (fd, s) \<Rightarrow> Ret (0, s\<lparr>uart_fd := fd\<rparr>)))"

section \<open>Round trips\<close>

lemma length_4: "length xs = 4 \<Longrightarrow> \<exists>a b c d. xs = [a, b, c, d]"
  by (auto simp: numeral_eq_Suc length_Suc_conv)

lemma encode_baud:
  "w \<noteq> 0 \<Longrightarrow> BRCM_encode_baud_rate w [a, b, c, d] = [byte 0 w, byte 1 w, byte 2 w, byte 3 w]"
  by (simp add: BRCM_encode_baud_rate_def ucast_and_ff byte_def)

text \<open>
  Every speed of the table is accepted and encoded in the four bytes from which the
  controller reads it back.
\<close>
theorem brcm_baud_round_trip:
  assumes "validate_baudrate (atoi optarg) = Some v" and "length (hci_update_baud_rate s) = 10"
  shows "\<exists>b0 b1 b2 b3 s'. parse_baudrate optarg s = (0, s') \<and> termios_baudrate s' = atoi optarg \<and>
     hci_update_baud_rate s' = take 6 (hci_update_baud_rate s) @ [b0, b1, b2, b3] \<and>
     int (unat (le32 b0 b1 b2 b3)) = atoi optarg"
proof -
  have v: "v = atoi optarg" "0 < atoi optarg" "atoi optarg < 2 ^ 32"
    using assms(1) by (auto simp: validate_baudrate_def baud_rates_def split: if_splits)
  define w where "w = (of_int (atoi optarg) :: u32)"
  have w: "w \<noteq> 0" "int (unat w) = atoi optarg"
  proof -
    have "unat w = nat (atoi optarg)"
    proof -
      have "w = of_nat (nat (atoi optarg))" using v(2) by (simp add: w_def)
      moreover have "nat (atoi optarg) < 2 ^ LENGTH(32)" using v(2,3) by simp
      ultimately show ?thesis by (simp only: unat_of_nat_small)
    qed
    then show "int (unat w) = atoi optarg" using v(2) by simp
    then show "w \<noteq> 0" using v(2) by auto
  qed
  have "length (drop 6 (hci_update_baud_rate s)) = 4" using assms(2) by simp
  then obtain a b c d where four: "drop 6 (hci_update_baud_rate s) = [a, b, c, d]"
    using length_4 by blast
  have "parse_baudrate optarg s = (0, s\<lparr>termios_baudrate := atoi optarg,
      hci_update_baud_rate := take 6 (hci_update_baud_rate s) @ [byte 0 w, byte 1 w, byte 2 w, byte 3 w]\<rparr>)"
    using assms(1) encode_baud [OF w(1), of a b c d] v(1)
    by (simp add: parse_baudrate_def Let_def four flip: w_def)
  moreover have "int (unat (le32 (byte 0 w) (byte 1 w) (byte 2 w) (byte 3 w))) = atoi optarg"
    unfolding le32_bytes w(2) ..
  ultimately show ?thesis
    by (intro exI [of _ "byte 0 w"] exI [of _ "byte 1 w"] exI [of _ "byte 2 w"] exI [of _ "byte 3 w"]) simp
qed

lemma brcm_baud_round_trip_witness:
  "\<exists>b0 b1 b2 b3 s'. parse_baudrate ''3000000''
      (brcm_init (world.truncate rtb_cfg)) = (0, s') \<and> termios_baudrate s' = atoi ''3000000'' \<and>
     hci_update_baud_rate s' = take 6 (hci_update_baud_rate (brcm_init (world.truncate rtb_cfg))) @ [b0, b1, b2, b3] \<and>
     int (unat (le32 b0 b1 b2 b3)) = atoi ''3000000''"
  by (rule brcm_baud_round_trip)
    (simp_all add: validate_baudrate_def baud_rates_def atoi_def c_sign_def is_digit_def c_digit_def
      c_space_def brcm_init_def world.defs)

section \<open>The random address\<close>

lemma rand_text_chars: "set (fst (rand_text js rq)) \<subseteq> set ''ABCDEF0123456789:'' \<and> length (fst (rand_text js rq)) = length js"
proof (induction js arbitrary: rq)
  case (Cons j js)
  have "''ABCDEF0123456789'' ! (r mod 16) \<in> set ''ABCDEF0123456789''" for r by (rule nth_mem) simp
  then show ?case using Cons by (auto simp: case_prod_unfold Let_def split: list.splits)
qed simp

lemma addr_chars_back:
  assumes "set s \<subseteq> set ''ABCDEF0123456789:''"
  shows "0 \<notin> set (string_bytes s)" and "map (\<lambda>b. char_of (unat b)) (string_bytes s) = s"
proof -
  have "list_all (\<lambda>c. (of_char c :: u8) \<noteq> 0 \<and> char_of (unat (of_char c :: u8)) = c) ''ABCDEF0123456789:''" by code_simp
  then have "(of_char c :: u8) \<noteq> 0 \<and> char_of (unat (of_char c :: u8)) = c" if "c \<in> set s" for c
    using assms that by (auto simp: list_all_iff)
  then show "0 \<notin> set (string_bytes s)" "map (\<lambda>b. char_of (unat b)) (string_bytes s) = s"
    by (auto simp: string_bytes_def map_idI)
qed

text \<open>
  A generated address is the one the next start finds: with the file as \<open>writeApName\<close> left it, unless
  the address is the one that counts as unset.
\<close>

theorem random_address_kept:
  assumes "fs ''/data/cfg/device_info.txt'' = Some f" and "f_open f" and "f_data f = Some d" and "54 \<le> length d"
    and "readApName fs = None" and "parse_bdaddr_rand fs s = Ret (r, s1)" and "ap_written s1 = Some w"
    and "take 17 w \<noteq> string_bytes ''11:22:33:44:55:66''"
    and "fs' ''/data/cfg/device_info.txt'' = Some (f\<lparr>f_data := Some (take 36 d @ w @ drop 54 d)\<rparr>)"
    and "take 4 (hci_write_bd_addr s2) = take 4 (hci_write_bd_addr s)"
  shows "\<exists>s3. parse_bdaddr_rand fs' s2 = Ret (r, s3) \<and> hci_write_bd_addr s3 = hci_write_bd_addr s1"
proof -
  obtain txt0 rq where rt: "rand_text [0..<17] (rand_q s) = (txt0, rq)" by fastforce
  then have tc: "set txt0 \<subseteq> set ''ABCDEF0123456789:''" "length txt0 = 17"
    using rand_text_chars [of "[0..<17]" "rand_q s"] by simp_all
  have ne: "txt0 \<noteq> ''11:22:33:44:55''" using tc(2) by auto
  let ?s = "s\<lparr>rand_q := rq, ap_written := Some (string_bytes txt0 @ [0])\<rparr>"
  have wr: "writeApName fs txt0 AP_NAME_SUFFIX_LEN (s\<lparr>rand_q := rq\<rparr>) = ?s"
    using assms(1,2) ne tc(2) by (simp add: writeApName_def AP_NAME_SUFFIX_LEN_def string_bytes_def)
  have run: "parse_bdaddr txt0 ?s = Ret (r, s1)"
    using assms(5,6) rt wr by (simp add: parse_bdaddr_rand_def)
  then obtain vs where vs: "scan_addr 6 txt0 = Ret vs" "r = 0"
      "s1 = ?s\<lparr>hci_write_bd_addr := take 4 (hci_write_bd_addr s) @ map of_int (rev vs), bdaddr_flag := True\<rparr>"
    by (auto simp: parse_bdaddr_def)
  then have w: "w = string_bytes txt0 @ [0]" using assms(7) by simp
  have "length (string_bytes txt0) = 17" using tc(2) by (simp add: string_bytes_def)
  then have "readApName fs' = Some w"
    using assms(2,4,8,9) w by (simp add: readApName_def AP_NAME_SUFFIX_LEN_def)
  moreover have "c_str w = string_bytes txt0" "0 \<in> set w"
    using addr_chars_back(1) [OF tc(1)] by (auto simp: w c_str_def takeWhile_append)
  ultimately have "parse_bdaddr_rand fs' s2 = parse_bdaddr txt0 s2"
    using addr_chars_back(2) [OF tc(1)] by (simp add: parse_bdaddr_rand_def)
  then show ?thesis using vs assms(10) by (simp add: parse_bdaddr_def)
qed

end
