(* ===== verification/Brcm_Hci.thy ===== *)
theory Brcm_Hci
  imports Brcm_Opts
begin

text \<open>
  The Broadcom loader brcm_patchram_plus1.c, continued: the exchange with the controller, the
  choice and the download of the firmware file, and the main program. The output of the option \<open>-d\<close>
  is left out.
\<close>

section \<open>Events and commands\<close>

text \<open>How much the script of the line has left; every read of at least one byte uses some of it.\<close>

definition rq_size :: "bytes option list \<Rightarrow> nat" where
  "rq_size q = sum_list (map (\<lambda>a. case a of None \<Rightarrow> 1 | Some bs \<Rightarrow> length bs + 1) q)"

lemma do_read_size: "do_read n s = Ret (c, bs, s') \<Longrightarrow> n \<noteq> 0 \<Longrightarrow> rq_size (read_q s') < rq_size (read_q s)"
  by (auto simp: do_read_def rq_size_def split: list.splits option.splits if_splits)

text \<open>
  One of the two loops of \<open>read_event\<close>: \<open>i\<close> is where the next bytes go and \<open>len\<close> how many are
  missing. A failed read counts as -1.
\<close>

function rd_loop :: "int \<Rightarrow> int \<Rightarrow> brcm \<Rightarrow> (int \<times> brcm) res" where
  "rd_loop i len s =
     rbind (do_read (nat len) s) (\<lambda>(count, bs, s).
     rbind (if bs = [] then Ret (buffer s) else check (0 \<le> i) (arr_put (buffer s) (nat i) bs)) (\<lambda>b.
       if count < len then rd_loop (i + count) (len - count) (s\<lparr>buffer := b\<rparr>)
       else Ret (i + count, s\<lparr>buffer := b\<rparr>)))"
  by pat_completeness auto
termination
proof (relation "measure (\<lambda>(i, len, s). rq_size (read_q s))", simp, clarsimp)
  fix i len :: int and s s' :: brcm and count :: int and bs b
  assume r: "do_read (nat len) s = Ret (count, bs, s')" and lt: "count < len"
  have "nat len \<noteq> 0"
  proof
    assume "nat len = 0"
    with r lt show False by (simp add: do_read_def)
  qed
  with r show "rq_size (read_q s') < rq_size (read_q s)" by (rule do_read_size)
qed

declare rd_loop.simps [simp del]

definition read_event :: "brcm \<Rightarrow> brcm res" where
  "read_event s =
     rbind (rd_loop 0 3 s) (\<lambda>(i, s).
     rbind (arr_get (buffer s) 2) (\<lambda>l.
     rbind (rd_loop i (int (unat l)) s) (\<lambda>(_, s). Ret s)))"

text \<open>The result of \<open>write\<close> is not looked at.\<close>

definition hci_send_cmd :: "bytes \<Rightarrow> brcm \<Rightarrow> brcm" where
  "hci_send_cmd buf s = (case do_write buf s of (_, _, s) \<Rightarrow> s)"

definition send_and_read :: "bytes \<Rightarrow> brcm \<Rightarrow> brcm res" where
  "send_and_read buf s = read_event (hci_send_cmd buf s)"

text \<open>
  While the reset waits for its event, the alarm repeats the command every four seconds; the read
  it interrupts is restarted (\<open>signal\<close> of the GNU library).
\<close>

definition expired :: "brcm \<Rightarrow> brcm" where
  "expired s = hci_send_cmd hci_reset s"

definition alarms :: "brcm \<Rightarrow> nat" where
  "alarms s = (case alarm_q s of [] \<Rightarrow> 0 | k # _ \<Rightarrow> k)"

definition proc_reset :: "brcm \<Rightarrow> brcm res" where
  "proc_reset s =
     (let k = alarms s; s = hci_send_cmd hci_reset (s\<lparr>alarm_q := tl (alarm_q s)\<rparr>)
      in read_event ((expired ^^ k) s))"

section \<open>The name of the controller\<close>

definition c_toupper :: "u8 \<Rightarrow> u8" where
  "c_toupper c = (if 97 \<le> c \<and> c \<le> 122 then c - 32 else c)"

definition c_tolower :: "u8 \<Rightarrow> u8" where
  "c_tolower c = (if 65 \<le> c \<and> c \<le> 90 then c + 32 else c)"

text \<open>
  The loop both conversions share, over the array from \<open>p\<close> on: it goes on for the length of the
  name buffer and then, because of the disjunction in its condition, up to the next zero.
\<close>

function case_loop :: "(u8 \<Rightarrow> u8) \<Rightarrow> nat \<Rightarrow> nat \<Rightarrow> bytes \<Rightarrow> bytes res" where
  "case_loop f p i arr =
     (if \<not> p + i < length arr then Fault
      else if i < LOCAL_NAME_BUFFER_LEN \<or> arr ! (p + i) \<noteq> 0
      then case_loop f p (Suc i) (arr[p + i := f (arr ! (p + i))])
      else Ret arr)"
  by pat_completeness auto
termination
  by (relation "measure (\<lambda>(f, p, i, arr). length arr - (p + i))") auto

declare case_loop.simps [simp del]

text \<open>\<open>strcpy\<close> out of and into an array.\<close>

definition arr_str :: "bytes \<Rightarrow> nat \<Rightarrow> bytes res" where
  "arr_str arr p = check (0 \<in> set (drop p arr)) (Ret (c_str (drop p arr)))"

definition proc_read_local_name :: "brcm \<Rightarrow> brcm res" where
  "proc_read_local_name s =
     rbind (send_and_read hci_read_local_name s) (\<lambda>s.
     rbind (case_loop c_toupper 7 0 (buffer s)) (\<lambda>b.
     rbind (arr_str b 7) (\<lambda>nm.
     rbind (arr_put (local_name s) 0 (nm @ [0])) (\<lambda>l.
       Ret (s\<lparr>buffer := b, local_name := l\<rparr>)))))"

section \<open>Choosing the firmware file\<close>

definition fw_auto_detection_table :: "(string \<times> string) list" where
  "fw_auto_detection_table = [
     (''BCM43430A1'', ''BCM4343A1''), (''BCM20702A'', ''BCM20710A1''), (''BCM4335C0'', ''BCM4335C0''),
     (''BCM4330B1'', ''BCM40183B2''), (''BCM4324B3'', ''BCM43241B4''), (''BCM4350C0'', ''BCM4350C0''),
     (''BCM4345C5'', ''BCM4345C5''), (''BCM4354A2'', ''BCM4356A2''), (''BCM4345C0'', ''BCM4345C0''),
     (''BCM43430B0'', ''BCM4343B0''), (''BCM4359C0'', ''BCM4359C0''), (''BCM4349B1'', ''BCM4359B1''),
     (''BCM4359C0'', ''BCM4359C0''), (''BCM4362A2'', ''BCM4362A2''), (''BCM4381A1'', ''BCM4381A1''),
     (''BCM43013A0'', ''BCM43013A0''), (''SYN43756B0'', ''SYN43756B0'')]"

fun strstr :: "bytes \<Rightarrow> bytes \<Rightarrow> bool" where
  "strstr [] needle = (needle = [])"
| "strstr (c # hay) needle = (take (length needle) (c # hay) = needle \<or> strstr hay needle)"

text \<open>The chip of the table found in the name, or the name itself.\<close>

fun fw_scan :: "bytes \<Rightarrow> (string \<times> string) list \<Rightarrow> bytes option" where
  "fw_scan nm [] = None"
| "fw_scan nm ((chip, updated) # es) =
     (if strstr nm (string_bytes chip) then Some (string_bytes updated) else fw_scan nm es)"

definition bytes_string :: "bytes \<Rightarrow> string" where
  "bytes_string bs = map (\<lambda>b. char_of (unat b)) bs"

text \<open>\<open>sprintf (fw_path, "%s/%s.hcd", ...)\<close> into an array of 1024 bytes.\<close>

definition fw_path :: "brcm \<Rightarrow> string res" where
  "fw_path s =
     rbind (arr_str (fw_folder_path s) 0) (\<lambda>dir.
     rbind (arr_str (local_name s) 0) (\<lambda>nm.
     let path = bytes_string dir @ ''/'' @ bytes_string nm @ ''.hcd''
     in check (length path < 1024) (Ret path)))"

definition hcd_open :: "file_system \<Rightarrow> string \<Rightarrow> brcm \<Rightarrow> brcm" where
  "hcd_open fs path s =
     (case fs path of
        None \<Rightarrow> s\<lparr>hcdfile_fd := -1\<rparr>
      | Some f \<Rightarrow>
          if f_open f then (case do_sys 4 s of (fd, s) \<Rightarrow> s\<lparr>hcdfile_fd := fd, hcd := f_data f\<rparr>)
          else s\<lparr>hcdfile_fd := -1\<rparr>)"

definition proc_open_patchram :: "file_system \<Rightarrow> brcm \<Rightarrow> brcm res" where
  "proc_open_patchram fs s =
     rbind (arr_str (local_name s) 0) (\<lambda>nm.
     rbind (case fw_scan nm fw_auto_detection_table of
              None \<Rightarrow> Ret (local_name s)
            | Some u \<Rightarrow> arr_put (local_name s) 0 (u @ [0])) (\<lambda>l.
     let s = s\<lparr>local_name := l\<rparr> in
     rbind (fw_path s) (\<lambda>path.
     let s = hcd_open fs path s in
     if hcdfile_fd s \<noteq> -1 then Ret s else
       rbind (case_loop c_tolower 0 0 (local_name s)) (\<lambda>l.
       let s = s\<lparr>local_name := l\<rparr> in
       rbind (fw_path s) (\<lambda>path.
       let s = hcd_open fs path s in
       if hcdfile_fd s \<noteq> -1 then Ret s else Exit 5)))))"

section \<open>Downloading\<close>

definition hcd_read :: "nat \<Rightarrow> brcm \<Rightarrow> int \<times> bytes \<times> brcm" where
  "hcd_read n s =
     (case hcd s of
        None \<Rightarrow> (-1, [], s)
      | Some d \<Rightarrow> (int (length (take n d)), take n d, s\<lparr>hcd := Some (drop n d)\<rparr>))"

text \<open>One record: its bytes at \<open>buffer[1]\<close>, the packet type in front, and the event after it.\<close>

definition patch_record :: "bytes \<Rightarrow> brcm \<Rightarrow> brcm res" where
  "patch_record head s =
     rbind (arr_put (buffer s) 1 head) (\<lambda>b.
     rbind (arr_put b 0 [0x01]) (\<lambda>b.
     rbind (arr_get b 3) (\<lambda>l.
     case hcd_read (unat l) s of (_, d, s) \<Rightarrow>
     rbind (arr_put b 4 d) (\<lambda>b.
     rbind (arr_slice b 0 (unat l + 4)) (\<lambda>cmd.
       Ret (hci_send_cmd cmd (s\<lparr>buffer := b\<rparr>)))))))"

lemma send_cmd_read_q [simp]: "read_q (hci_send_cmd buf s) = read_q s"
  by (rule do_write_shape [of buf s]) (simp add: hci_send_cmd_def)

lemma patch_record_read_q: "patch_record head s = Ret s' \<Longrightarrow> read_q s' = read_q s"
  by (auto simp: patch_record_def hcd_read_def split: option.splits)

lemma do_read_le: "do_read n s = Ret (c, bs, s') \<Longrightarrow> rq_size (read_q s') \<le> rq_size (read_q s)"
  by (auto simp: do_read_def rq_size_def split: list.splits option.splits if_splits)

text \<open>One round of the loop.\<close>

lemma rd_loop_cases:
  assumes "rd_loop i len s = Ret (j, s')"
  shows "\<exists>count bs s1 t. do_read (nat len) s = Ret (count, bs, s1) \<and> read_q t = read_q s1 \<and>
    (count < len \<and> rd_loop (i + count) (len - count) t = Ret (j, s') \<or> \<not> count < len \<and> s' = t)"
proof -
  obtain count bs s1 b where "do_read (nat len) s = Ret (count, bs, s1)"
    and "(if count < len then rd_loop (i + count) (len - count) (s1\<lparr>buffer := b\<rparr>)
       else Ret (i + count, s1\<lparr>buffer := b\<rparr>)) = Ret (j, s')"
    using assms unfolding rd_loop.simps [of i len s] by auto
  then show ?thesis
    by (intro exI [of _ count] exI [of _ bs] exI [of _ s1] exI [of _ "s1\<lparr>buffer := b\<rparr>"]) (simp split: if_splits)
qed

lemma rd_loop_size: "rd_loop i len s = Ret (j, s') \<Longrightarrow> rq_size (read_q s') \<le> rq_size (read_q s)"
proof (induction "rq_size (read_q s)" arbitrary: i len s rule: less_induct)
  case less
  obtain count bs s1 t where r: "do_read (nat len) s = Ret (count, bs, s1)" "read_q t = read_q s1"
    and rest: "count < len \<and> rd_loop (i + count) (len - count) t = Ret (j, s') \<or> \<not> count < len \<and> s' = t"
    using rd_loop_cases [OF less.prems] by blast
  show ?case
  proof (cases "count < len")
    case True
    have "nat len \<noteq> 0"
    proof
      assume "nat len = 0"
      with r True show False by (simp add: do_read_def)
    qed
    then have lt: "rq_size (read_q t) < rq_size (read_q s)" using do_read_size [OF r(1)] r(2) by simp
    have "rd_loop (i + count) (len - count) t = Ret (j, s')" using rest True by simp
    from less.hyps [OF lt this] lt show ?thesis by simp
  next
    case False
    then show ?thesis using rest do_read_le [OF r(1)] r(2) by simp
  qed
qed

lemma read_event_size: "read_event s = Ret s' \<Longrightarrow> rq_size (read_q s') < rq_size (read_q s)"
proof -
  assume "read_event s = Ret s'"
  then obtain i s1 j n where first: "rd_loop 0 3 s = Ret (i, s1)" and second: "rd_loop i n s1 = Ret (j, s')"
    by (auto simp: read_event_def)
  obtain count bs s2 t where r: "do_read (nat 3) s = Ret (count, bs, s2)" "read_q t = read_q s2"
    and rest: "count < 3 \<and> rd_loop (0 + count) (3 - count) t = Ret (i, s1) \<or> \<not> count < 3 \<and> s1 = t"
    using rd_loop_cases [OF first] by blast
  have "rq_size (read_q s1) \<le> rq_size (read_q t)"
    using rest rd_loop_size [of "0 + count" "3 - count" t i s1] by auto
  then show ?thesis using do_read_size [OF r(1)] rd_loop_size [OF second] r(2) by simp
qed

function patch_loop :: "brcm \<Rightarrow> brcm res" where
  "patch_loop s =
     (case hcd_read 3 s of (count, head, s) \<Rightarrow>
      if count = 0 then Ret s else
      rbind (patch_record head s) (\<lambda>s. rbind (read_event s) patch_loop))"
  by pat_completeness auto
termination
proof (relation "measure (\<lambda>s. rq_size (read_q s))", simp, clarsimp)
  fix s s1 s2 s3 :: brcm and count :: int and head
  assume "(count, head, s1) = hcd_read 3 s" and "patch_record head s1 = Ret s2" and "read_event s2 = Ret s3"
  then show "rq_size (read_q s3) < rq_size (read_q s)"
    using read_event_size [of s2 s3] patch_record_read_q [of head s1 s2]
    by (auto simp: hcd_read_def split: option.splits)
qed

declare patch_loop.simps [simp del]

definition proc_patchram :: "brcm \<Rightarrow> brcm res" where
  "proc_patchram s =
     rbind (send_and_read hci_download_minidriver s) (\<lambda>s.
     rbind (if no2bytes s then Ret s
            else rbind (do_read 2 s) (\<lambda>(_, bs, s). rbind (arr_put (buffer s) 0 bs) (\<lambda>b.
              Ret (s\<lparr>buffer := b\<rparr>)))) (\<lambda>s.
     rbind (patch_loop s) (\<lambda>s.
       let s = (if use_baudrate_for_download s
                then snd (do_tcsetattr (s\<lparr>ti_speed := 115200\<rparr>)) else s)
       in proc_reset s)))"

section \<open>The other steps\<close>

definition proc_baudrate :: "brcm \<Rightarrow> brcm res" where
  "proc_baudrate s =
     rbind (send_and_read (hci_update_baud_rate s) s) (\<lambda>s.
       Ret (snd (do_tcsetattr (s\<lparr>ti_speed := termios_baudrate s\<rparr>))))"

definition proc_bdaddr :: "brcm \<Rightarrow> brcm res" where
  "proc_bdaddr s = send_and_read (hci_write_bd_addr s) s"

definition proc_enable_lpm :: "brcm \<Rightarrow> brcm res" where
  "proc_enable_lpm s = send_and_read hci_write_sleep_mode s"

definition proc_scopcm :: "brcm \<Rightarrow> brcm res" where
  "proc_scopcm s =
     rbind (send_and_read (hci_write_sco_pcm_int s) s) (\<lambda>s.
       send_and_read (hci_write_pcm_data_format s) s)"

definition proc_i2s :: "brcm \<Rightarrow> brcm res" where
  "proc_i2s s = send_and_read (hci_write_i2spcm_interface_param s) s"

text \<open>The two \<open>ioctl\<close>s, of which nothing else depends.\<close>

definition proc_enable_hci :: "brcm \<Rightarrow> brcm" where
  "proc_enable_hci s = (case do_sys 0 s of (r, s) \<Rightarrow> if r < 0 then s else snd (do_sys 0 s))"

text \<open>\<open>init_uart\<close>: raw mode with flow control, and the speed with the third \<open>tcsetattr\<close>.\<close>

definition brcm_init_uart :: "brcm \<Rightarrow> brcm" where
  "brcm_init_uart s =
     (let s = s\<lparr>ti_cflag := (ti_cflag s AND NOT (0x30 OR PARENB) OR 0x30) OR CRTSCTS\<rparr>;
          s = snd (do_tcsetattr (snd (do_tcsetattr s)))
      in snd (do_tcsetattr (s\<lparr>ti_speed := 115200\<rparr>)))"

section \<open>The main program\<close>

text \<open>The steps an option asks for.\<close>

definition opt_step :: "bool \<Rightarrow> (brcm \<Rightarrow> brcm res) \<Rightarrow> brcm \<Rightarrow> brcm res" where
  "opt_step b f s = (if b then f s else Ret s)"

definition brcm_setup :: "brcm \<Rightarrow> brcm res" where
  "brcm_setup s =
     rbind (opt_step (use_baudrate_for_download s \<and> termios_baudrate s \<noteq> 0) proc_baudrate s) (\<lambda>s.
     rbind (opt_step (hcdfile_fd s > 0) proc_patchram s) (\<lambda>s.
     rbind (opt_step (termios_baudrate s \<noteq> 0) proc_baudrate s) (\<lambda>s.
     rbind (opt_step (bdaddr_flag s) proc_bdaddr s) (\<lambda>s.
     rbind (opt_step (enable_lpm s) proc_enable_lpm s) (\<lambda>s.
     rbind (opt_step (scopcm s) proc_scopcm s) (\<lambda>s.
     rbind (opt_step (i2s s) proc_i2s s) (\<lambda>s.
       Ret (if enable_hci s then proc_enable_hci s else s))))))))"

text \<open>
  \<open>main\<close>: the final state, before the program sleeps for ever when \<open>enable_hci\<close> is set and exits
  with status 0 otherwise.
\<close>

definition brcm_main :: "file_system \<Rightarrow> string list \<Rightarrow> brcm \<Rightarrow> brcm res" where
  "brcm_main fs argv s =
     rbind (parse_cmd_line fs argv s) (\<lambda>(r, s).
     if r \<noteq> 0 then Exit 1
     else if uart_fd s < 0 then Exit 2
     else
       rbind (proc_reset (brcm_init_uart s)) (\<lambda>s.
       rbind (proc_read_local_name s) (\<lambda>s.
       rbind (proc_open_patchram fs s) brcm_setup)))"

section \<open>Reading events\<close>

text \<open>
  The line delivers the bytes of a stream in pieces that are not empty, and then whatever \<open>rest\<close>
  holds.
\<close>

definition stream :: "bytes \<Rightarrow> bytes option list \<Rightarrow> brcm \<Rightarrow> bool" where
  "stream bs rest s \<longleftrightarrow> (\<exists>cs. read_q s = map Some cs @ rest \<and> list_all (\<lambda>c. c \<noteq> []) cs \<and> concat cs = bs)"

lemma stream_nil: "stream [] rest s \<Longrightarrow> read_q s = rest"
proof -
  assume "stream [] rest s"
  then obtain cs where "read_q s = map Some cs @ rest" "list_all (\<lambda>c. c \<noteq> []) cs" "concat cs = []"
    by (auto simp: stream_def)
  moreover from this have "cs = []" by (cases cs) auto
  ultimately show ?thesis by simp
qed

lemma do_read_stream:
  assumes "stream bs rest s" and "0 < n" and "n \<le> length bs"
  obtains k s' where "do_read n s = Ret (int k, take k bs, s')" and "0 < k" and "k \<le> n"
    and "stream (drop k bs) rest s'" and "\<exists>q. s' = s\<lparr>read_q := q\<rparr>"
proof -
  obtain cs where cs: "read_q s = map Some cs @ rest" "list_all (\<lambda>c. c \<noteq> []) cs" "concat cs = bs"
    using assms(1) by (auto simp: stream_def)
  have "cs \<noteq> []" using cs(3) assms(2,3) by auto
  then obtain c cs' where c: "cs = c # cs'" by (cases cs) auto
  show ?thesis
  proof (cases "length c \<le> n")
    case True
    show ?thesis
    proof (rule that)
      show "do_read n s = Ret (int (length c), take (length c) bs, s\<lparr>read_q := map Some cs' @ rest\<rparr>)"
        using cs c True assms(2) by (auto simp: do_read_def)
      show "stream (drop (length c) bs) rest (s\<lparr>read_q := map Some cs' @ rest\<rparr>)"
        using cs c by (auto simp: stream_def)
    qed (use cs c True in auto)
  next
    case False
    show ?thesis
    proof (rule that)
      show "do_read n s = Ret (int n, take n bs, s\<lparr>read_q := map Some (drop n c # cs') @ rest\<rparr>)"
        using cs c False assms(2) by (auto simp: do_read_def)
      have "concat (drop n c # cs') = drop n bs" "list_all (\<lambda>c. c \<noteq> []) (drop n c # cs')"
        using cs c False by auto
      then show "stream (drop n bs) rest (s\<lparr>read_q := map Some (drop n c # cs') @ rest\<rparr>)"
        unfolding stream_def by (intro exI [of _ "drop n c # cs'"]) simp
    qed (use assms(2) in auto)
  qed
qed

lemma rd_loop_stream:
  assumes "stream bs rest s" and "n \<le> length bs" and "i + n \<le> length (buffer s)"
  shows "\<exists>q. rd_loop (int i) (int n) s = Ret (int (i + n),
      s\<lparr>read_q := q, buffer := take i (buffer s) @ take n bs @ drop (i + n) (buffer s)\<rparr>) \<and>
    stream (drop n bs) rest (s\<lparr>read_q := q\<rparr>)"
  using assms
proof (induction n arbitrary: i bs s rule: less_induct)
  case (less n)
  show ?case
  proof (cases "n = 0")
    case True
    then have "rd_loop (int i) (int n) s = Ret (int i, s\<lparr>read_q := read_q s, buffer := buffer s\<rparr>)"
      by (subst rd_loop.simps) (simp add: do_read_def)
    then show ?thesis using True less.prems(1) by (intro exI [of _ "read_q s"]) simp
  next
    case False
    obtain k s1 where r: "do_read n s = Ret (int k, take k bs, s1)" "0 < k" "k \<le> n"
      and st: "stream (drop k bs) rest s1" and "\<exists>q. s1 = s\<lparr>read_q := q\<rparr>"
      using do_read_stream [OF less.prems(1) _ less.prems(2)] False by auto
    then obtain q where s1: "s1 = s\<lparr>read_q := q\<rparr>" by blast
    define b where "b = take i (buffer s) @ take k bs @ drop (i + k) (buffer s)"
    have k: "length (take k bs) = k" "take k bs \<noteq> []" using r(2,3) less.prems(2) by auto
    have put: "arr_put (buffer s1) i (take k bs) = Ret b"
      using k(1) r(3) less.prems(3) by (simp add: s1 b_def arr_put_def)
    have len: "length b = length (buffer s)" using k(1) r(3) less.prems(3) by (simp add: b_def)
    show ?thesis
    proof (cases "k < n")
      case True
      have st2: "stream (drop k bs) rest (s1\<lparr>buffer := b\<rparr>)" using st by (simp add: stream_def)
      obtain q2 where q2: "rd_loop (int (i + k)) (int (n - k)) (s1\<lparr>buffer := b\<rparr>) = Ret (int (i + k + (n - k)),
            s1\<lparr>read_q := q2, buffer := take (i + k) b @ take (n - k) (drop k bs) @ drop (i + k + (n - k)) b\<rparr>)"
          "stream (drop (n - k) (drop k bs)) rest (s1\<lparr>read_q := q2\<rparr>)"
        using less.IH [OF _ st2, of "n - k" "i + k"] r(2,3) True diff_le_mono [OF less.prems(2), of k]
          less.prems(3) len by (auto simp: stream_def)
      have b2: "take (i + k) b @ take (n - k) (drop k bs) @ drop (i + k + (n - k)) b =
          take i (buffer s) @ take n bs @ drop (i + n) (buffer s)"
        using k(1) r(3) less.prems(2,3) True take_add [of k "n - k" bs]
        by (simp add: b_def add.commute)
      have "rd_loop (int i) (int n) s = rd_loop (int (i + k)) (int (n - k)) (s1\<lparr>buffer := b\<rparr>)"
        using r True k(2) put by (subst rd_loop.simps) (simp add: of_nat_diff)
      then show ?thesis using q2 r(3) b2 True by (intro exI [of _ q2]) (simp add: s1)
    next
      case nolt: False
      then have kn: "k = n" using r(3) by simp
      have "rd_loop (int i) (int n) s = Ret (int (i + n), s1\<lparr>buffer := b\<rparr>)"
        using r k(2) put by (subst rd_loop.simps) (simp add: kn)
      then show ?thesis using st by (intro exI [of _ q]) (simp add: s1 b_def kn)
    qed
  qed
qed

text \<open>An event of HCI: the packet type, the event code, the length of the parameters, and these.\<close>

definition wf_event :: "bytes \<Rightarrow> bool" where
  "wf_event e \<longleftrightarrow> 3 \<le> length e \<and> length e = 3 + unat (e ! 2)"

lemma read_event_stream:
  assumes "stream (e @ later) rest s" and "wf_event e" and "length (buffer s) = 1024"
  shows "\<exists>q. read_event s = Ret (s\<lparr>read_q := q, buffer := e @ drop (length e) (buffer s)\<rparr>) \<and>
    stream later rest (s\<lparr>read_q := q\<rparr>)"
proof -
  have e: "3 \<le> length e" "length e = 3 + unat (e ! 2)" "length e \<le> 258"
    using assms(2) unat_u8_lt [of "e ! 2"] by (auto simp: wf_event_def)
  obtain q1 where q1: "rd_loop 0 3 s = Ret (3, s\<lparr>read_q := q1, buffer := take 3 e @ drop 3 (buffer s)\<rparr>)"
      "stream (drop 3 e @ later) rest (s\<lparr>read_q := q1\<rparr>)"
    using rd_loop_stream [OF assms(1), of 3 0] e assms(3) by auto
  define s1 where "s1 = s\<lparr>read_q := q1, buffer := take 3 e @ drop 3 (buffer s)\<rparr>"
  have s1: "stream (drop 3 e @ later) rest s1" "length (buffer s1) = 1024"
    using q1(2) assms(3) e(1) by (simp_all add: s1_def stream_def)
  have two: "arr_get (buffer s1) 2 = Ret (e ! 2)"
    using s1(2) e(1) by (simp add: arr_get_def s1_def nth_append)
  obtain q2 where q2: "rd_loop (int 3) (int (unat (e ! 2))) s1 = Ret (int (3 + unat (e ! 2)),
        s1\<lparr>read_q := q2, buffer := take 3 (buffer s1) @ take (unat (e ! 2)) (drop 3 e @ later) @
          drop (3 + unat (e ! 2)) (buffer s1)\<rparr>)"
      "stream (drop (unat (e ! 2)) (drop 3 e @ later)) rest (s1\<lparr>read_q := q2\<rparr>)"
    using rd_loop_stream [OF s1(1), of "unat (e ! 2)" 3] e s1(2) by auto
  have "take 3 (buffer s1) @ take (unat (e ! 2)) (drop 3 e @ later) @ drop (3 + unat (e ! 2)) (buffer s1)
      = e @ drop (length e) (buffer s)"
    using e by (simp add: s1_def add.commute flip: append_assoc)
  then have "read_event s = Ret (s\<lparr>read_q := q2, buffer := e @ drop (length e) (buffer s)\<rparr>)"
    using q1(1) q2(1) two by (simp add: read_event_def s1_def [symmetric]) (simp add: s1_def)
  moreover have "stream later rest (s\<lparr>read_q := q2\<rparr>)"
    using q2(2) e(2) by (simp add: stream_def s1_def)
  ultimately show ?thesis by blast
qed

lemma send_and_read_stream:
  assumes "stream (e @ later) rest s" and "wf_event e" and "length (buffer s) = 1024" and "write_q s = []"
  shows "\<exists>q. send_and_read cmd s = Ret (s\<lparr>tx_log := tx_log s @ [cmd], read_q := q,
       buffer := e @ drop (length e) (buffer s)\<rparr>) \<and> stream later rest (s\<lparr>read_q := q\<rparr>)"
proof -
  let ?s = "s\<lparr>tx_log := tx_log s @ [cmd]\<rparr>"
  have "stream (e @ later) rest ?s" "length (buffer ?s) = 1024"
    using assms(1,3) by (simp_all add: stream_def)
  from read_event_stream [OF this(1) assms(2) this(2)]
  obtain q where "read_event ?s = Ret (?s\<lparr>read_q := q, buffer := e @ drop (length e) (buffer ?s)\<rparr>)"
      "stream later rest (?s\<lparr>read_q := q\<rparr>)" by blast
  then show ?thesis
    using assms(4) by (intro exI [of _ q]) (simp add: send_and_read_def hci_send_cmd_def stream_def)
qed

section \<open>The firmware file\<close>

text \<open>A record of the file is the command it holds: opcode, length and parameters.\<close>

definition hcd_record :: "u8 \<times> u8 \<times> bytes \<Rightarrow> bytes" where
  "hcd_record r = (case r of (o0, o1, ps) \<Rightarrow> [o0, o1, of_nat (length ps)] @ ps)"

definition wf_record :: "u8 \<times> u8 \<times> bytes \<Rightarrow> bool" where
  "wf_record r \<longleftrightarrow> length (snd (snd r)) < 256"

lemma four_len: "(Suc 0 + Suc 0 + Suc 0 + Suc 0) + n = n + 4" "0 + Suc 0 = Suc 0"
  by simp_all

lemma four_Suc: "Suc (Suc (Suc (Suc 0))) = 4"
  by simp

lemma patch_record_sends:
  assumes "hcd s = Some (ps @ rem)" and "length ps < 256" and "length (buffer s) = 1024" and "write_q s = []"
  shows "patch_record [o0, o1, of_nat (length ps)] s = Ret (s\<lparr>hcd := Some rem,
     tx_log := tx_log s @ [0x01 # hcd_record (o0, o1, ps)],
     buffer := 0x01 # hcd_record (o0, o1, ps) @ drop (length ps + 4) (buffer s)\<rparr>)"
proof -
  have l: "unat (of_nat (length ps) :: u8) = length ps" using assms(2) by (simp add: unat_of_nat_small)
  let ?head = "[o0, o1, of_nat (length ps)]" and ?B = "buffer s"
  have one: "arr_put ?B 1 ?head = Ret (take 1 ?B @ ?head @ drop 4 ?B)"
    using assms(3) by (simp add: arr_put_def four_Suc)
  have two: "arr_put (take 1 ?B @ ?head @ drop 4 ?B) 0 [0x01] = Ret ((0x01 # ?head) @ drop 4 ?B)"
    using assms(3) by (simp add: arr_put_def)
  define R where "R = drop 4 ?B"
  have R: "drop (length ps) R = drop (length ps + 4) ?B" "length R = 1020" using assms(3) by (simp_all add: R_def)
  have "drop 4 ((0x01 # ?head) @ R) = R" "take 4 ((0x01 # ?head) @ R) = 0x01 # ?head" by simp_all
  moreover have "drop (4 + length ps) ((0x01 # ?head) @ R) = drop (length ps) (drop 4 ((0x01 # ?head) @ R))"
    by (simp only: drop_drop add.commute)
  ultimately have "arr_put ((0x01 # ?head) @ R) 4 ps = Ret ((0x01 # ?head) @ ps @ drop (length ps) R)"
    using assms(2) R(2) by (simp add: arr_put_def)
  then have three: "arr_put ((0x01 # ?head) @ drop 4 ?B) 4 ps =
      Ret ((0x01 # ?head) @ ps @ drop (length ps + 4) ?B)"
    using R(1) by (simp add: R_def)
  have "arr_slice (P @ T) 0 (length P) = Ret P" for P T :: bytes by (simp add: arr_slice_def)
  from this [of "(0x01 # ?head) @ ps" "drop (length ps + 4) ?B"]
  have four: "arr_slice ((0x01 # ?head) @ ps @ drop (length ps + 4) ?B) 0 (length ps + 4) = Ret ((0x01 # ?head) @ ps)"
    by (simp only: append_assoc length_append list.size four_len)
  have get: "arr_get ((0x01 # ?head) @ drop 4 ?B) 3 = Ret (of_nat (length ps))"
    by (simp add: arr_get_def)
  have hcdr: "hcd_read (length ps) s = (int (length ps), ps, s\<lparr>hcd := Some rem\<rparr>)"
    using assms(1) by (simp add: hcd_read_def)
  show ?thesis
    unfolding patch_record_def one rbind.simps two get l hcdr prod.case three four
    using assms(4) by (simp add: hci_send_cmd_def hcd_record_def)
qed

lemma patch_loop_sends:
  assumes "hcd s = Some (concat (map hcd_record rs))" and "list_all wf_record rs"
    and "length es = length rs" and "list_all wf_event es" and "stream (concat es @ later) rest s"
    and "length (buffer s) = 1024" and "write_q s = []"
  shows "\<exists>q b. patch_loop s = Ret (s\<lparr>hcd := Some [], read_q := q, buffer := b,
       tx_log := tx_log s @ map (\<lambda>r. 0x01 # hcd_record r) rs\<rparr>) \<and> length b = 1024 \<and>
     stream later rest (s\<lparr>read_q := q\<rparr>)"
  using assms
proof (induction rs arbitrary: es s)
  case Nil
  then have "patch_loop s = Ret (s\<lparr>hcd := Some [], read_q := read_q s, buffer := buffer s,
      tx_log := tx_log s @ []\<rparr>)"
    by (subst patch_loop.simps) (simp add: hcd_read_def)
  then show ?case using Nil by (intro exI [of _ "read_q s"] exI [of _ "buffer s"]) simp
next
  case (Cons r rs)
  obtain o0 o1 ps where r: "r = (o0, o1, ps)" by (cases r) auto
  obtain e es' where es: "es = e # es'" using Cons.prems(3) by (cases es) auto
  define s1 where "s1 = s\<lparr>hcd := Some (ps @ concat (map hcd_record rs))\<rparr>"
  have head: "hcd_read 3 s = (3, [o0, o1, of_nat (length ps)], s1)"
  proof -
    have "hcd_record r = [o0, o1, of_nat (length ps)] @ ps" by (simp add: r hcd_record_def)
    then show ?thesis using Cons.prems(1) by (simp add: hcd_read_def s1_def)
  qed
  define s2 where "s2 = s1\<lparr>hcd := Some (concat (map hcd_record rs)),
     tx_log := tx_log s1 @ [0x01 # hcd_record (o0, o1, ps)],
     buffer := 0x01 # hcd_record (o0, o1, ps) @ drop (length ps + 4) (buffer s1)\<rparr>"
  have sent: "patch_record [o0, o1, of_nat (length ps)] s1 = Ret s2"
    unfolding s2_def by (rule patch_record_sends) (use Cons.prems r in \<open>auto simp: s1_def wf_record_def\<close>)
  have s2: "stream (e @ (concat es' @ later)) rest s2" "length (buffer s2) = 1024"
    using Cons.prems(2,5,6) r es by (auto simp: s2_def s1_def stream_def hcd_record_def wf_record_def)
  have we: "wf_event e" using Cons.prems(4) es by simp
  obtain q where q: "read_event s2 = Ret (s2\<lparr>read_q := q, buffer := e @ drop (length e) (buffer s2)\<rparr>)"
      "stream (concat es' @ later) rest (s2\<lparr>read_q := q\<rparr>)"
    using read_event_stream [OF s2(1) we s2(2)] by blast
  define s3 where "s3 = s2\<lparr>read_q := q, buffer := e @ drop (length e) (buffer s2)\<rparr>"
  have len: "length (buffer s3) = 1024"
    using s2(2) we unat_u8_lt [of "e ! 2"] by (simp add: s3_def wf_event_def)
  have "patch_loop s = patch_loop s3"
    using head sent q(1) by (subst patch_loop.simps) (simp add: s3_def)
  moreover obtain q' b where "patch_loop s3 = Ret (s3\<lparr>hcd := Some [], read_q := q', buffer := b,
       tx_log := tx_log s3 @ map (\<lambda>r. 0x01 # hcd_record r) rs\<rparr>)" "length b = 1024"
      "stream later rest (s3\<lparr>read_q := q'\<rparr>)"
    using Cons.IH [of s3 es'] Cons.prems es q(2) len
    by (auto simp: s3_def s2_def s1_def stream_def)
  ultimately show ?case
    by (intro exI [of _ q'] exI [of _ b]) (simp add: s3_def s2_def s1_def r stream_def)
qed

lemma expired_log:
  "write_q s = [] \<Longrightarrow> (expired ^^ k) s = s\<lparr>tx_log := tx_log s @ replicate k hci_reset\<rparr>"
  by (induction k) (simp_all add: expired_def hci_send_cmd_def flip: replicate_append_same)

lemma proc_reset_stream:
  assumes "stream (e @ later) rest s" and "wf_event e" and "length (buffer s) = 1024" and "write_q s = []"
  shows "\<exists>q. proc_reset s = Ret (s\<lparr>alarm_q := tl (alarm_q s), tx_log := tx_log s @ replicate (Suc (alarms s)) hci_reset,
       read_q := q, buffer := e @ drop (length e) (buffer s)\<rparr>)"
proof -
  define u where "u = s\<lparr>alarm_q := tl (alarm_q s), tx_log := tx_log s @ replicate (Suc (alarms s)) hci_reset\<rparr>"
  have "proc_reset s = read_event u"
    using assms(4) by (simp add: proc_reset_def Let_def expired_log hci_send_cmd_def u_def)
  moreover have "stream (e @ later) rest u" "length (buffer u) = 1024" using assms by (simp_all add: u_def stream_def)
  ultimately show ?thesis using read_event_stream [of e later rest u] assms(2) by (auto simp: u_def)
qed

section \<open>The case conversion\<close>

lemma case_loop_outcome: "case_loop f p i arr = Fault \<or> (\<exists>a. case_loop f p i arr = Ret a)"
  by (induction f p i arr rule: case_loop.induct) (subst (1 2) case_loop.simps, auto)

lemma case_loop_keeps:
  "case_loop f p i arr = Ret arr' \<Longrightarrow> (\<And>x. x \<noteq> 0 \<Longrightarrow> f x \<noteq> 0) \<Longrightarrow>
     length arr' = length arr \<and> (\<forall>k < length arr. arr ! k \<noteq> 0 \<longrightarrow> arr' ! k \<noteq> 0)"
proof (induction f p i arr rule: case_loop.induct)
  case (1 f p i arr)
  show ?case
  proof (cases "p + i < length arr \<and> (i < LOCAL_NAME_BUFFER_LEN \<or> arr ! (p + i) \<noteq> 0)")
    case True
    then have "case_loop f p (Suc i) (arr[p + i := f (arr ! (p + i))]) = Ret arr'"
      using 1(2) by (subst (asm) case_loop.simps) simp
    with 1(1) [OF _ _ this 1(3)] True 1(3) show ?thesis by (auto simp: nth_list_update)
  next
    case False
    then show ?thesis using 1(2) by (subst (asm) case_loop.simps) (auto split: if_splits)
  qed
qed

text \<open>An array that ends where the name buffer does is always left by the loop.\<close>

lemma case_loop_short: "length arr \<le> p + LOCAL_NAME_BUFFER_LEN \<Longrightarrow> case_loop f p i arr = Fault"
proof (induction f p i arr rule: case_loop.induct)
  case (1 f p i arr)
  show ?case
  proof (cases "p + i < length arr")
    case True
    then have "i < LOCAL_NAME_BUFFER_LEN" using "1.prems" by simp
    then show ?thesis using "1.IH" True "1.prems" by (subst case_loop.simps) simp
  next
    case False
    then show ?thesis by (subst case_loop.simps) simp
  qed
qed

lemma toupper_nonzero: "x \<noteq> 0 \<Longrightarrow> c_toupper x \<noteq> 0"
  by (auto simp: c_toupper_def)

lemma length_takeWhile_ge: "k \<le> length xs \<Longrightarrow> (\<And>j. j < k \<Longrightarrow> P (xs ! j)) \<Longrightarrow> k \<le> length (takeWhile P xs)"
proof (induction k arbitrary: xs)
  case (Suc k)
  then obtain y ys where "xs = y # ys" by (cases xs) auto
  with Suc.prems(1) Suc.prems(2) [of 0] Suc.IH [of ys] Suc.prems(2) [of "Suc j" for j] show ?case by auto
qed simp

section \<open>Properties\<close>

text \<open>
  Claim C15. An event is put together from the line however it is cut: whatever pieces the reads
  return, \<open>read_event\<close> leaves the whole event at the start of the buffer, takes exactly its bytes
  from the stream, and stays inside the buffer.
\<close>
theorem read_event_assembles:
  assumes "stream (e @ later) rest s" and "wf_event e" and "length (buffer s) = 1024"
  shows "\<exists>q. read_event s = Ret (s\<lparr>read_q := q, buffer := e @ drop (length e) (buffer s)\<rparr>) \<and>
    stream later rest (s\<lparr>read_q := q\<rparr>)"
  by (rule read_event_stream [OF assms])


text \<open>
  Claim C37. A controller whose name has 32 characters or more overruns the name buffer: the copy
  after the conversion to upper case is longer than its destination.
\<close>
theorem local_name_overflow:
  assumes "stream e rest s" and "wf_event e" and "39 \<le> length e"
    and "\<forall>k < 32. e ! (7 + k) \<noteq> 0" and "length (buffer s) = 1024" and "length (local_name s) = 32"
    and "write_q s = []"
  shows "proc_read_local_name s = Fault"
proof -
  have "stream (e @ []) rest s" using assms(1) by simp
  from send_and_read_stream [OF this assms(2,5,7)]
  obtain q where q: "send_and_read hci_read_local_name s = Ret (s\<lparr>tx_log := tx_log s @ [hci_read_local_name],
      read_q := q, buffer := e @ drop (length e) (buffer s)\<rparr>)" (is "_ = Ret ?s") by blast
  have b: "buffer ?s ! (7 + k) \<noteq> 0" if "k < 32" for k
    using assms(3,4) that by (auto simp: nth_append)
  have len: "39 \<le> length (buffer ?s)" using assms(3) by simp
  show ?thesis
  proof (cases "case_loop c_toupper 7 0 (buffer ?s)")
    case (Ret a)
    have a: "length a = length (buffer ?s)" "\<forall>k < length (buffer ?s). buffer ?s ! k \<noteq> 0 \<longrightarrow> a ! k \<noteq> 0"
      using case_loop_keeps [OF Ret toupper_nonzero] by blast+
    have "32 \<le> length (c_str (drop 7 a))"
      unfolding c_str_def
    proof (rule length_takeWhile_ge)
      show "32 \<le> length (drop 7 a)" using a(1) len by simp
      show "drop 7 a ! j \<noteq> 0" if "j < 32" for j
        using a b [OF that] that len by (simp add: nth_drop)
    qed
    then have "arr_put (local_name s) 0 (c_str (drop 7 a) @ [0]) = Fault"
      using assms(6) by (simp add: arr_put_def)
    then show ?thesis using q Ret by (simp add: proc_read_local_name_def arr_str_def check_def)
  qed (use q case_loop_outcome [of c_toupper 7 0 "buffer ?s"] in \<open>auto simp: proc_read_local_name_def\<close>)
qed


section \<open>Examples\<close>

text \<open>A start of the program with a given script of the line.\<close>

definition demo_brcm :: "bytes option list \<Rightarrow> brcm" where
  "demo_brcm q = brcm_init \<lparr>malloc_q = [], write_q = [], read_q = q, timer_q = [], poll_q = [],
     epoll_q = [], tcset_q = [], tx_log = [], sys_q = [], ti_cflag = 0, ti_speed = 0, armed_msec = 0\<rparr>"

lemma demo_brcm_simps [simp]:
  "read_q (demo_brcm q) = q" "write_q (demo_brcm q) = []" "length (buffer (demo_brcm q)) = 1024"
  "length (local_name (demo_brcm q)) = 32" "no2bytes (demo_brcm q) = False"
  "use_baudrate_for_download (demo_brcm q) = False" "length (hci_update_baud_rate (demo_brcm q)) = 10"
  "tx_log (demo_brcm q) = []"
  by (simp_all add: demo_brcm_def brcm_init_def world.defs)

lemma streamI: "read_q s = map Some cs @ rest \<Longrightarrow> list_all (\<lambda>c. c \<noteq> []) cs \<Longrightarrow> stream (concat cs) rest s"
  by (auto simp: stream_def)

lemma read_event_assembles_witness:
  "\<exists>q. read_event (demo_brcm [Some [4], Some [14, 2, 7], Some [8, 4, 15], None]) =
     Ret ((demo_brcm [Some [4], Some [14, 2, 7], Some [8, 4, 15], None])\<lparr>read_q := q,
       buffer := [4, 14, 2, 7, 8] @ drop (length [4, 14, 2, 7, 8 :: u8])
         (buffer (demo_brcm [Some [4], Some [14, 2, 7], Some [8, 4, 15], None]))\<rparr>) \<and>
    stream [4, 15] [None] ((demo_brcm [Some [4], Some [14, 2, 7], Some [8, 4, 15], None])\<lparr>read_q := q\<rparr>)"
proof (rule read_event_assembles)
  show "stream ([4, 14, 2, 7, 8] @ [4, 15]) [None] (demo_brcm [Some [4], Some [14, 2, 7], Some [8, 4, 15], None])"
    using streamI [of "demo_brcm [Some [4], Some [14, 2, 7], Some [8, 4, 15], None]" "[[4], [14, 2, 7], [8, 4, 15]]" "[None]"]
    by simp
qed (simp_all add: wf_event_def)


lemma local_name_overflow_witness:
  "proc_read_local_name (demo_brcm [Some ([4, 14, 40, 1, 0x14, 0x0c, 0] @ replicate 36 65)]) = Fault"
proof (rule local_name_overflow [where rest = "[]"])
  show "stream ([4, 14, 40, 1, 0x14, 0x0c, 0] @ replicate 36 65) []
      (demo_brcm [Some ([4, 14, 40, 1, 0x14, 0x0c, 0] @ replicate 36 65)])"
    using streamI [of "demo_brcm [Some ([4, 14, 40, 1, 0x14, 0x0c, 0] @ replicate 36 65)]"
        "[[4, 14, 40, 1, 0x14, 0x0c, 0] @ replicate 36 65]" "[]"] by simp
  show "\<forall>k < 32. ([4, 14, 40, 1, 0x14, 0x0c, 0] @ replicate 36 (65 :: u8)) ! (7 + k) \<noteq> 0"
    by (simp add: nth_append)
qed (simp_all add: wf_event_def)


end
