(* ===== verification/Brcm_State.thy ===== *)
theory Brcm_State
  imports Brcm_Hci
begin

text \<open>
  What every step of brcm_patchram_plus1.c keeps of its state: the sizes of the global arrays, the
  commands prepared in them, and the packets sent so far.
\<close>

section \<open>Well-formed states\<close>

text \<open>
  A complete HCI command: the packet type, the operation code, and as many parameters as the fourth
  byte says.
\<close>

definition cmd_ok :: "bytes \<Rightarrow> bool" where
  "cmd_ok c \<longleftrightarrow> 4 \<le> length c \<and> c ! 0 = 0x01 \<and> length c = 4 + unat (c ! 3)"

definition brcm_wf :: "brcm \<Rightarrow> bool" where
  "brcm_wf s \<longleftrightarrow>
     length (buffer s) = 1024 \<and> length (local_name s) = 32 \<and> length (fw_folder_path s) = 1024 \<and>
     length (hci_update_baud_rate s) = 10 \<and> cmd_ok (hci_update_baud_rate s) \<and>
     length (hci_write_bd_addr s) = 10 \<and> cmd_ok (hci_write_bd_addr s) \<and>
     length (hci_write_sco_pcm_int s) = 9 \<and> cmd_ok (hci_write_sco_pcm_int s) \<and>
     length (hci_write_pcm_data_format s) = 9 \<and> cmd_ok (hci_write_pcm_data_format s) \<and>
     length (hci_write_i2spcm_interface_param s) = 8 \<and> cmd_ok (hci_write_i2spcm_interface_param s) \<and>
     write_q s = [] \<and> list_all cmd_ok (tx_log s)"

named_theorems wf_steps \<open>the steps that keep a state well formed\<close>

abbreviation keeps_wf :: "(brcm \<Rightarrow> brcm res) \<Rightarrow> bool" where
  "keeps_wf f \<equiv> \<forall>s. brcm_wf s \<longrightarrow> post (f s) brcm_wf"

lemma brcm_wf_init: "write_q w = [] \<Longrightarrow> tx_log w = [] \<Longrightarrow> brcm_wf (brcm_init w)"
  by (simp add: brcm_wf_def brcm_init_def world.defs cmd_ok_def)

lemma cmd_ok_consts: "cmd_ok hci_reset" "cmd_ok hci_read_local_name" "cmd_ok hci_download_minidriver" "cmd_ok hci_write_sleep_mode"
  by (simp_all add: cmd_ok_def hci_reset_def hci_read_local_name_def hci_download_minidriver_def hci_write_sleep_mode_def)

text \<open>Only the bytes behind the header of a command change.\<close>

lemma cmd_ok_params: "cmd_ok c \<Longrightarrow> 4 \<le> k \<Longrightarrow> k + length ps = length c \<Longrightarrow> cmd_ok (take k c @ ps)"
  by (auto simp: cmd_ok_def nth_append)

text \<open>Updates of the other fields do not matter.\<close>

lemma wf_upd [simp]:
  "brcm_wf (s\<lparr>read_q := q\<rparr>) = brcm_wf s" "brcm_wf (s\<lparr>tcset_q := tq\<rparr>) = brcm_wf s"
  "brcm_wf (s\<lparr>sys_q := tq\<rparr>) = brcm_wf s" "brcm_wf (s\<lparr>ti_cflag := cf\<rparr>) = brcm_wf s"
  "brcm_wf (s\<lparr>ti_speed := n\<rparr>) = brcm_wf s" "brcm_wf (s\<lparr>uart_fd := n\<rparr>) = brcm_wf s"
  "brcm_wf (s\<lparr>hcdfile_fd := n\<rparr>) = brcm_wf s" "brcm_wf (s\<lparr>termios_baudrate := n\<rparr>) = brcm_wf s"
  "brcm_wf (s\<lparr>bdaddr_flag := b\<rparr>) = brcm_wf s" "brcm_wf (s\<lparr>enable_lpm := b\<rparr>) = brcm_wf s"
  "brcm_wf (s\<lparr>enable_hci := b\<rparr>) = brcm_wf s" "brcm_wf (s\<lparr>use_baudrate_for_download := b\<rparr>) = brcm_wf s"
  "brcm_wf (s\<lparr>debug := b\<rparr>) = brcm_wf s" "brcm_wf (s\<lparr>scopcm := b\<rparr>) = brcm_wf s"
  "brcm_wf (s\<lparr>i2s := b\<rparr>) = brcm_wf s" "brcm_wf (s\<lparr>no2bytes := b\<rparr>) = brcm_wf s"
  "brcm_wf (s\<lparr>tosleep := n\<rparr>) = brcm_wf s" "brcm_wf (s\<lparr>hcd := d\<rparr>) = brcm_wf s"
  "brcm_wf (s\<lparr>rand_q := rq\<rparr>) = brcm_wf s" "brcm_wf (s\<lparr>alarm_q := rq\<rparr>) = brcm_wf s"
  "brcm_wf (s\<lparr>ap_written := w\<rparr>) = brcm_wf s"
  by (simp_all add: brcm_wf_def)

lemma wf_arrays:
  "brcm_wf s \<Longrightarrow> length a = 1024 \<Longrightarrow> brcm_wf (s\<lparr>buffer := a\<rparr>)"
  "brcm_wf s \<Longrightarrow> length a = 32 \<Longrightarrow> brcm_wf (s\<lparr>local_name := a\<rparr>)"
  "brcm_wf s \<Longrightarrow> length a = 1024 \<Longrightarrow> brcm_wf (s\<lparr>fw_folder_path := a\<rparr>)"
  by (simp_all add: brcm_wf_def)

lemma wf_lengths:
  assumes "brcm_wf s"
  shows "length (buffer s) = 1024" and "length (local_name s) = 32" and "length (fw_folder_path s) = 1024"
    and "length (hci_update_baud_rate s) = 10" and "length (hci_write_bd_addr s) = 10"
    and "length (hci_write_sco_pcm_int s) = 9" and "length (hci_write_pcm_data_format s) = 9"
    and "length (hci_write_i2spcm_interface_param s) = 8"
  using assms by (simp_all add: brcm_wf_def)

lemma wf_cmds:
  assumes "brcm_wf s"
  shows "cmd_ok (hci_update_baud_rate s)" and "cmd_ok (hci_write_bd_addr s)" and "cmd_ok (hci_write_sco_pcm_int s)"
    and "cmd_ok (hci_write_pcm_data_format s)" and "cmd_ok (hci_write_i2spcm_interface_param s)"
  using assms by (simp_all add: brcm_wf_def)

section \<open>The exchange\<close>

lemma do_read_wf: "brcm_wf s \<Longrightarrow> do_read n s = Ret (c, bs, s') \<Longrightarrow> brcm_wf s'"
  by (auto simp: do_read_def split: list.splits option.splits if_splits)

lemma rd_loop_wf: "brcm_wf s \<Longrightarrow> post (rd_loop i len s) (\<lambda>x. brcm_wf (snd x))"
proof (induction i len s rule: rd_loop.induct)
  case (1 i len s)
  show ?case
    unfolding rd_loop.simps [of i len s]
  proof (rule post_bind)
    fix x assume r: "do_read (nat len) s = Ret x"
    obtain c bs s1 where x: "x = (c, bs, s1)" by (cases x)
    have wf: "brcm_wf s1" using do_read_wf [OF 1(2)] r x by blast
    show "post ((\<lambda>(count, bs, s).
        rbind (if bs = [] then Ret (buffer s) else check (0 \<le> i) (arr_put (buffer s) (nat i) bs)) (\<lambda>b.
          if count < len then rd_loop (i + count) (len - count) (s\<lparr>buffer := b\<rparr>)
          else Ret (i + count, s\<lparr>buffer := b\<rparr>))) x) (\<lambda>x. brcm_wf (snd x))"
      unfolding x prod.case
    proof (rule post_bind)
      fix b assume b: "(if bs = [] then Ret (buffer s1) else check (0 \<le> i) (arr_put (buffer s1) (nat i) bs)) = Ret b"
      have "length b = 1024"
        using b wf_lengths(1) [OF wf] by (auto simp: check_def split: if_splits dest!: length_arr_put)
      then have wf': "brcm_wf (s1\<lparr>buffer := b\<rparr>)" by (rule wf_arrays(1) [OF wf])
      then show "post (if c < len then rd_loop (i + c) (len - c) (s1\<lparr>buffer := b\<rparr>)
          else Ret (i + c, s1\<lparr>buffer := b\<rparr>)) (\<lambda>x. brcm_wf (snd x))"
        using 1(1) [OF r x [symmetric] refl b _ wf'] by auto
    qed
  qed
qed

lemma rd_loop_wfD: "rd_loop i len s = Ret (j, s') \<Longrightarrow> brcm_wf s \<Longrightarrow> brcm_wf s'"
  using rd_loop_wf [of s i len] by (simp add: post_def)

lemma read_event_wf: "brcm_wf s \<Longrightarrow> post (read_event s) brcm_wf"
  unfolding read_event_def
  by (auto simp: post_def dest: rd_loop_wfD)

lemma send_cmd_wf: "brcm_wf s \<Longrightarrow> cmd_ok c \<Longrightarrow> brcm_wf (hci_send_cmd c s)"
  by (simp add: hci_send_cmd_def brcm_wf_def)

lemma send_and_read_wf: "brcm_wf s \<Longrightarrow> cmd_ok c \<Longrightarrow> post (send_and_read c s) brcm_wf"
  unfolding send_and_read_def by (intro read_event_wf send_cmd_wf)

lemma tcsetattr_wf: "brcm_wf s \<Longrightarrow> brcm_wf (snd (do_tcsetattr s))"
  by (simp add: do_tcsetattr_def split: list.splits)

lemma sys_wf: "brcm_wf s \<Longrightarrow> brcm_wf (snd (do_sys d s))"
  by (simp add: do_sys_def split: list.splits)

section \<open>The steps\<close>

lemma proc_reset_wf: "brcm_wf s \<Longrightarrow> post (proc_reset s) brcm_wf"
proof -
  assume s: "brcm_wf s"
  have "brcm_wf ((expired ^^ k) u)" if "brcm_wf u" for k u
    by (induction k) (simp_all add: that expired_def send_cmd_wf cmd_ok_consts)
  then show ?thesis
    unfolding proc_reset_def Let_def by (intro read_event_wf) (simp add: s send_cmd_wf cmd_ok_consts)
qed

lemma proc_simple_wf:
  "brcm_wf s \<Longrightarrow> post (proc_bdaddr s) brcm_wf" "brcm_wf s \<Longrightarrow> post (proc_enable_lpm s) brcm_wf"
  "brcm_wf s \<Longrightarrow> post (proc_i2s s) brcm_wf"
  unfolding proc_bdaddr_def proc_enable_lpm_def proc_i2s_def
  by (intro send_and_read_wf cmd_ok_consts wf_cmds; assumption)+

lemma proc_baudrate_wf: "brcm_wf s \<Longrightarrow> post (proc_baudrate s) brcm_wf"
  unfolding proc_baudrate_def
  by (auto intro!: post_bind2 [OF send_and_read_wf] tcsetattr_wf wf_cmds)

lemma proc_scopcm_wf: "brcm_wf s \<Longrightarrow> post (proc_scopcm s) brcm_wf"
  unfolding proc_scopcm_def
  by (auto intro!: post_bind2 [OF send_and_read_wf] send_and_read_wf wf_cmds)

lemma case_loop_length: "post (case_loop f p i arr) (\<lambda>a. length a = length arr)"
proof (induction f p i arr rule: case_loop.induct)
  case (1 f p i arr)
  then show ?case by (subst case_loop.simps) (auto simp: post_def)
qed

lemma proc_read_local_name_wf: "brcm_wf s \<Longrightarrow> post (proc_read_local_name s) brcm_wf"
  unfolding proc_read_local_name_def
proof (rule post_bind2 [OF send_and_read_wf], assumption, rule cmd_ok_consts(2))
  fix s assume s: "brcm_wf s"
  have "brcm_wf (s\<lparr>buffer := b, local_name := l\<rparr>)"
    if "case_loop c_toupper 7 0 (buffer s) = Ret b" "arr_put (local_name s) 0 nm = Ret l" for b nm l
    using that postD [OF case_loop_length that(1)] wf_lengths(1,2) [OF s] s
    by (auto intro!: wf_arrays dest!: length_arr_put)
  then show "post (rbind (case_loop c_toupper 7 0 (buffer s)) (\<lambda>b. rbind (arr_str b 7) (\<lambda>nm.
      rbind (arr_put (local_name s) 0 (nm @ [0])) (\<lambda>l. Ret (s\<lparr>buffer := b, local_name := l\<rparr>))))) brcm_wf"
    by (auto simp: post_def)
qed

lemma hcd_open_wf: "brcm_wf (hcd_open fs path s) = brcm_wf s"
  by (auto simp: hcd_open_def do_sys_def split: option.splits list.splits)

lemma local_name_hcd_open: "local_name (hcd_open fs path s) = local_name s"
  by (auto simp: hcd_open_def do_sys_def split: option.splits list.splits)

lemma proc_open_patchram_wf:
  assumes "brcm_wf s" shows "post (proc_open_patchram fs s) brcm_wf"
  unfolding proc_open_patchram_def Let_def
proof (intro post_bind post_if)
  fix nm l path
  assume "(case fw_scan nm fw_auto_detection_table of None \<Rightarrow> Ret (local_name s)
            | Some u \<Rightarrow> arr_put (local_name s) 0 (u @ [0])) = Ret l"
  then have "length l = 32"
    using wf_lengths(2) [OF assms] by (auto split: option.splits dest: length_arr_put)
  then have wf: "brcm_wf (s\<lparr>local_name := l\<rparr>)" by (rule wf_arrays(2) [OF assms])
  then show "post (Ret (hcd_open fs path (s\<lparr>local_name := l\<rparr>))) brcm_wf" by (simp add: hcd_open_wf)
  fix l'
  assume "case_loop c_tolower 0 0 (local_name (hcd_open fs path (s\<lparr>local_name := l\<rparr>))) = Ret l'"
  then have "length l' = 32"
    using postD [OF case_loop_length] \<open>length l = 32\<close> by (fastforce simp: local_name_hcd_open)
  then have "brcm_wf ((hcd_open fs path (s\<lparr>local_name := l\<rparr>))\<lparr>local_name := l'\<rparr>)"
    by (intro wf_arrays(2)) (simp_all add: hcd_open_wf wf)
  then show "post (Ret (hcd_open fs path' ((hcd_open fs path (s\<lparr>local_name := l\<rparr>))\<lparr>local_name := l'\<rparr>))) brcm_wf" for path'
    by (simp add: hcd_open_wf)
qed simp

text \<open>A record of the firmware file, whatever is left of it, is sent as a complete command.\<close>

lemma patch_record_wf:
  assumes "brcm_wf s" shows "post (patch_record head s) brcm_wf"
proof -
  have "brcm_wf s'" if p: "patch_record head s = Ret s'" for s'
  proof -
    obtain b0 b1 l where pre: "arr_put (buffer s) 1 head = Ret b0" "arr_put b0 0 [0x01] = Ret b1" "arr_get b1 3 = Ret l"
      and rest: "(case hcd_read (unat l) s of (_, d, s) \<Rightarrow> rbind (arr_put b1 4 d) (\<lambda>b.
        rbind (arr_slice b 0 (unat l + 4)) (\<lambda>cmd. Ret (hci_send_cmd cmd (s\<lparr>buffer := b\<rparr>))))) = Ret s'"
      using p unfolding patch_record_def rbind_eq_Ret by blast
    obtain n d s1 where rd: "hcd_read (unat l) s = (n, d, s1)" by (rule prod_cases3)
    obtain b2 cmd where puts: "arr_put b1 4 d = Ret b2" "arr_slice b2 0 (unat l + 4) = Ret cmd"
      and s': "s' = hci_send_cmd cmd (s1\<lparr>buffer := b2\<rparr>)"
      using rest by (auto simp: rd)
    from pre have b1: "length b1 = 1024" "b1 ! 0 = 0x01" "b1 ! 3 = l"
      using wf_lengths(1) [OF assms] by (auto simp: arr_get_def arr_put_def nth_append split: if_splits)
    then have b2: "length b2 = 1024" "b2 ! 0 = 0x01" "b2 ! 3 = l"
      using puts(1) by (auto simp: arr_put_def nth_append split: if_splits)
    have "cmd = take (unat l + 4) b2" "unat l + 4 \<le> 1024"
      using puts(2) b2(1) by (auto simp: arr_slice_def split: if_splits)
    then have "cmd_ok cmd" using b2 by (simp add: cmd_ok_def)
    moreover have "brcm_wf s1" using rd assms by (auto simp: hcd_read_def split: option.splits)
    ultimately show ?thesis unfolding s' using b2(1) by (intro send_cmd_wf wf_arrays(1))
  qed
  then show ?thesis by (simp add: post_def)
qed

lemma patch_loop_wf: "brcm_wf s \<Longrightarrow> post (patch_loop s) brcm_wf"
proof (induction s rule: patch_loop.induct)
  case (1 s)
  obtain n d s1 where r: "hcd_read 3 s = (n, d, s1)" by (cases "hcd_read 3 s")
  then have wf: "brcm_wf s1" using 1(2) by (auto simp: hcd_read_def split: option.splits)
  have "post (if n = 0 then Ret s1 else rbind (patch_record d s1) (\<lambda>s. rbind (read_event s) patch_loop)) brcm_wf"
  proof (intro post_if post_bind)
    fix s2 s3 assume n: "n \<noteq> 0" and p: "patch_record d s1 = Ret s2" and e: "read_event s2 = Ret s3"
    have "brcm_wf s2" by (rule postD [OF patch_record_wf [OF wf] p])
    then have "brcm_wf s3" by (rule postD [OF read_event_wf e])
    then show "post (patch_loop s3) brcm_wf" using 1(1) [OF r [symmetric] refl n p e] by blast
  qed (simp add: wf)
  then show ?case by (subst patch_loop.simps) (simp add: r)
qed

lemma proc_patchram_wf:
  assumes "brcm_wf s" shows "post (proc_patchram s) brcm_wf"
  unfolding proc_patchram_def
proof (rule post_bind2 [OF send_and_read_wf [OF assms cmd_ok_consts(3)]], rule post_bind2)
  fix s assume s: "brcm_wf s"
  show "post (if no2bytes s then Ret s
      else rbind (do_read 2 s) (\<lambda>(_, bs, s). rbind (arr_put (buffer s) 0 bs) (\<lambda>b. Ret (s\<lparr>buffer := b\<rparr>)))) brcm_wf"
    using s do_read_wf [OF s] wf_lengths(1)
    by (fastforce simp: post_def intro: wf_arrays dest: length_arr_put)
next
  fix s assume s: "brcm_wf s"
  show "post (rbind (patch_loop s) (\<lambda>s.
       let s = (if use_baudrate_for_download s then snd (do_tcsetattr (s\<lparr>ti_speed := 115200\<rparr>)) else s)
       in proc_reset s)) brcm_wf"
    by (rule post_bind2 [OF patch_loop_wf [OF s]]) (auto simp: Let_def intro!: proc_reset_wf tcsetattr_wf)
qed

lemma proc_enable_hci_wf: "brcm_wf s \<Longrightarrow> brcm_wf (proc_enable_hci s)"
  by (simp add: proc_enable_hci_def do_sys_def split: list.splits)

lemma brcm_init_uart_wf: "brcm_wf s \<Longrightarrow> brcm_wf (brcm_init_uart s)"
  unfolding brcm_init_uart_def Let_def by (intro tcsetattr_wf wf_upd [THEN iffD2]) 

lemma opt_step_wf: "brcm_wf s \<Longrightarrow> (\<And>s. brcm_wf s \<Longrightarrow> post (f s) brcm_wf) \<Longrightarrow> post (opt_step b f s) brcm_wf"
  by (simp add: opt_step_def)

lemmas proc_wf = proc_reset_wf proc_simple_wf proc_baudrate_wf proc_scopcm_wf proc_patchram_wf

lemma brcm_setup_wf: "brcm_wf s \<Longrightarrow> post (brcm_setup s) brcm_wf"
  unfolding brcm_setup_def
  by (rule post_bind2 [OF opt_step_wf], assumption, erule proc_wf)+ (simp add: proc_enable_hci_wf)

section \<open>The command line\<close>

lemma parse_baudrate_wf: "brcm_wf s \<Longrightarrow> brcm_wf (snd (parse_baudrate a s))"
proof -
  assume s: "brcm_wf s"
  have "length (BRCM_encode_baud_rate w x) = length x" for w x
    by (simp add: BRCM_encode_baud_rate_def Let_def)
  then have "cmd_ok (take 6 (hci_update_baud_rate s) @ BRCM_encode_baud_rate w (drop 6 (hci_update_baud_rate s)))" for w
    by (intro cmd_ok_params wf_cmds s) (simp_all add: wf_lengths [OF s])
  then show ?thesis
    using s \<open>\<And>w x. length (BRCM_encode_baud_rate w x) = length x\<close>
    by (simp add: parse_baudrate_def Let_def brcm_wf_def split: option.splits)
qed

lemma scan_addr_length: "scan_addr n a = Ret vs \<Longrightarrow> length vs = n"
  by (induction n arbitrary: a vs) (auto split: option.splits list.splits if_splits)

lemma parse_bdaddr_wf: "brcm_wf s \<Longrightarrow> post (parse_bdaddr a s) (\<lambda>x. brcm_wf (snd x))"
proof -
  assume s: "brcm_wf s"
  have "brcm_wf (s\<lparr>hci_write_bd_addr := take 4 (hci_write_bd_addr s) @ map of_int (rev vs), bdaddr_flag := True\<rparr>)"
    if "length vs = 6" for vs :: "int list"
  proof -
    have "cmd_ok (take 4 (hci_write_bd_addr s) @ map of_int (rev vs))"
      by (intro cmd_ok_params wf_cmds s) (simp_all add: wf_lengths [OF s] that)
    then show ?thesis using s that by (simp add: brcm_wf_def)
  qed
  then show ?thesis by (auto simp: parse_bdaddr_def post_def dest: scan_addr_length)
qed

lemma scan_ints_length: "length (scan_ints n a) \<le> n"
  by (induction n a rule: scan_ints.induct) (auto split: option.splits list.splits)

lemma parse_scopcm_wf: "brcm_wf s \<Longrightarrow> brcm_wf (snd (parse_scopcm a s))"
proof -
  assume s: "brcm_wf s"
  have "cmd_ok (take 4 (hci_write_sco_pcm_int s) @ map of_int (take 5 ps))"
    "cmd_ok (take 4 (hci_write_pcm_data_format s) @ map of_int (drop 5 ps))" if "length ps = 10" for ps :: "int list"
    by (intro cmd_ok_params wf_cmds s; simp add: wf_lengths [OF s] that)+
  then show ?thesis using s by (simp add: parse_scopcm_def Let_def brcm_wf_def)
qed

lemma parse_i2s_wf: "brcm_wf s \<Longrightarrow> brcm_wf (snd (parse_i2s a s))"
proof -
  assume s: "brcm_wf s"
  have "cmd_ok (take 4 (hci_write_i2spcm_interface_param s) @ map of_int ps)" if "length ps = 4" for ps :: "int list"
    by (intro cmd_ok_params wf_cmds s) (simp_all add: wf_lengths [OF s] that)
  then show ?thesis using s by (simp add: parse_i2s_def Let_def brcm_wf_def)
qed

lemma parse_long_wf: "brcm_wf s \<Longrightarrow> post (parse_long i a s) (\<lambda>x. brcm_wf (snd x))"
  using parse_baudrate_wf [of s "the a"] parse_scopcm_wf [of s "the a"] parse_i2s_wf [of s "the a"] parse_bdaddr_wf [of s "the a"]
  by (auto simp: parse_long_def parse_patchram_def parse_tosleep_def Let_def post_def
      intro: wf_arrays dest!: length_arr_put simp: wf_lengths)

lemma parse_bdaddr_rand_wf: "brcm_wf s \<Longrightarrow> post (parse_bdaddr_rand fs s) (\<lambda>x. brcm_wf (snd x))"
  unfolding parse_bdaddr_rand_def
  by (auto simp: check_def writeApName_def Let_def intro!: parse_bdaddr_wf split: option.splits prod.splits)

lemma parse_events_wf: "brcm_wf s \<Longrightarrow> post (parse_events fs es s) (\<lambda>x. brcm_wf (snd x))"
proof (induction fs es s rule: parse_events.induct)
  case (2 fs i a es s)
  have "post (if i = 3 then parse_bdaddr_rand fs s else parse_long i a s) (\<lambda>x. brcm_wf (snd x))"
    using 2(2) parse_bdaddr_rand_wf parse_long_wf by simp
  note first = this
  show ?case
    unfolding parse_events.simps
  proof (rule post_bind)
    fix x assume m: "(if i = 3 then parse_bdaddr_rand fs s else parse_long i a s) = Ret x"
    have "brcm_wf (snd x)" by (rule postD [OF first m])
    then show "post (case x of (ret, s) \<Rightarrow> if ret \<noteq> 0 then Ret (ret, s) else parse_events fs es s) (\<lambda>x. brcm_wf (snd x))"
      using 2(1) [OF m] by (cases x) auto
  qed
qed simp_all

lemma parse_cmd_line_wf:
  assumes "brcm_wf s" shows "post (parse_cmd_line fs argv s) (\<lambda>x. brcm_wf (snd x))"
proof -
  obtain es rest where es: "long_only (tl argv) = (es, rest)" by fastforce
  show ?thesis
    unfolding parse_cmd_line_def es prod.case
  proof (rule post_bind2 [OF parse_events_wf [OF assms]])
    fix x :: "int \<times> brcm" assume "brcm_wf (snd x)"
    then show "post (case x of (ret, s) \<Rightarrow> if ret \<noteq> 0 then Ret (1, s)
        else if rest = [] then Ret (0, s)
        else case do_sys 3 s of (fd, s) \<Rightarrow> Ret (0, s\<lparr>uart_fd := fd\<rparr>)) (\<lambda>x. brcm_wf (snd x))"
      using sys_wf [of "snd x" 3] by (cases x; cases "do_sys 3 (snd x)") auto
  qed
qed

section \<open>A whole run\<close>

text \<open>A controller that answers every command, and a disk with an empty firmware file for it.\<close>

definition demo_line :: "bytes option list" where
  "demo_line = [Some [4, 14, 4, 1, 3, 0x0c, 0],
     Some ([4, 14, 40, 1, 0x14, 0x0c, 0] @ string_bytes ''BCM4330B1'' @ replicate 27 0),
     Some [4, 14, 4, 1, 0x2e, 0xfc, 0], Some [1, 2], Some [4, 14, 4, 1, 3, 0x0c, 0]]"

definition demo_hcd :: file_system where
  "demo_hcd = (\<lambda>p. if p = ''/BCM40183B2.hcd'' then Some \<lparr>f_size = 0, f_open = True, f_data = Some []\<rparr> else None)"

lemma demo_brcm_run:
  "case brcm_main demo_hcd [''brcm_patchram_plus1'', ''ttyS1''] (demo_brcm demo_line) of
     Ret s \<Rightarrow> tx_log s = [hci_reset, hci_read_local_name, hci_download_minidriver, hci_reset] | _ \<Rightarrow> False"
  by code_simp

section \<open>Properties\<close>



end
