(* ===== verification/Dhd_Priv.thy ===== *)
theory Dhd_Priv
  imports C_Lib
begin

text \<open>
  dhd_priv.c: the arguments of the command line are joined with spaces in a buffer of 500 bytes,
  which one \<open>ioctl\<close> hands to the wireless driver and gets back with its answer.
\<close>

section \<open>The code\<close>

definition DHD_BUF_LEN :: nat where "DHD_BUF_LEN = 500"

text \<open>The length of the string at the start of an array, and appending to it.\<close>

definition buf_strlen :: "string \<Rightarrow> nat res" where
  "buf_strlen buf = check (CHR 0x00 \<in> set buf) (Ret (length (takeWhile (\<lambda>c. c \<noteq> CHR 0x00) buf)))"

definition buf_strcat :: "string \<Rightarrow> string \<Rightarrow> string res" where
  "buf_strcat buf s =
     rbind (buf_strlen buf) (\<lambda>n.
     check (n + length s < length buf) (Ret (take n buf @ s @ [CHR 0x00] @ drop (n + length s + 1) buf)))"

text \<open>The loop over the arguments after the name of the program.\<close>

fun join_args :: "string list \<Rightarrow> string \<Rightarrow> string res" where
  "join_args [] buf = Ret buf"
| "join_args (a # as) buf =
     rbind (buf_strcat buf a) (\<lambda>buf.
     rbind (if as \<noteq> [] then buf_strcat buf '' '' else Ret buf) (join_args as))"

record dhd_priv_cmd =
  pc_buf :: string
  pc_used_len :: int
  pc_total_len :: int

text \<open>
  The answers of the system: the socket, and the driver's result with the buffer it leaves. The
  messages are values.
\<close>

record dhd_env =
  d_socket :: int
  d_ioctl :: "string \<Rightarrow> dhd_priv_cmd \<Rightarrow> int \<times> string"

datatype dhd_out = Version string | Args "string list" | InputRightCmd | SocketFailed | IoctlFailed int | Answer string nat int

text \<open>
  From the socket on: the status, the messages, and the request the driver got. The driver may
  leave anything in the buffer, which is printed as a string.
\<close>

definition dhd_ask :: "dhd_env \<Rightarrow> string \<Rightarrow> (int \<times> dhd_out list \<times> (string \<times> dhd_priv_cmd) option) res" where
  "dhd_ask e buf =
     (if d_socket e < 0 then Ret (-1, [SocketFailed], None) else
      let cmd = \<lparr>pc_buf = buf, pc_used_len = 500, pc_total_len = 500\<rparr>;
          (ret, buf) = d_ioctl e ''wlan0'' cmd
      in if ret < 0 then Ret (ret, [IoctlFailed ret], Some (''wlan0'', cmd))
         else rbind (buf_strlen buf) (\<lambda>n. Ret (ret, [Answer (take n buf) n ret], Some (''wlan0'', cmd))))"

text \<open>The whole program. With no argument vector at all the first test reads behind its end.\<close>

definition dhd_main :: "dhd_env \<Rightarrow> string list \<Rightarrow> (int \<times> dhd_out list \<times> (string \<times> dhd_priv_cmd) option) res" where
  "dhd_main e argv =
     (let out = [Version ''1.2'', Args argv] in
      check (argv \<noteq> []) (
      if tl argv = [] then Ret (0, out @ [InputRightCmd], None) else
      rbind (join_args (tl argv) (replicate DHD_BUF_LEN (CHR 0x00))) (\<lambda>buf.
      rbind (dhd_ask e buf) (\<lambda>(ret, out', cmd). Ret (ret, out @ out', cmd)))))"

section \<open>Joining\<close>

text \<open>The text the buffer is meant to hold.\<close>

fun words :: "string list \<Rightarrow> string" where
  "words [] = []"
| "words [a] = a"
| "words (a # b # as) = a @ '' '' @ words (b # as)"

definition no_nul :: "string \<Rightarrow> bool" where
  "no_nul s \<longleftrightarrow> CHR 0x00 \<notin> set s"

text \<open>A buffer of the full size that holds a string, with zeros behind it.\<close>

definition holds :: "string \<Rightarrow> string" where
  "holds s = s @ replicate (DHD_BUF_LEN - length s) (CHR 0x00)"

lemma length_holds: "length s \<le> DHD_BUF_LEN \<Longrightarrow> length (holds s) = DHD_BUF_LEN"
  by (simp add: holds_def)

lemma strlen_holds: "no_nul s \<Longrightarrow> length s < DHD_BUF_LEN \<Longrightarrow> buf_strlen (holds s) = Ret (length s)"
  by (subgoal_tac "takeWhile (\<lambda>c. c \<noteq> CHR 0x00) (holds s) = s")
    (auto simp: buf_strlen_def holds_def no_nul_def takeWhile_append takeWhile_replicate takeWhile_eq_all_conv)

lemma strcat_holds:
  assumes "no_nul s" and "length s < DHD_BUF_LEN"
  shows "buf_strcat (holds s) u = (if length s + length u < DHD_BUF_LEN then Ret (holds (s @ u)) else Fault)"
proof -
  have "drop (length s + length u + 1) (holds s) = replicate (DHD_BUF_LEN - (length s + length u + 1)) (CHR 0x00)"
    by (simp add: holds_def)
  moreover have "[CHR 0x00] @ replicate (DHD_BUF_LEN - (length s + length u + 1)) (CHR 0x00) =
      replicate (DHD_BUF_LEN - (length s + length u)) (CHR 0x00)" if "length s + length u < DHD_BUF_LEN"
    using that by (cases "DHD_BUF_LEN - (length s + length u)") (simp_all flip: diff_Suc_eq_diff_pred)
  ultimately show ?thesis
    using strlen_holds [OF assms] length_holds [of s] assms(2)
    by (simp add: buf_strcat_def) (simp add: holds_def)
qed

lemma no_nul_append [simp]: "no_nul (s @ u) \<longleftrightarrow> no_nul s \<and> no_nul u"
  by (simp add: no_nul_def)

lemma no_nul_blank [simp]: "no_nul '' ''" "no_nul []"
  by (simp_all add: no_nul_def)

lemma join_args_holds:
  assumes "no_nul s" and "length s < DHD_BUF_LEN" and "list_all no_nul as"
  shows "join_args as (holds s) = (if length (s @ words as) < DHD_BUF_LEN then Ret (holds (s @ words as)) else Fault)"
  using assms
proof (induction as arbitrary: s rule: words.induct)
  case (2 a)
  then show ?case by (simp add: strcat_holds)
next
  case (3 a b as)
  then show ?case using 3(1) [of "s @ a @ '' ''"] by (auto simp: strcat_holds)
qed simp

section \<open>Properties\<close>

text \<open>
  Claim C36. The driver gets exactly the arguments joined with single spaces, in a buffer filled up
  with zeros, when they have fewer than 500 characters together; otherwise the program writes
  behind its buffer before it has even opened the socket.
\<close>
theorem dhd_joins_or_overflows:
  assumes "tl argv \<noteq> []" and "list_all no_nul argv"
  shows "dhd_main e argv =
     (if length (words (tl argv)) < 500
      then rbind (dhd_ask e (words (tl argv) @ replicate (500 - length (words (tl argv))) (CHR 0x00)))
         (\<lambda>(ret, out, cmd). Ret (ret, [Version ''1.2'', Args argv] @ out, cmd))
      else Fault)"
proof -
  have "argv \<noteq> []" "list_all no_nul (tl argv)" using assms by (cases argv; simp)+
  moreover have "replicate DHD_BUF_LEN (CHR 0x00) = holds []" "length [] < DHD_BUF_LEN"
    by (simp_all add: holds_def DHD_BUF_LEN_def)
  ultimately show ?thesis
    using assms(1) join_args_holds [of "[]" "tl argv"] by (simp add: dhd_main_def holds_def DHD_BUF_LEN_def)
qed

lemma dhd_joins_or_overflows_witness:
  "dhd_main \<lparr>d_socket = 3, d_ioctl = (\<lambda>i c. (-1, pc_buf c))\<rparr> [''dhd_priv'', ''wl'', ''ver''] =
     Ret (-1, [Version ''1.2'', Args [''dhd_priv'', ''wl'', ''ver''], IoctlFailed (-1)],
       Some (''wlan0'', \<lparr>pc_buf = ''wl ver'' @ replicate 494 (CHR 0x00), pc_used_len = 500, pc_total_len = 500\<rparr>))"
  using dhd_joins_or_overflows [of "[''dhd_priv'', ''wl'', ''ver'']" "\<lparr>d_socket = 3, d_ioctl = (\<lambda>i c. (-1, pc_buf c))\<rparr>"]
  by (simp add: no_nul_def dhd_ask_def)

end
